(* ===== verification/Prelude.thy ===== *)
theory Prelude
  imports Main "HOL-Library.Word" "HOL-Library.Char_ord" "HOL-Library.List_Lexorder"
    "HOL-Library.Sublist"
begin

text \<open>
  Shared vocabulary of the development.
  Bytes and characters are both \<open>char\<close> (eight bits, as in C++), strings are lists of them,
  \<open>uint8_t\<close> and \<open>uint16_t\<close> are words, a \<open>size_t\<close> is a natural number whose additions are
  reduced modulo \<open>2^64\<close> wherever the code could wrap.
  A C++ exception is a value \<open>Inl e\<close>; a use of an operation outside the C++ standard's
  preconditions (reading before the start of a string, \<open>back()\<close> of an empty string, ...) is the
  value \<open>Inl Undefined_Behaviour\<close>, so that no theorem silently relies on it.
  The second half holds the model of \<open>std::map\<close> (an association list kept sorted by key) and
  the generic list and string lemmas.
\<close>

section \<open>Types\<close>

type_synonym byte = char
type_synonym u8 = "8 word"
type_synonym u16 = "16 word"

datatype err =
    Invalid_Argument string
  | Runtime_Error string
  | Config_Error string
  | Yaml_Error string
  | Out_Of_Range
  | Assertion_Failed
  | Undefined_Behaviour

type_synonym 'a result = "err + 'a"

named_theorems label_simps and stream_simps and codec_simps

definition rbind :: "'a result \<Rightarrow> ('a \<Rightarrow> 'b result) \<Rightarrow> 'b result" where
  "rbind r f = (case r of Inl e \<Rightarrow> Inl e | Inr x \<Rightarrow> f x)"

lemma rbind_simps [simp]:
  "rbind (Inl e) f = Inl e"
  "rbind (Inr x) f = f x"
  by (simp_all add: rbind_def)

lemma rbind_Inr_iff: "rbind r f = Inr y \<longleftrightarrow> (\<exists>x. r = Inr x \<and> f x = Inr y)"
  by (cases r) auto

text \<open>Run an operation over a list from left to right; the first error stops it.\<close>

fun rfold :: "('a \<Rightarrow> 's \<Rightarrow> 's result) \<Rightarrow> 'a list \<Rightarrow> 's \<Rightarrow> 's result" where
  "rfold f [] s = Inr s"
| "rfold f (x # xs) s = rbind (f x s) (rfold f xs)"

lemma rfold_append: "rfold f (xs @ ys) s = rbind (rfold f xs s) (rfold f ys)"
  by (induction xs arbitrary: s) (auto simp: rbind_def split: sum.splits)

lemma rfold_invariant:
  assumes "\<And>x s s'. I s \<Longrightarrow> f x s = Inr s' \<Longrightarrow> I s'"
    and "I s" and "rfold f xs s = Inr s'"
  shows "I s'"
  using assms(2,3)
  by (induction xs arbitrary: s) (auto simp: rbind_Inr_iff dest: assms(1))

section \<open>\<open>size_t\<close> arithmetic\<close>

definition sz_add :: "nat \<Rightarrow> nat \<Rightarrow> nat" where
  "sz_add a b = (a + b) mod 2 ^ 64"

definition sz_sub :: "nat \<Rightarrow> nat \<Rightarrow> nat" where
  "sz_sub a b = (if b \<le> a then a - b else (a + 2 ^ 64 - b) mod 2 ^ 64)"

lemma sz_add_small [simp]: "a + b < 2 ^ 64 \<Longrightarrow> sz_add a b = a + b"
  by (simp add: sz_add_def)

lemma sz_sub_le [simp]: "b \<le> a \<Longrightarrow> sz_sub a b = a - b"
  by (simp add: sz_sub_def)

section \<open>\<open>std::string\<close>\<close>

text \<open>\<open>isspace\<close> in the C locale.\<close>

definition is_space :: "char \<Rightarrow> bool" where
  "is_space c \<longleftrightarrow> c \<in> {CHR '' '', CHR 0x09, CHR 0x0A, CHR 0x0B, CHR 0x0C, CHR 0x0D}"

text \<open>\<open>s.find(pat)\<close>: the first position where the pattern occurs, \<open>None\<close> for \<open>npos\<close>.\<close>

fun str_find :: "string \<Rightarrow> string \<Rightarrow> nat option" where
  "str_find [] pat = (if pat = [] then Some 0 else None)"
| "str_find (c # cs) pat =
     (if prefix pat (c # cs) then Some 0 else map_option Suc (str_find cs pat))"

text \<open>\<open>s.find(c)\<close> and \<open>s.find_last_of(c)\<close> for one character.\<close>

fun find_char :: "char \<Rightarrow> string \<Rightarrow> nat option" where
  "find_char c [] = None"
| "find_char c (x # xs) = (if x = c then Some 0 else map_option Suc (find_char c xs))"

fun rfind_char :: "char \<Rightarrow> string \<Rightarrow> nat option" where
  "rfind_char c [] = None"
| "rfind_char c (x # xs) =
     (case rfind_char c xs of Some i \<Rightarrow> Some (Suc i)
      | None \<Rightarrow> (if x = c then Some 0 else None))"

text \<open>
  \<open>s[i]\<close>: the terminating null at \<open>i = size()\<close>, undefined behaviour beyond it.
\<close>

definition str_at :: "string \<Rightarrow> nat \<Rightarrow> char result" where
  "str_at s i = (if i < length s then Inr (s ! i)
     else if i = length s then Inr (CHR 0x00) else Inl Undefined_Behaviour)"

text \<open>\<open>s.substr(pos)\<close> and \<open>s.substr(pos, n)\<close>; \<open>out_of_range\<close> past the end.\<close>

definition substr_from :: "string \<Rightarrow> nat \<Rightarrow> string result" where
  "substr_from s pos = (if pos \<le> length s then Inr (drop pos s) else Inl Out_Of_Range)"

lemma str_find_zero: "str_find s p = Some 0 \<longleftrightarrow> prefix p s"
  by (cases s) (auto split: if_splits)

lemma str_find_append: "prefix p (a @ p @ b) \<or> (\<exists>i. str_find (a @ p @ b) p = Some i)"
proof (induction a)
  case Nil
  then show ?case by simp
next
  case (Cons x a)
  have "\<exists>i. str_find (a @ p @ b) p = Some i"
    using Cons.IH by (metis str_find_zero)
  then show ?case by auto
qed

lemma str_find_not_None: "str_find s p \<noteq> None \<longleftrightarrow> (\<exists>a b. s = a @ p @ b)"
proof
  assume "str_find s p \<noteq> None"
  then show "\<exists>a b. s = a @ p @ b"
  proof (induction s)
    case Nil
    then show ?case by (auto split: if_splits)
  next
    case (Cons c cs)
    show ?case
    proof (cases "prefix p (c # cs)")
      case True
      then show ?thesis by (metis append_Nil prefixE)
    next
      case False
      with Cons obtain a b where "cs = a @ p @ b" by auto
      then show ?thesis by (metis append_Cons)
    qed
  qed
next
  assume "\<exists>a b. s = a @ p @ b"
  then show "str_find s p \<noteq> None"
    by (metis option.discI str_find_append str_find_zero)
qed

lemma find_char_None: "find_char c s = None \<longleftrightarrow> c \<notin> set s"
  by (induction s) auto

lemma find_char_Some:
  "find_char c s = Some i \<longleftrightarrow> i < length s \<and> s ! i = c \<and> c \<notin> set (take i s)"
proof (induction s arbitrary: i)
  case Nil
  then show ?case by simp
next
  case (Cons x xs)
  then show ?case by (cases i) auto
qed

lemma find_char_append:
  "find_char c (a @ b) = (case find_char c a of Some i \<Rightarrow> Some i
     | None \<Rightarrow> map_option ((+) (length a)) (find_char c b))"
proof (induction a)
  case Nil
  then show ?case by (cases "find_char c b") auto
next
  case (Cons x a)
  then show ?case by (cases "find_char c b") (auto split: option.splits)
qed

lemma rfind_char_None: "rfind_char c s = None \<longleftrightarrow> c \<notin> set s"
  by (induction s) (auto split: option.splits)

lemma rfind_char_Some:
  "rfind_char c s = Some i \<longleftrightarrow> i < length s \<and> s ! i = c \<and> c \<notin> set (drop (Suc i) s)"
proof (induction s arbitrary: i)
  case Nil
  then show ?case by simp
next
  case (Cons x xs)
  show ?case
  proof (cases "rfind_char c xs")
    case None
    then have "c \<notin> set xs" by (simp add: rfind_char_None)
    with None show ?thesis by (cases i) (auto dest: nth_mem)
  next
    case (Some j)
    with Cons have j: "j < length xs" "xs ! j = c" "c \<notin> set (drop (Suc j) xs)" by auto
    then have mem: "c \<in> set xs" by (metis nth_mem)
    show ?thesis
    proof (cases i)
      case 0
      with Some mem show ?thesis by simp
    next
      case (Suc k)
      with Some Cons [of k] show ?thesis by simp
    qed
  qed
qed

lemma rfind_char_append:
  "rfind_char c (a @ b) = (case rfind_char c b of Some i \<Rightarrow> Some (length a + i)
     | None \<Rightarrow> rfind_char c a)"
  by (induction a) (auto split: option.splits)

section \<open>\<open>std::map\<close> as a sorted association list\<close>

definition omap_ok :: "('k::linorder \<times> 'v) list \<Rightarrow> bool" where
  "omap_ok m \<longleftrightarrow> sorted_wrt (<) (map fst m)"

fun omap_insert :: "'k::linorder \<Rightarrow> 'v \<Rightarrow> ('k \<times> 'v) list \<Rightarrow> ('k \<times> 'v) list" where
  "omap_insert k v [] = [(k, v)]"
| "omap_insert k v ((k', v') # m) =
     (if k < k' then (k, v) # (k', v') # m
      else if k = k' then (k, v) # m
      else (k', v') # omap_insert k v m)"

definition omap_erase :: "'k \<Rightarrow> ('k \<times> 'v) list \<Rightarrow> ('k \<times> 'v) list" where
  "omap_erase k m = filter (\<lambda>p. fst p \<noteq> k) m"

text \<open>The elements before \<open>upper_bound(k)\<close>, nearest first: walking the iterator backwards.\<close>

definition omap_upto :: "'k::linorder \<Rightarrow> ('k \<times> 'v) list \<Rightarrow> ('k \<times> 'v) list" where
  "omap_upto k m = rev (takeWhile (\<lambda>p. fst p \<le> k) m)"

lemma map_of_omap_insert [simp]: "map_of (omap_insert k v m) = (map_of m)(k \<mapsto> v)"
  by (induction k v m rule: omap_insert.induct) (auto simp: fun_eq_iff)

lemma map_of_omap_erase [simp]: "map_of (omap_erase k m) = (map_of m)(k := None)"
  by (induction m) (auto simp: omap_erase_def fun_eq_iff)

lemma set_omap_insert: "fst ` set (omap_insert k v m) = insert k (fst ` set m)"
  by (induction k v m rule: omap_insert.induct) auto

lemma keys_omap_erase: "fst ` set (omap_erase k m) = fst ` set m - {k}"
  by (auto simp: omap_erase_def)

lemma omap_ok_Nil [simp]: "omap_ok []"
  by (simp add: omap_ok_def)

lemma omap_ok_Cons: "omap_ok ((k, v) # m) \<longleftrightarrow> (\<forall>k' \<in> fst ` set m. k < k') \<and> omap_ok m"
  by (simp add: omap_ok_def)

lemma omap_ok_insert [simp]: "omap_ok m \<Longrightarrow> omap_ok (omap_insert k v m)"
proof (induction k v m rule: omap_insert.induct)
  case (1 k v)
  then show ?case by (simp add: omap_ok_def)
next
  case (2 k v k' v' m)
  then show ?case by (auto simp: omap_ok_Cons set_omap_insert)
qed

lemma omap_ok_erase [simp]: "omap_ok m \<Longrightarrow> omap_ok (omap_erase k m)"
  by (auto simp: omap_ok_def omap_erase_def sorted_wrt_map intro: sorted_wrt_filter)

lemma omap_ok_distinct: "omap_ok m \<Longrightarrow> distinct (map fst m)"
  by (auto simp: omap_ok_def strict_sorted_iff)

lemma omap_ok_eqI:
  assumes "omap_ok m" and "omap_ok n" and "map_of m = map_of n"
  shows "m = n"
  using assms
proof (induction m arbitrary: n)
  case Nil
  then show ?case by (cases n) (auto simp: fun_eq_iff split: if_splits)
next
  case (Cons p m)
  obtain k v where p: "p = (k, v)" by (cases p)
  have keys: "fst ` set (p # m) = fst ` set n"
    by (metis Cons.prems(3) dom_map_of_conv_image_fst)
  from keys obtain k' v' n' where n: "n = (k', v') # n'" by (cases n) auto
  have lo: "\<forall>x \<in> fst ` set m. k < x" and lo': "\<forall>x \<in> fst ` set n'. k' < x"
    using Cons.prems(1,2) by (simp_all add: p n omap_ok_Cons)
  have eq: "insert k (fst ` set m) = insert k' (fst ` set n')"
    using keys by (simp add: p n)
  have "k = k' \<or> k' < k" and "k' = k \<or> k < k'"
    using eq lo lo' by blast+
  then have "k = k'" by (metis order_less_asym)
  moreover from this have "v = v'"
    using fun_cong [OF Cons.prems(3), of k] by (simp add: p n)
  moreover have "map_of m = map_of n'"
  proof
    fix x
    show "map_of m x = map_of n' x"
    proof (cases "x = k")
      case True
      have "k \<notin> fst ` set m" and "k \<notin> fst ` set n'"
        using Cons.prems(1,2) \<open>k = k'\<close> by (auto simp: p n omap_ok_Cons)
      then have "map_of m k = None" and "map_of n' k = None"
        by (simp_all only: map_of_eq_None_iff not_False_eq_True)
      with True show ?thesis by simp
    next
      case False
      then show ?thesis
        using fun_cong [OF Cons.prems(3), of x] \<open>k = k'\<close> by (simp add: p n)
    qed
  qed
  ultimately show ?case
    using Cons.IH [of n'] Cons.prems(1,2) by (auto simp: p n omap_ok_Cons)
qed

lemma set_omap_upto:
  "omap_ok m \<Longrightarrow> set (omap_upto k m) = {p \<in> set m. fst p \<le> k}"
proof (induction m)
  case Nil
  then show ?case by (simp add: omap_upto_def)
next
  case (Cons p m)
  then show ?case
    by (cases p) (force simp: omap_upto_def omap_ok_Cons)
qed

lemma omap_map_of_mem: "omap_ok m \<Longrightarrow> map_of m k = Some v \<longleftrightarrow> (k, v) \<in> set m"
  by (simp add: omap_ok_distinct)

section \<open>Decimal numbers\<close>

definition digit :: "nat \<Rightarrow> char" where
  "digit n = char_of (48 + n)"

text \<open>\<open>std::to_string\<close> of an unsigned integer.\<close>

fun to_dec :: "nat \<Rightarrow> string" where
  "to_dec n = (if n < 10 then [digit n] else to_dec (n div 10) @ [digit (n mod 10)])"

declare to_dec.simps [simp del]

end
