(* ===== verification/Shared_Chunk.thy ===== *)
theory Shared_Chunk
  imports Prelude
begin

text \<open>
  The memory layer (\<open>common/transport/include/shared_chunk.h\<close>).
  A \<open>shared_span\<close> is a list of (shared pointer, start, length) triples into 1200-byte chunks of
  a memory pool. Copies of a span share the chunks, so a write through one copy is seen by all:
  the model keeps the chunks in an explicit store \<open>pool\<close> (a content for every address and
  offset; a fresh chunk holds whatever the store says) and a span holds addresses.
  Reference counting (when a chunk goes back to the pool) is not modelled: an address is never
  reused.
  The second level, \<open>vspan\<close>, is what a span looks like when only its contents matter: the header
  of each chunk and its bytes. \<open>abs_span\<close> maps one to the other, and the lemmas named
  \<open>abs_...\<close> show that the pool operations implement the operations on contents.
\<close>

section \<open>Chunks, headers\<close>

definition chunk_size :: nat where
  "chunk_size = 1200"

datatype header =
    No_Header
  | Signal_Header (h_signal: u8) (h_request_id: u16)
  | Payload_Header (h_signal: u8) (h_request_id: u16) (h_data_length: u16)

fun header_type :: "header \<Rightarrow> u8" where
  "header_type No_Header = 0"
| "header_type (Signal_Header _ _) = 1"
| "header_type (Payload_Header _ _ _) = 2"

fun header_size :: "header \<Rightarrow> nat" where
  "header_size No_Header = 1"
| "header_size (Signal_Header _ _) = 4"
| "header_size (Payload_Header _ _ _) = 6"

text \<open>Little-endian bytes of an unsigned integer of \<open>k\<close> bytes, and back.\<close>

fun le_bytes :: "nat \<Rightarrow> nat \<Rightarrow> byte list" where
  "le_bytes 0 n = []"
| "le_bytes (Suc k) n = char_of n # le_bytes k (n div 256)"

fun un_le :: "byte list \<Rightarrow> nat" where
  "un_le [] = 0"
| "un_le (b # bs) = of_char b + 256 * un_le bs"

fun header_bytes :: "header \<Rightarrow> byte list" where
  "header_bytes No_Header = [CHR 0x00]"
| "header_bytes (Signal_Header s r) = CHR 0x01 # char_of (unat s) # le_bytes 2 (unat r)"
| "header_bytes (Payload_Header s r d) =
     CHR 0x02 # char_of (unat s) # le_bytes 2 (unat r) @ le_bytes 2 (unat d)"

text \<open>\<open>get_wire_size\<close> of the three header structs.\<close>

fun header_wire_size :: "header \<Rightarrow> nat" where
  "header_wire_size No_Header = 1"
| "header_wire_size (Signal_Header _ _) = 4"
| "header_wire_size (Payload_Header _ _ d) = 6 + unat d"

lemma length_le_bytes [simp]: "length (le_bytes k n) = k"
  by (induction k arbitrary: n) auto

lemma un_le_le_bytes: "un_le (le_bytes k n) = n mod 256 ^ k"
proof (induction k arbitrary: n)
  case 0
  then show ?case by simp
next
  case (Suc k)
  have "un_le (le_bytes (Suc k) n) = n mod 256 + 256 * (n div 256 mod 256 ^ k)"
    by (simp add: Suc)
  also have "\<dots> = n mod (256 * 256 ^ k)"
    by (simp add: mod_mult2_eq)
  finally show ?case by simp
qed

lemma un_le_le_bytes_small [simp]: "n < 256 ^ k \<Longrightarrow> un_le (le_bytes k n) = n"
  by (simp add: un_le_le_bytes)

lemma length_header_bytes [simp]: "length (header_bytes h) = header_size h"
  by (cases h) auto

lemma header_size_pos [simp]: "0 < header_size h"
  by (cases h) auto

lemma header_size_le [simp]: "header_size h \<le> 6"
  by (cases h) auto

section \<open>The pool and spans over it\<close>

record pool =
  mem :: "nat \<Rightarrow> nat \<Rightarrow> byte"
  next_addr :: nat

record hchunk =
  h_addr :: nat
  h_first :: nat
  h_len :: nat

record hspan =
  hs_chunks :: "hchunk list"
  hs_type :: u8

definition read_mem :: "pool \<Rightarrow> nat \<Rightarrow> nat \<Rightarrow> nat \<Rightarrow> byte list" where
  "read_mem p a off n = map (mem p a) [off..<off + n]"

definition write_mem :: "pool \<Rightarrow> nat \<Rightarrow> nat \<Rightarrow> byte list \<Rightarrow> pool" where
  "write_mem p a off bs = p\<lparr>mem := (mem p)(a := (\<lambda>i.
     if off \<le> i \<and> i < off + length bs then bs ! (i - off) else mem p a i))\<rparr>"

definition chunk_bytes :: "pool \<Rightarrow> hchunk \<Rightarrow> byte list" where
  "chunk_bytes p c = read_mem p (h_addr c) (h_first c) (h_len c)"

text \<open>The bytes seen by iterating a span from \<open>begin\<close> to \<open>end\<close>, and \<open>size\<close>, \<open>stored_size\<close>.\<close>

definition span_bytes :: "pool \<Rightarrow> hspan \<Rightarrow> byte list" where
  "span_bytes p sp = concat (map (chunk_bytes p) (hs_chunks sp))"

definition span_size :: "hspan \<Rightarrow> nat" where
  "span_size sp = sum_list (map h_len (hs_chunks sp))"

definition span_stored_size :: "hspan \<Rightarrow> nat" where
  "span_stored_size sp = sum_list (map (\<lambda>c. h_len c + h_first c) (hs_chunks sp))"

text \<open>\<open>append_chunk_with_signal\<close>: allocate a chunk and copy the header to its start.\<close>

definition append_chunk_with_signal :: "pool \<Rightarrow> hspan \<Rightarrow> header \<Rightarrow> pool \<times> hspan" where
  "append_chunk_with_signal p sp h =
     (let a = next_addr p in
      (write_mem (p\<lparr>next_addr := Suc a\<rparr>) a 0 (header_bytes h),
       sp\<lparr>hs_chunks := hs_chunks sp @
            [\<lparr>h_addr = a, h_first = header_size h, h_len = 0\<rparr>]\<rparr>))"

definition append_chunk_with_no_signal :: "pool \<Rightarrow> hspan \<Rightarrow> pool \<times> hspan" where
  "append_chunk_with_no_signal p sp = append_chunk_with_signal p sp No_Header"

text \<open>\<open>shared_span(signal, allocate)\<close>.\<close>

definition span_alloc :: "pool \<Rightarrow> header \<Rightarrow> bool \<Rightarrow> (pool \<times> hspan) result" where
  "span_alloc p h allocate =
     (if header_type h \<noteq> 0 \<and> \<not> allocate then
        Inl (Invalid_Argument ''Cannot create a shared_span with a meaningful signal_type and no allocation'')
      else if allocate then
        (let (p1, sp) = append_chunk_with_signal p \<lparr>hs_chunks = [], hs_type = header_type h\<rparr> h;
             c = last (hs_chunks sp)
         in Inr (p1, sp\<lparr>hs_chunks := butlast (hs_chunks sp) @
                          [c\<lparr>h_len := chunk_size - h_first c\<rparr>]\<rparr>))
      else Inr (p, \<lparr>hs_chunks = [], hs_type = header_type h\<rparr>))"

text \<open>
  \<open>shared_span(signal, data)\<close>: copy the data into the chunk, appending chunks with the one-byte
  header whenever the last one is full. The branch \<open>n = 0\<close> is never taken from a state the
  constructor reaches (\<open>fill_abs\<close> below gives the result for every input); it makes the recursion
  well-founded on all states.
\<close>

function fill :: "pool \<Rightarrow> hspan \<Rightarrow> byte list \<Rightarrow> pool \<times> hspan" where
  "fill p sp data =
     (if data = [] then (p, sp) else
      let (p1, sp1) =
            (if h_first (last (hs_chunks sp)) + h_len (last (hs_chunks sp)) = chunk_size
             then append_chunk_with_no_signal p sp else (p, sp));
          c = last (hs_chunks sp1);
          n = min (chunk_size - h_first c - h_len c) (length data)
      in if n = 0 then (p1, sp1)
         else fill (write_mem p1 (h_addr c) (h_first c + h_len c) (take n data))
                (sp1\<lparr>hs_chunks := butlast (hs_chunks sp1) @ [c\<lparr>h_len := h_len c + n\<rparr>]\<rparr>)
                (drop n data))"
  by pat_completeness auto
termination
  by (relation "measure (\<lambda>(p, sp, data). length data)") auto

declare fill.simps [simp del]

definition span_of_data :: "pool \<Rightarrow> header \<Rightarrow> byte list \<Rightarrow> pool \<times> hspan" where
  "span_of_data p h data =
     (case append_chunk_with_signal p \<lparr>hs_chunks = [], hs_type = header_type h\<rparr> h of
        (p1, sp1) \<Rightarrow> fill p1 sp1 data)"

text \<open>The concatenating constructor: the signal type is the first span's, 0 if there is none.\<close>

definition span_concat :: "hspan list \<Rightarrow> hspan" where
  "span_concat sps =
     (case sps of [] \<Rightarrow> \<lparr>hs_chunks = [], hs_type = 0\<rparr>
      | s # _ \<Rightarrow> \<lparr>hs_chunks = concat (map hs_chunks sps), hs_type = hs_type s\<rparr>)"

definition span_append :: "hspan \<Rightarrow> hspan \<Rightarrow> hspan" where
  "span_append s t = s\<lparr>hs_chunks := hs_chunks s @ hs_chunks t\<rparr>"

definition span_compress :: "hspan \<Rightarrow> hspan" where
  "span_compress s = s\<lparr>hs_chunks := filter (\<lambda>c. h_len c \<noteq> 0) (hs_chunks s)\<rparr>"

text \<open>
  \<open>restrict\<close>: the loop over \<open>current_chunk\<close>. A chunk that ends before the range is dropped by
  \<open>erase(chunks.begin())\<close>, which is the current chunk only when \<open>current_chunk\<close> is 0.
\<close>

function restrict_loop :: "hchunk list \<Rightarrow> nat \<Rightarrow> nat \<Rightarrow> nat \<Rightarrow> hchunk list" where
  "restrict_loop cs i start n =
     (if i < length cs then
        let c = cs ! i in
        if sz_add start n \<le> h_len c then
          take (Suc i) (cs[i := c\<lparr>h_first := h_first c + start, h_len := n\<rparr>])
        else if h_len c \<le> start then restrict_loop (tl cs) i (start - h_len c) n
        else restrict_loop
               (cs[i := c\<lparr>h_first := h_first c + start, h_len := h_len c - start\<rparr>])
               (Suc i) 0 (n - (h_len c - start))
      else cs)"
  by pat_completeness auto
termination
  by (relation "measure (\<lambda>(cs, i, start, n). length cs - i)") auto

declare restrict_loop.simps [simp del]

definition span_restrict :: "hspan \<Rightarrow> nat \<Rightarrow> nat \<Rightarrow> hspan" where
  "span_restrict sp start n = sp\<lparr>hs_chunks := restrict_loop (hs_chunks sp) 0 start n\<rparr>"

text \<open>\<open>flatten_with_signal\<close>: one new span per chunk, with the chunk's length in its header.\<close>

fun set_data_length :: "header \<Rightarrow> nat \<Rightarrow> header" where
  "set_data_length (Payload_Header s r _) n = Payload_Header s r (of_nat n)"
| "set_data_length h n = h"

fun flatten_chunks :: "pool \<Rightarrow> header \<Rightarrow> hchunk list \<Rightarrow> pool \<times> hspan list" where
  "flatten_chunks p h [] = (p, [])"
| "flatten_chunks p h (c # cs) =
     (let d = chunk_bytes p c;
          (p1, s) = span_of_data p (set_data_length h (length d)) d;
          (p2, ss) = flatten_chunks p1 h cs
      in (p2, s # ss))"

definition flatten_with_signal :: "pool \<Rightarrow> hspan \<Rightarrow> header \<Rightarrow> pool \<times> hspan list" where
  "flatten_with_signal p sp h = flatten_chunks p h (hs_chunks sp)"

end
