(* ===== verification/Span_Values.thy ===== *)
theory Span_Values
  imports Shared_Chunk
begin

text \<open>
  Spans by content. \<open>vspan\<close> is a span with the addresses forgotten: per chunk its header and the
  bytes of its range. The operations here are the ones of \<open>shared_chunk.h\<close> on contents;
  \<open>abs_span p\<close> reads a pool span, and the \<open>abs_...\<close> lemmas are the refinement: each pool operation,
  read through \<open>abs_span\<close>, is the content operation, and it leaves every older span unchanged
  (\<open>extends\<close>).
\<close>

section \<open>Content-level spans\<close>

record vchunk =
  vc_head :: header
  vc_data :: "byte list"

record vspan =
  vs_chunks :: "vchunk list"
  vs_type :: u8

definition vs_bytes :: "vspan \<Rightarrow> byte list" where
  "vs_bytes s = concat (map vc_data (vs_chunks s))"

definition vs_size :: "vspan \<Rightarrow> nat" where
  "vs_size s = sum_list (map (length \<circ> vc_data) (vs_chunks s))"

text \<open>The chunks after the first hold a one-byte header, so 1199 bytes each.\<close>

function more_chunks :: "byte list \<Rightarrow> vchunk list" where
  "more_chunks data =
     (if data = [] then []
      else \<lparr>vc_head = No_Header, vc_data = take (chunk_size - 1) data\<rparr>
           # more_chunks (drop (chunk_size - 1) data))"
  by pat_completeness auto
termination
  by (relation "measure length") (auto simp: chunk_size_def)

declare more_chunks.simps [simp del]

lemma more_chunks_Nil [simp]: "more_chunks [] = []"
  by (simp add: more_chunks.simps)

definition vs_of_data :: "header \<Rightarrow> byte list \<Rightarrow> vspan" where
  "vs_of_data h data =
     \<lparr>vs_chunks = \<lparr>vc_head = h, vc_data = take (chunk_size - header_size h) data\<rparr>
                  # more_chunks (drop (chunk_size - header_size h) data),
      vs_type = header_type h\<rparr>"

definition vs_empty :: vspan where
  "vs_empty = \<lparr>vs_chunks = [], vs_type = 0\<rparr>"

definition vs_concat :: "vspan list \<Rightarrow> vspan" where
  "vs_concat sps =
     (case sps of [] \<Rightarrow> vs_empty
      | s # _ \<Rightarrow> \<lparr>vs_chunks = concat (map vs_chunks sps), vs_type = vs_type s\<rparr>)"

definition vs_compress :: "vspan \<Rightarrow> vspan" where
  "vs_compress s = s\<lparr>vs_chunks := filter (\<lambda>c. vc_data c \<noteq> []) (vs_chunks s)\<rparr>"

function vrestrict_loop :: "vchunk list \<Rightarrow> nat \<Rightarrow> nat \<Rightarrow> nat \<Rightarrow> vchunk list" where
  "vrestrict_loop cs i start n =
     (if i < length cs then
        let c = cs ! i; l = length (vc_data c) in
        if sz_add start n \<le> l then
          take (Suc i) (cs[i := c\<lparr>vc_data := take n (drop start (vc_data c))\<rparr>])
        else if l \<le> start then vrestrict_loop (tl cs) i (start - l) n
        else vrestrict_loop (cs[i := c\<lparr>vc_data := drop start (vc_data c)\<rparr>])
               (Suc i) 0 (n - (l - start))
      else cs)"
  by pat_completeness auto
termination
  by (relation "measure (\<lambda>(cs, i, start, n). length cs - i)") auto

declare vrestrict_loop.simps [simp del]

definition vs_restrict :: "vspan \<Rightarrow> nat \<Rightarrow> nat \<Rightarrow> vspan" where
  "vs_restrict s start n = s\<lparr>vs_chunks := vrestrict_loop (vs_chunks s) 0 start n\<rparr>"

definition vs_flatten :: "header \<Rightarrow> vspan \<Rightarrow> vspan list" where
  "vs_flatten h s =
     map (\<lambda>c. vs_of_data (set_data_length h (length (vc_data c))) (vc_data c)) (vs_chunks s)"

subsection \<open>Bytes of the content-level operations\<close>

lemma more_chunks_bytes [simp]: "concat (map vc_data (more_chunks data)) = data"
proof (induction data rule: more_chunks.induct)
  case (1 data)
  then show ?case by (cases "data = []") (simp_all add: more_chunks.simps [of data])
qed

lemma more_chunks_nonempty: "c \<in> set (more_chunks data) \<Longrightarrow> vc_data c \<noteq> []"
proof (induction data rule: more_chunks.induct)
  case (1 data)
  then show ?case
    by (cases "data = []") (auto simp: more_chunks.simps [of data] chunk_size_def)
qed

lemma vs_of_data_bytes [simp]: "vs_bytes (vs_of_data h data) = data"
  by (simp add: vs_bytes_def vs_of_data_def)

lemma vs_size_bytes: "vs_size s = length (vs_bytes s)"
  by (simp add: vs_size_def vs_bytes_def length_concat comp_def)

lemma vs_concat_bytes: "vs_bytes (vs_concat sps) = concat (map vs_bytes sps)"
proof -
  have "concat (map vc_data (concat (map vs_chunks ss))) = concat (map vs_bytes ss)" for ss
    by (induction ss) (auto simp: vs_bytes_def)
  from this [of "sps"] show ?thesis
    by (cases sps) (auto simp: vs_concat_def vs_empty_def vs_bytes_def)
qed

lemma vs_compress_bytes [simp]: "vs_bytes (vs_compress s) = vs_bytes s"
proof -
  have "concat (map vc_data (filter (\<lambda>c. vc_data c \<noteq> []) cs)) = concat (map vc_data cs)" for cs
    by (induction cs) auto
  then show ?thesis by (simp add: vs_bytes_def vs_compress_def)
qed

lemma vs_compress_nonempty: "c \<in> set (vs_chunks (vs_compress s)) \<Longrightarrow> vc_data c \<noteq> []"
  by (auto simp: vs_compress_def)

lemma vs_flatten_bytes: "concat (map vs_bytes (vs_flatten h s)) = vs_bytes s"
  by (simp add: vs_flatten_def comp_def) (simp add: vs_bytes_def)

text \<open>
  \<open>restrict\<close> cuts out the requested range, provided no chunk of the span is empty and the range
  does not wrap around \<open>size_t\<close>.
\<close>

lemma vrestrict_loop_bytes:
  assumes "\<forall>c \<in> set (drop i cs). vc_data c \<noteq> []" and "start + n < 2 ^ 64"
    and "i = 0 \<or> start = 0" and "i = 0 \<or> 0 < n"
  shows "concat (map vc_data (vrestrict_loop cs i start n)) =
    concat (map vc_data (take i cs)) @ take n (drop start (concat (map vc_data (drop i cs))))"
  using assms
proof (induction cs i start n rule: vrestrict_loop.induct)
  case (1 cs i start n)
  show ?case
  proof (cases "i < length cs")
    case False
    then show ?thesis by (simp add: vrestrict_loop.simps)
  next
    case True
    define c where "c = cs ! i"
    define l where "l = length (vc_data c)"
    have drop: "drop i cs = c # drop (Suc i) cs"
      using True by (simp add: c_def Cons_nth_drop_Suc)
    have lpos: "0 < l" and rest: "\<forall>c \<in> set (drop (Suc i) cs). vc_data c \<noteq> []"
      using "1.prems"(1) drop by (auto simp: l_def)
    have upd: "take (Suc i) (cs[i := x]) = take i cs @ [x]" for x
      using True by (simp add: take_Suc_conv_app_nth)
    consider (fin) "start + n \<le> l" | (skip) "\<not> start + n \<le> l" "l \<le> start"
      | (go) "\<not> start + n \<le> l" "start < l" by linarith
    then show ?thesis
    proof cases
      case fin
      from fin have eq: "vrestrict_loop cs i start n =
          take i cs @ [c\<lparr>vc_data := take n (drop start (vc_data c))\<rparr>]"
        using True "1.prems"(2)
        by (simp add: vrestrict_loop.simps [of cs] c_def [symmetric] l_def [symmetric] Let_def upd)
      have "start + n \<le> length (vc_data c)" using fin by (simp add: l_def)
      then show ?thesis by (simp add: eq drop)
    next
      case skip
      have i0: "i = 0"
        using skip "1.prems"(3,4) lpos by auto
      have eq: "vrestrict_loop cs i start n = vrestrict_loop (tl cs) i (start - l) n"
        using True skip "1.prems"(2)
        by (simp add: vrestrict_loop.simps [of cs] c_def [symmetric] l_def [symmetric] Let_def)
      have cs: "cs = c # drop (Suc 0) cs"
        using drop i0 by simp
      have tl: "tl cs = drop (Suc 0) cs" by (simp add: drop_Suc)
      have "concat (map vc_data (vrestrict_loop (tl cs) i (start - l) n)) =
          concat (map vc_data (take i (tl cs))) @
          take n (drop (start - l) (concat (map vc_data (drop i (tl cs)))))"
        by (rule "1.IH"(1) [OF True c_def l_def])
          (use skip rest i0 tl "1.prems"(2) in auto)
      moreover have "drop start (concat (map vc_data cs)) =
          drop (start - l) (concat (map vc_data (drop (Suc 0) cs)))"
        using skip(2) by (subst cs) (simp add: l_def)
      ultimately show ?thesis
        using i0 eq [unfolded i0] by (simp add: tl)
    next
      case go
      define cs' where "cs' = cs[i := c\<lparr>vc_data := drop start (vc_data c)\<rparr>]"
      have eq: "vrestrict_loop cs i start n = vrestrict_loop cs' (Suc i) 0 (n - (l - start))"
        using True go "1.prems"(2)
        by (simp add: vrestrict_loop.simps [of cs] c_def [symmetric] l_def [symmetric] Let_def cs'_def)
      have dr: "drop (Suc i) cs' = drop (Suc i) cs" by (simp add: cs'_def)
      have tk: "take (Suc i) cs' = take i cs @ [c\<lparr>vc_data := drop start (vc_data c)\<rparr>]"
        by (simp add: cs'_def upd)
      have "concat (map vc_data (vrestrict_loop cs' (Suc i) 0 (n - (l - start)))) =
          concat (map vc_data (take (Suc i) cs')) @
          take (n - (l - start)) (drop 0 (concat (map vc_data (drop (Suc i) cs'))))"
        unfolding cs'_def
        by (rule "1.IH"(2) [OF True c_def l_def])
          (use go rest "1.prems"(2) in \<open>auto simp: c_def\<close>)
      moreover have "take n (drop start (vc_data c @ w)) =
          drop start (vc_data c) @ take (n - (l - start)) w" for w
        using go by (simp add: l_def)
      ultimately show ?thesis by (simp add: eq dr tk drop)
    qed
  qed
qed

lemma vs_restrict_bytes:
  assumes "\<forall>c \<in> set (vs_chunks s). vc_data c \<noteq> []" and "start + n < 2 ^ 64"
  shows "vs_bytes (vs_restrict s start n) = take n (drop start (vs_bytes s))"
  using vrestrict_loop_bytes [of 0 "vs_chunks s" start n] assms
  by (simp add: vs_bytes_def vs_restrict_def)

section \<open>Refinement: pool spans implement content spans\<close>

definition header_at :: "pool \<Rightarrow> nat \<Rightarrow> header" where
  "header_at p a =
     (if mem p a 0 = CHR 0x01 then
        Signal_Header (of_nat (of_char (mem p a 1))) (of_nat (un_le (read_mem p a 2 2)))
      else if mem p a 0 = CHR 0x02 then
        Payload_Header (of_nat (of_char (mem p a 1))) (of_nat (un_le (read_mem p a 2 2)))
          (of_nat (un_le (read_mem p a 4 2)))
      else No_Header)"

definition abs_chunk :: "pool \<Rightarrow> hchunk \<Rightarrow> vchunk" where
  "abs_chunk p c = \<lparr>vc_head = header_at p (h_addr c), vc_data = chunk_bytes p c\<rparr>"

definition abs_span :: "pool \<Rightarrow> hspan \<Rightarrow> vspan" where
  "abs_span p s = \<lparr>vs_chunks = map (abs_chunk p) (hs_chunks s), vs_type = hs_type s\<rparr>"

definition chunk_ok :: "pool \<Rightarrow> hchunk \<Rightarrow> bool" where
  "chunk_ok p c \<longleftrightarrow> h_addr c < next_addr p \<and> h_first c + h_len c \<le> chunk_size"

definition span_ok :: "pool \<Rightarrow> hspan \<Rightarrow> bool" where
  "span_ok p s \<longleftrightarrow> (\<forall>c \<in> set (hs_chunks s). chunk_ok p c)"

definition extends :: "pool \<Rightarrow> pool \<Rightarrow> bool" where
  "extends p q \<longleftrightarrow> next_addr p \<le> next_addr q \<and> (\<forall>a < next_addr p. mem q a = mem p a)"

lemma extends_refl [simp]: "extends p p"
  by (simp add: extends_def)

lemma extends_trans: "extends p q \<Longrightarrow> extends q r \<Longrightarrow> extends p r"
  by (auto simp: extends_def)

lemma extends_chunk:
  "extends p q \<Longrightarrow> chunk_ok p c \<Longrightarrow> chunk_ok q c \<and> abs_chunk q c = abs_chunk p c"
  by (auto simp: extends_def chunk_ok_def abs_chunk_def header_at_def chunk_bytes_def read_mem_def)

lemma extends_span:
  "extends p q \<Longrightarrow> span_ok p s \<Longrightarrow> span_ok q s \<and> abs_span q s = abs_span p s"
  by (auto simp: span_ok_def abs_span_def dest: extends_chunk)

lemma abs_span_bytes: "vs_bytes (abs_span p s) = span_bytes p s"
  by (simp add: vs_bytes_def abs_span_def span_bytes_def abs_chunk_def comp_def)

lemma length_chunk_bytes [simp]: "length (chunk_bytes p c) = h_len c"
  by (simp add: chunk_bytes_def read_mem_def)

lemma abs_span_size: "vs_size (abs_span p s) = span_size s"
  by (simp add: vs_size_def abs_span_def span_size_def abs_chunk_def comp_def)

lemma abs_span_compress: "abs_span p (span_compress s) = vs_compress (abs_span p s)"
proof -
  have "(chunk_bytes p c \<noteq> []) = (h_len c \<noteq> 0)" for c
    by (metis length_0_conv length_chunk_bytes)
  then show ?thesis
    by (simp add: abs_span_def span_compress_def vs_compress_def abs_chunk_def filter_map comp_def)
qed

lemma abs_span_concat: "abs_span p (span_concat ss) = vs_concat (map (abs_span p) ss)"
  by (cases ss) (auto simp: abs_span_def span_concat_def vs_concat_def vs_empty_def map_concat comp_def)

lemma abs_chunk_slice:
  assumes "start + n \<le> h_len c"
  shows "abs_chunk p (c\<lparr>h_first := h_first c + start, h_len := n\<rparr>) =
    (abs_chunk p c)\<lparr>vc_data := take n (drop start (vc_data (abs_chunk p c)))\<rparr>"
proof -
  have "take n (drop start [h_first c..<h_first c + h_len c]) =
      [h_first c + start..<h_first c + start + n]"
    using assms by simp
  then show ?thesis
    by (simp add: abs_chunk_def chunk_bytes_def read_mem_def take_map drop_map)
qed

lemma abs_restrict_loop:
  "start + n < 2 ^ 64 \<Longrightarrow>
   map (abs_chunk p) (restrict_loop cs i start n) = vrestrict_loop (map (abs_chunk p) cs) i start n"
proof (induction cs i start n rule: restrict_loop.induct)
  case (1 cs i start n)
  show ?case
  proof (cases "i < length cs")
    case False
    then show ?thesis by (simp add: restrict_loop.simps vrestrict_loop.simps)
  next
    case True
    define c where "c = cs ! i"
    have len: "length (vc_data (abs_chunk p c)) = h_len c"
      by (simp add: abs_chunk_def)
    have nth: "map (abs_chunk p) cs ! i = abs_chunk p c"
      using True by (simp add: c_def)
    note unf = restrict_loop.simps [of cs] vrestrict_loop.simps [of "map (abs_chunk p) cs"]
      Let_def c_def [symmetric] len nth map_update
    consider (fin) "start + n \<le> h_len c" | (skip) "\<not> start + n \<le> h_len c" "h_len c \<le> start"
      | (go) "\<not> start + n \<le> h_len c" "start < h_len c" by linarith
    then show ?thesis
    proof cases
      case fin
      then show ?thesis
        using True "1.prems" by (simp add: unf abs_chunk_slice flip: take_map)
    next
      case skip
      then show ?thesis
        using True "1.prems" "1.IH"(1) [OF True c_def] by (simp add: unf map_tl)
    next
      case go
      have "drop start (vc_data (abs_chunk p c)) =
          take (h_len c - start) (drop start (vc_data (abs_chunk p c)))"
        by (simp add: len)
      then show ?thesis
        using True go "1.prems" "1.IH"(2) [OF True c_def]
          abs_chunk_slice [of start "h_len c - start" c p]
        by (simp add: unf)
    qed
  qed
qed

lemma abs_span_restrict:
  "start + n < 2 ^ 64 \<Longrightarrow> abs_span p (span_restrict s start n) = vs_restrict (abs_span p s) start n"
  by (simp add: abs_span_def span_restrict_def vs_restrict_def abs_restrict_loop)

section \<open>Constructing a span from data\<close>

lemma read_write_same:
  "off' = off \<Longrightarrow> n = length bs \<Longrightarrow> read_mem (write_mem p a off bs) a off' n = bs"
  by (auto simp: read_mem_def write_mem_def intro: nth_equalityI)

lemma mem_write_other [simp]:
  "a' \<noteq> a \<Longrightarrow> mem (write_mem p a off bs) a' = mem p a'"
  by (simp add: write_mem_def)

lemma mem_write_before [simp]:
  "i < off \<Longrightarrow> mem (write_mem p a off bs) a i = mem p a i"
  by (simp add: write_mem_def)

lemma next_addr_write [simp]: "next_addr (write_mem p a off bs) = next_addr p"
  by (simp add: write_mem_def)

lemma read_mem_cong:
  "(\<And>i. off \<le> i \<Longrightarrow> i < off + n \<Longrightarrow> mem q a i = mem p a i) \<Longrightarrow> read_mem q a off n = read_mem p a off n"
  by (simp add: read_mem_def)

text \<open>What \<open>fill\<close> leaves behind, from the last chunk \<open>c\<close> of a span.\<close>

definition fill_post ::
  "pool \<Rightarrow> hchunk \<Rightarrow> hchunk list \<Rightarrow> u8 \<Rightarrow> byte list \<Rightarrow> pool \<Rightarrow> hspan \<Rightarrow> bool" where
  "fill_post p c cs ty data q s \<longleftrightarrow>
     (let e = h_first c + h_len c; k = min (chunk_size - e) (length data) in
      next_addr p \<le> next_addr q \<and> hs_type s = ty \<and>
      (\<forall>a < next_addr p. a \<noteq> h_addr c \<longrightarrow> mem q a = mem p a) \<and>
      (\<forall>i < e. mem q (h_addr c) i = mem p (h_addr c) i) \<and>
      read_mem q (h_addr c) e k = take k data \<and>
      (\<exists>more. hs_chunks s = cs @ c\<lparr>h_len := h_len c + k\<rparr> # more \<and>
         (\<forall>d \<in> set more. next_addr p \<le> h_addr d \<and> chunk_ok q d) \<and>
         map (abs_chunk q) more = more_chunks (drop k data)))"

lemma fill_full:
  assumes "h_first c + h_len c = chunk_size" and "data \<noteq> []" and "hs_chunks sp = cs @ [c]"
    and d_def: "d = \<lparr>h_addr = next_addr p, h_first = 1, h_len = min (chunk_size - 1) (length data)\<rparr>"
    and q_def: "q = write_mem (write_mem (p\<lparr>next_addr := Suc (next_addr p)\<rparr>) (next_addr p) 0 [CHR 0x00])
                (next_addr p) 1 (take (chunk_size - 1) data)"
  shows "fill p sp data = fill q (sp\<lparr>hs_chunks := cs @ [c, d]\<rparr>) (drop (chunk_size - 1) data)"
  using assms(1-3)
  by (subst fill.simps)
    (simp add: append_chunk_with_no_signal_def append_chunk_with_signal_def d_def q_def
      Let_def butlast_append chunk_size_def drop_all min_def split: if_splits)

lemma fill_post_holds:
  assumes "hs_chunks sp = cs @ [c]" and "h_addr c < next_addr p"
    and "h_first c + h_len c \<le> chunk_size"
  shows "fill_post p c cs (hs_type sp) data (fst (fill p sp data)) (snd (fill p sp data))"
  using assms
proof (induction "length data" arbitrary: p sp cs c data rule: less_induct)
  case less
  show ?case
  proof (cases "data = []")
    case True
    then show ?thesis
      using less.prems by (simp add: fill.simps fill_post_def read_mem_def)
  next
    case ne: False
    show ?thesis
    proof (cases "h_first c + h_len c = chunk_size")
      case full: True
      define k where "k = min (chunk_size - 1) (length data)"
      define d where "d = \<lparr>h_addr = next_addr p, h_first = 1, h_len = k\<rparr>"
      define q where "q = write_mem (write_mem (p\<lparr>next_addr := Suc (next_addr p)\<rparr>) (next_addr p) 0
          [CHR 0x00]) (next_addr p) 1 (take (chunk_size - 1) data)"
      define r where "r = fill q (sp\<lparr>hs_chunks := cs @ [c, d]\<rparr>) (drop (chunk_size - 1) data)"
      have r: "fill p sp data = r"
        unfolding r_def by (rule fill_full [OF full ne less.prems(1)]) (simp_all add: d_def k_def q_def)
      have kpos: "0 < k" "k \<le> chunk_size - 1" "take (chunk_size - 1) data = take k data"
        using ne by (auto simp: k_def chunk_size_def min_def)
      have "fill_post q d (cs @ [c]) (hs_type sp) (drop (chunk_size - 1) data) (fst r) (snd r)"
        unfolding r_def
        using less.hyps [of "drop (chunk_size - 1) data"
            "sp\<lparr>hs_chunks := cs @ [c, d]\<rparr>" "cs @ [c]" d q] ne kpos(2)
        by (simp add: d_def q_def chunk_size_def)
      moreover have "min (chunk_size - (h_first d + h_len d)) (length (drop (chunk_size - 1) data)) = 0"
        by (auto simp: d_def k_def min_def)
      ultimately obtain more where post: "next_addr q \<le> next_addr (fst r)" "hs_type (snd r) = hs_type sp"
        "\<And>a. a < next_addr q \<Longrightarrow> a \<noteq> h_addr d \<Longrightarrow> mem (fst r) a = mem q a"
        "\<And>i. i < h_first d + h_len d \<Longrightarrow> mem (fst r) (h_addr d) i = mem q (h_addr d) i"
        "hs_chunks (snd r) = (cs @ [c]) @ d # more"
        "\<forall>x \<in> set more. next_addr q \<le> h_addr x \<and> chunk_ok (fst r) x"
        "map (abs_chunk (fst r)) more = more_chunks (drop (chunk_size - 1) data)"
        by (auto simp: fill_post_def Let_def)
      have nq: "next_addr q = Suc (next_addr p)" by (simp add: q_def)
      have hd: "header_at (fst r) (next_addr p) = No_Header"
        using post(4) [of 0] kpos(1) by (simp add: header_at_def d_def q_def write_mem_def)
      have rd: "chunk_bytes (fst r) d = take k data"
      proof -
        have "chunk_bytes (fst r) d = read_mem q (next_addr p) 1 k"
          unfolding chunk_bytes_def d_def hchunk.simps
          by (rule read_mem_cong) (use post(4) in \<open>simp add: d_def\<close>)
        also have "\<dots> = take k data"
          unfolding q_def kpos(3) by (rule read_write_same) (simp_all add: k_def)
        finally show ?thesis .
      qed
      have "map (abs_chunk (fst r)) (d # more) = more_chunks data"
        using ne hd rd post(7) kpos(3)
        by (subst more_chunks.simps) (simp add: abs_chunk_def d_def)
      moreover have "chunk_ok (fst r) d"
        using post(1) nq kpos(2) by (simp add: chunk_ok_def d_def chunk_size_def)
      moreover have "h_addr c \<noteq> next_addr p" using less.prems(2) by simp
      moreover have old: "mem (fst r) a = mem p a" if "a < next_addr p" for a
        using post(3) [of a] that nq by (simp add: d_def q_def)
      ultimately show ?thesis
        unfolding r fill_post_def Let_def
        using full post(1,2,5,6) nq less.prems(2)
        by (auto simp: d_def read_mem_def intro!: exI [of _ "d # more"])
    next
      case notfull: False
      define e where "e = h_first c + h_len c"
      define k where "k = min (chunk_size - e) (length data)"
      define c' where "c' = c\<lparr>h_len := h_len c + k\<rparr>"
      define q where "q = write_mem p (h_addr c) e (take k data)"
      define r where "r = fill q (sp\<lparr>hs_chunks := cs @ [c']\<rparr>) (drop k data)"
      have kpos: "0 < k" "k \<le> chunk_size - e" "e + k \<le> chunk_size" "k \<le> length data"
        using ne notfull less.prems(3) by (auto simp: k_def e_def)
      have r: "fill p sp data = r"
        using ne notfull kpos(1) less.prems(1) unfolding r_def q_def c'_def
        by (subst fill.simps) (simp add: Let_def k_def [unfolded e_def, symmetric] e_def)
      have "fill_post q c' cs (hs_type sp) (drop k data) (fst r) (snd r)"
        unfolding r_def
        using less.hyps [of "drop k data" "sp\<lparr>hs_chunks := cs @ [c']\<rparr>" cs c' q] ne kpos less.prems
        by (simp add: c'_def q_def e_def add.assoc)
      moreover have "min (chunk_size - (h_first c' + h_len c')) (length (drop k data)) = 0"
        by (auto simp: c'_def k_def e_def min_def)
      ultimately obtain more where post: "next_addr q \<le> next_addr (fst r)" "hs_type (snd r) = hs_type sp"
        "\<And>a. a < next_addr q \<Longrightarrow> a \<noteq> h_addr c' \<Longrightarrow> mem (fst r) a = mem q a"
        "\<And>i. i < h_first c' + h_len c' \<Longrightarrow> mem (fst r) (h_addr c') i = mem q (h_addr c') i"
        "hs_chunks (snd r) = cs @ c' # more"
        "\<forall>x \<in> set more. next_addr q \<le> h_addr x \<and> chunk_ok (fst r) x"
        "map (abs_chunk (fst r)) more = more_chunks (drop k data)"
        by (auto simp: fill_post_def Let_def)
      have "read_mem (fst r) (h_addr c) e k = read_mem q (h_addr c) e k"
        by (rule read_mem_cong) (use post(4) in \<open>simp add: c'_def e_def\<close>)
      also have "\<dots> = take k data"
        unfolding q_def by (rule read_write_same) (use kpos in auto)
      finally have "read_mem (fst r) (h_addr c) e k = take k data" .
      moreover have "mem (fst r) (h_addr c) i = mem p (h_addr c) i" if "i < e" for i
        using post(4) [of i] that by (simp add: c'_def q_def e_def)
      moreover have "mem (fst r) a = mem p a" if "a < next_addr p" "a \<noteq> h_addr c" for a
        using post(3) [of a] that by (simp add: c'_def q_def)
      ultimately show ?thesis
        unfolding r fill_post_def Let_def e_def [symmetric] k_def [symmetric] c'_def [symmetric]
        using post by (auto simp: q_def)
    qed
  qed
qed

lemma unat_u16 [simp]: "unat (w :: u16) < 65536"
  using unsigned_less [of w] by simp

lemma unat_u8 [simp]: "unat (w :: u8) < 256"
  using unsigned_less [of w] by simp

lemma le_bytes_two: "le_bytes 2 n = [char_of n, char_of (n div 256)]"
  by (simp add: numeral_2_eq_2)

lemma read_mem_two: "read_mem p a i 2 = [mem p a i, mem p a (i + 1)]"
  by (simp add: read_mem_def upt_rec)

lemma header_at_header_bytes:
  assumes "\<And>i. i < header_size h \<Longrightarrow> mem p a i = header_bytes h ! i"
  shows "header_at p a = h"
proof (cases h)
  case No_Header
  then show ?thesis using assms [of 0] by (simp add: header_at_def)
next
  case (Signal_Header s r)
  have "read_mem p a 2 2 = le_bytes 2 (unat r)"
    using assms [of 2] assms [of 3] by (simp add: Signal_Header read_mem_two le_bytes_two)
  then show ?thesis
    using assms [of 0] assms [of 1] Signal_Header
    by (simp add: header_at_def)
next
  case (Payload_Header s r d)
  have b: "mem p a i = header_bytes h ! i" if "i < 6" for i
    using assms [of i] that by (simp add: Payload_Header)
  have "read_mem p a 2 2 = le_bytes 2 (unat r)" "read_mem p a 4 2 = le_bytes 2 (unat d)"
    using b [of 2] b [of 3] b [of 4] b [of 5]
    by (simp_all add: Payload_Header read_mem_two le_bytes_two)
  then show ?thesis
    using b [of 0] b [of 1] Payload_Header
    by (simp add: header_at_def)
qed

lemma span_of_data_abs:
  assumes "span_of_data p h data = (q, s)"
  shows "abs_span q s = vs_of_data h data" and "extends p q" and "span_ok q s"
    and "\<forall>c \<in> set (hs_chunks s). next_addr p \<le> h_addr c"
proof -
  define c where "c = \<lparr>h_addr = next_addr p, h_first = header_size h, h_len = 0\<rparr>"
  define p1 where "p1 = write_mem (p\<lparr>next_addr := Suc (next_addr p)\<rparr>) (next_addr p) 0 (header_bytes h)"
  define k where "k = min (chunk_size - header_size h) (length data)"
  have le: "header_size h \<le> chunk_size"
    using header_size_le [of h] unfolding chunk_size_def by linarith
  have "fill p1 \<lparr>hs_chunks = [c], hs_type = header_type h\<rparr> data = (q, s)"
    using assms by (simp add: span_of_data_def append_chunk_with_signal_def Let_def p1_def c_def)
  then have "fill_post p1 c [] (header_type h) data q s"
    using fill_post_holds [of "\<lparr>hs_chunks = [c], hs_type = header_type h\<rparr>" "[]" c p1 data] le
    by (simp add: c_def p1_def)
  then obtain more where post: "Suc (next_addr p) \<le> next_addr q" "hs_type s = header_type h"
    "\<And>a. a < next_addr p1 \<Longrightarrow> a \<noteq> next_addr p \<Longrightarrow> mem q a = mem p1 a"
    "\<And>i. i < header_size h \<Longrightarrow> mem q (next_addr p) i = mem p1 (next_addr p) i"
    "read_mem q (next_addr p) (header_size h) k = take k data"
    "hs_chunks s = c\<lparr>h_len := k\<rparr> # more"
    "\<forall>x \<in> set more. next_addr p1 \<le> h_addr x \<and> chunk_ok q x"
    "map (abs_chunk q) more = more_chunks (drop k data)"
    by (auto simp: fill_post_def Let_def c_def k_def p1_def)
  have "header_at q (next_addr p) = h"
    by (rule header_at_header_bytes) (simp add: post(4) p1_def write_mem_def)
  moreover have "take k data = take (chunk_size - header_size h) data"
    and "drop k data = drop (chunk_size - header_size h) data"
    by (auto simp: k_def min_def)
  ultimately show "abs_span q s = vs_of_data h data"
    using post(2,5,6,8)
    by (simp add: abs_span_def vs_of_data_def abs_chunk_def chunk_bytes_def c_def)
  show "extends p q"
    using post(1) post(3) by (auto simp: extends_def p1_def)
  show "span_ok q s"
    using post(1,6,7) le by (auto simp: span_ok_def chunk_ok_def c_def k_def)
  show "\<forall>c \<in> set (hs_chunks s). next_addr p \<le> h_addr c"
    using post(6,7) by (auto simp: c_def p1_def)
qed

lemma flatten_chunks_abs:
  "flatten_chunks p h cs = (q, ss) \<Longrightarrow> \<forall>c \<in> set cs. chunk_ok p c \<Longrightarrow>
     extends p q \<and> (\<forall>s \<in> set ss. span_ok q s) \<and>
     map (abs_span q) ss = map (\<lambda>c. vs_of_data (set_data_length h (h_len c)) (chunk_bytes p c)) cs"
proof (induction cs arbitrary: p q ss)
  case Nil
  then show ?case by simp
next
  case (Cons c cs)
  obtain p1 s where s: "span_of_data p (set_data_length h (h_len c)) (chunk_bytes p c) = (p1, s)"
    by fastforce
  obtain ss' where rest: "flatten_chunks p1 h cs = (q, ss')" and ss: "ss = s # ss'"
    using Cons.prems(1) s by (auto simp: Let_def split: prod.splits)
  note new = span_of_data_abs [OF s]
  have ok: "\<forall>c \<in> set cs. chunk_ok p1 c" and same: "\<forall>c \<in> set cs. abs_chunk p1 c = abs_chunk p c"
    using Cons.prems(2) extends_chunk [OF new(2)] by auto
  have "chunk_bytes p1 d = chunk_bytes p d" if "d \<in> set cs" for d
    using same that by (metis abs_chunk_def vchunk.ext_inject)
  with Cons.IH [OF rest ok] new extends_span [of p1 q s] show ?case
    by (auto simp: ss intro: extends_trans)
qed

lemma abs_span_flatten:
  assumes "flatten_with_signal p s h = (q, ss)" and "span_ok p s"
  shows "map (abs_span q) ss = vs_flatten h (abs_span p s)" and "extends p q"
  using flatten_chunks_abs [of p h "hs_chunks s" q ss] assms
  by (auto simp: flatten_with_signal_def span_ok_def vs_flatten_def abs_span_def abs_chunk_def comp_def)

end
