(* ===== verification/Span_Access.thy ===== *)
theory Span_Access
  imports Span_Values
begin

text \<open>
  Reading and writing through a span: the typed copies \<open>pod_from_chunk\<close> and \<open>copy_type\<close>, the byte
  iterators, the header accessors, and the assembly of a span from bytes as they arrive from the
  wire (\<open>create_from_data\<close>, \<open>expand_use\<close>). All of \<open>shared_chunk.h\<close>. A write that throws half way has
  changed the pool already, so the writers return the pool beside the result.
\<close>

section \<open>Typed copies\<close>

function pod_loop :: "pool \<Rightarrow> hchunk list \<Rightarrow> nat \<Rightarrow> nat \<Rightarrow> nat \<Rightarrow> byte list result" where
  "pod_loop p cs k off i =
     (if k = 0 then Inr []
      else if length cs \<le> i then Inl (Invalid_Argument ''Not enough chunks to copy the data type'')
      else
        let c = cs ! i; n = min k (sz_sub (h_len c + h_first c) off) in
        if chunk_size < off + n then Inl Undefined_Behaviour
        else if n = k then
          (if off + n \<le> h_len c + h_first c \<or> Suc i < length cs
           then Inr (read_mem p (h_addr c) off n) else Inl Out_Of_Range)
        else if Suc i < length cs then
          rbind (pod_loop p cs (k - n) (h_first (cs ! Suc i)) (Suc i))
            (\<lambda>r. Inr (read_mem p (h_addr c) off n @ r))
        else Inl Out_Of_Range)"
  by pat_completeness auto
termination
  by (relation "measure (\<lambda>(p, cs, k, off, i). length cs - i)") auto

declare pod_loop.simps [simp del]

definition pod_from_chunk ::
  "pool \<Rightarrow> hchunk list \<Rightarrow> nat \<Rightarrow> (nat \<times> nat) option \<Rightarrow> byte list result" where
  "pod_from_chunk p cs w start =
     (case start of
        None \<Rightarrow> (if cs = [] then Inl Undefined_Behaviour else pod_loop p cs w (h_first (cs ! 0)) 0)
      | Some (off, i) \<Rightarrow> pod_loop p cs w off i)"

text \<open>\<open>at\<close>.\<close>

definition span_at :: "pool \<Rightarrow> hspan \<Rightarrow> nat \<Rightarrow> (nat \<times> nat) option \<Rightarrow> byte list result" where
  "span_at p s w start = pod_from_chunk p (hs_chunks s) w start"

definition signal_size :: "u8 \<Rightarrow> nat result" where
  "signal_size t = (if t = 0 then Inr 1 else if t = 1 then Inr 4 else if t = 2 then Inr 6
     else Inl (Invalid_Argument ''Unknown signal type''))"

definition get_signal_size :: "hspan \<Rightarrow> nat result" where
  "get_signal_size s = (if hs_chunks s = [] then Inr 0 else signal_size (hs_type s))"

function copy_loop ::
  "u8 \<Rightarrow> hchunk list \<Rightarrow> pool \<Rightarrow> byte list \<Rightarrow> nat \<Rightarrow> nat \<Rightarrow> pool \<times> (nat \<times> nat) result" where
  "copy_loop t cs p data off i =
     (if data = [] then (p, Inr (off, i))
      else if length cs \<le> i
      then (p, Inl (Invalid_Argument ''Not enough chunks to copy the data type''))
      else
        let c = cs ! i; n = min (length data) (sz_sub (h_len c + h_first c) off) in
        if chunk_size < off + n then (p, Inl Undefined_Behaviour)
        else
          let q = write_mem p (h_addr c) off (take n data) in
          if n = length data then
            (if off + n < chunk_size then (q, Inr (off + n, i))
             else if Suc i = length cs then (q, rbind (signal_size t) (\<lambda>z. Inr (z, Suc i)))
             else (q, Inr (h_first (cs ! Suc i) + n, Suc i)))
          else copy_loop t cs q (drop n data)
                 (if Suc i < length cs then h_first (cs ! Suc i) else off) (Suc i))"
  by pat_completeness auto
termination
  by (relation "measure (\<lambda>(t, cs, p, data, off, i). length cs - i)") auto

declare copy_loop.simps [simp del]

definition copy_type ::
  "pool \<Rightarrow> hspan \<Rightarrow> byte list \<Rightarrow> (nat \<times> nat) option \<Rightarrow> pool \<times> (nat \<times> nat) result" where
  "copy_type p s data start =
     (case start of
        None \<Rightarrow> (if hs_chunks s = [] then (p, Inl Undefined_Behaviour)
                 else copy_loop (hs_type s) (hs_chunks s) p data (h_first (hs_chunks s ! 0)) 0)
      | Some (off, i) \<Rightarrow> copy_loop (hs_type s) (hs_chunks s) p data off i)"

text \<open>
  \<open>copy_span\<close>: element by element from a position; the position starts at (0, 0) when none is
  given and there is no element.
\<close>

fun copy_span ::
  "pool \<Rightarrow> hspan \<Rightarrow> byte list list \<Rightarrow> (nat \<times> nat) option \<Rightarrow> pool \<times> (nat \<times> nat) result" where
  "copy_span p s [] start = (p, Inr (case start of None \<Rightarrow> (0, 0) | Some x \<Rightarrow> x))"
| "copy_span p s (d # ds) start =
     (case copy_type p s d start of
        (q, Inl e) \<Rightarrow> (q, Inl e)
      | (q, Inr pos) \<Rightarrow> copy_span q s ds (Some pos))"

definition span_restrict_upto :: "hspan \<Rightarrow> nat \<times> nat \<Rightarrow> hspan result" where
  "span_restrict_upto s pos =
     rbind (get_signal_size s) (\<lambda>z.
       Inr (span_restrict s 0
         (sz_sub (sz_add (sz_sub (fst pos) z) (snd pos * chunk_size)) (z * snd pos))))"

section \<open>Headers of a span\<close>

definition get_wire_size :: "pool \<Rightarrow> hspan \<Rightarrow> nat result" where
  "get_wire_size p s =
     (case hs_chunks s of [] \<Rightarrow> Inr 0
      | c # _ \<Rightarrow>
         if hs_type s = 0 then Inl (Invalid_Argument ''No chunk header should not exist on the wire.'')
         else if hs_type s = 1 then
           (if h_first c < 4 then Inr (h_first c) else Inr 4)
         else if hs_type s = 2 then
           (if h_first c < 6 then Inr (h_first c)
            else Inr (6 + un_le (read_mem p (h_addr c) 4 2)))
         else Inl (Invalid_Argument ''Wire size of signal not implemented.''))"

definition get_signal_signal :: "pool \<Rightarrow> hspan \<Rightarrow> u8 result" where
  "get_signal_signal p s =
     (case hs_chunks s of [] \<Rightarrow> Inl (Invalid_Argument ''No signal in the shared_span'')
      | c # _ \<Rightarrow>
         if hs_type s = 0 then Inl (Invalid_Argument ''Global signal does not have a signal value'')
         else if hs_type s = 1 \<or> hs_type s = 2 then
           Inr (of_nat (of_char (mem p (h_addr c) 1)))
         else Inl (Invalid_Argument ''Unknown signal type''))"

definition get_request_id :: "pool \<Rightarrow> hspan \<Rightarrow> u16 result" where
  "get_request_id p s =
     (case hs_chunks s of [] \<Rightarrow> Inl (Invalid_Argument ''No request id in empty shared_span'')
      | c # _ \<Rightarrow>
         if hs_type s = 0 then Inl (Invalid_Argument ''Empty chunk header does not have request id.'')
         else if hs_type s = 1 \<or> hs_type s = 2 then
           Inr (of_nat (un_le (read_mem p (h_addr c) 2 2)))
         else Inl (Invalid_Argument ''Could not decode request id, signal_type unknown.''))"

definition set_signal_signal :: "pool \<Rightarrow> hspan \<Rightarrow> u8 \<Rightarrow> pool result" where
  "set_signal_signal p s sg =
     (case hs_chunks s of [] \<Rightarrow> Inl (Invalid_Argument ''No signal in the shared_span'')
      | c # _ \<Rightarrow>
         if hs_type s = 0 then Inl (Invalid_Argument ''No chunk header should not exist on the wire.'')
         else if hs_type s = 1 \<or> hs_type s = 2 then
           Inr (write_mem p (h_addr c) 1 [char_of (unat sg)])
         else Inl (Invalid_Argument ''Unknown signal type''))"

definition set_request_id :: "pool \<Rightarrow> hspan \<Rightarrow> u16 \<Rightarrow> pool result" where
  "set_request_id p s r =
     (case hs_chunks s of [] \<Rightarrow> Inl (Invalid_Argument ''No request id in empty shared_span'')
      | c # _ \<Rightarrow>
         if hs_type s = 0 then Inl (Invalid_Argument ''Empty chunk header does not have request id.'')
         else if hs_type s = 1 \<or> hs_type s = 2 then
           Inr (write_mem p (h_addr c) 2 (le_bytes 2 (unat r)))
         else Inl (Invalid_Argument ''Could not decode request id, signal_type unknown.''))"

definition use_chunk_size :: "hspan \<Rightarrow> nat result" where
  "use_chunk_size s =
     (if length (hs_chunks s) \<noteq> 1
      then Inl (Invalid_Argument ''use_chunk_size can only be called on a shared_span with one chunk'')
      else rbind (get_signal_size s) (\<lambda>z. Inr (h_len (hs_chunks s ! 0) + z)))"

section \<open>Assembling a span from the wire\<close>

text \<open>\<open>copy_partial_data\<close> over a default-constructed header, then the header struct it gives.\<close>

definition header_of_bytes :: "byte list \<Rightarrow> header" where
  "header_of_bytes bs =
     (if bs ! 0 = CHR 0x01 then
        Signal_Header (of_nat (of_char (bs ! 1))) (of_nat (un_le (take 2 (drop 2 bs))))
      else if bs ! 0 = CHR 0x02 then
        Payload_Header (of_nat (of_char (bs ! 1))) (of_nat (un_le (take 2 (drop 2 bs))))
          (of_nat (un_le (take 2 (drop 4 bs))))
      else No_Header)"

definition partial_header :: "header \<Rightarrow> byte list \<Rightarrow> header" where
  "partial_header dflt bs = header_of_bytes (bs @ drop (length bs) (header_bytes dflt))"

definition with_header :: "pool \<Rightarrow> header \<Rightarrow> byte list \<Rightarrow> pool \<times> hspan" where
  "with_header p dflt data =
     (let n = header_size dflt in
      if n \<le> length data then span_of_data p (partial_header dflt (take n data)) (drop n data)
      else
        (case span_of_data p (partial_header dflt data) [] of
           (q, s) \<Rightarrow>
             (q, s\<lparr>hs_chunks := butlast (hs_chunks s) @
                     [(last (hs_chunks s))\<lparr>h_first := length data\<rparr>]\<rparr>)))"

definition create_from_data :: "pool \<Rightarrow> byte list \<Rightarrow> (pool \<times> hspan) result" where
  "create_from_data p data =
     (if data = [] then Inl Undefined_Behaviour
      else if data ! 0 = CHR 0x00 then Inr (span_of_data p No_Header (drop 1 data))
      else if data ! 0 = CHR 0x01 then Inr (with_header p (Signal_Header 0 0) data)
      else if data ! 0 = CHR 0x02 then Inr (with_header p (Payload_Header 0 0 0) data)
      else Inl (Invalid_Argument ''Unknown signal type''))"

definition expand_use :: "hspan \<Rightarrow> nat \<Rightarrow> (hspan \<times> (nat \<times> nat)) result" where
  "expand_use s sz =
     (if hs_chunks s = [] then Inl (Invalid_Argument ''Cannot expand use on empty shared_span'')
      else
        let c = last (hs_chunks s); i = length (hs_chunks s) - 1 in
        if chunk_size - h_first c - h_len c < sz
        then Inl (Invalid_Argument ''Not enough space in the last chunk to expand use'')
        else rbind (get_signal_size s) (\<lambda>z.
          if h_first c < z then
            (let more = min (z - h_first c) sz in
             Inr (s\<lparr>hs_chunks := butlast (hs_chunks s) @
                      [c\<lparr>h_first := h_first c + more, h_len := h_len c + (sz - more)\<rparr>]\<rparr>,
                  (h_first c, i)))
          else
            Inr (s\<lparr>hs_chunks := butlast (hs_chunks s) @ [c\<lparr>h_len := h_len c + sz\<rparr>]\<rparr>,
                 (h_len c + h_first c, i))))"

section \<open>Iterators\<close>

text \<open>An iterator is a chunk index and an offset in that chunk; the end is (number of chunks, 0).\<close>

function skip_empty :: "hchunk list \<Rightarrow> nat \<Rightarrow> nat" where
  "skip_empty cs i = (if i < length cs \<and> h_len (cs ! i) = 0 then skip_empty cs (Suc i) else i)"
  by pat_completeness auto
termination
  by (relation "measure (\<lambda>(cs, i). length cs - i)") auto

declare skip_empty.simps [simp del]

definition iter_at :: "hchunk list \<Rightarrow> nat \<Rightarrow> nat \<times> nat" where
  "iter_at cs i = (if i < length cs then (i, h_first (cs ! i)) else (length cs, 0))"

definition iter_begin :: "hchunk list \<Rightarrow> nat \<times> nat" where
  "iter_begin cs = iter_at cs (skip_empty cs 0)"

function iter_skip :: "hchunk list \<Rightarrow> nat \<Rightarrow> nat \<Rightarrow> nat \<Rightarrow> (nat \<times> nat) result" where
  "iter_skip cs k i j =
     (if length cs \<le> i then Inl Undefined_Behaviour
      else
        let space = h_first (cs ! i) + h_len (cs ! i) - j in
        if k \<le> space then
          (if j + k = h_first (cs ! i) + h_len (cs ! i)
           then Inr (iter_at cs (skip_empty cs (Suc i))) else Inr (i, j + k))
        else
          let i' = skip_empty cs (Suc i) in
          if length cs \<le> i'
          then Inl (Invalid_Argument ''PODType extends past the end of the span, but not enough bytes to complete the PODType'')
          else if i' \<le> i then Inl Undefined_Behaviour
          else iter_skip cs (k - space) i' (h_first (cs ! i')))"
  by pat_completeness auto
termination
  by (relation "measure (\<lambda>(cs, k, i, j). length cs - i)") auto

declare iter_skip.simps [simp del]

text \<open>\<open>operator++\<close> for elements of \<open>w\<close> bytes; the end stays the end.\<close>

definition iter_next :: "hchunk list \<Rightarrow> nat \<Rightarrow> nat \<times> nat \<Rightarrow> (nat \<times> nat) result" where
  "iter_next cs w it =
     (if fst it = length cs then Inr (length cs, 0) else iter_skip cs w (fst it) (snd it))"

text \<open>\<open>operator*\<close> of the non-const iterator: an element may not cross into the next chunk.\<close>

definition iter_deref :: "pool \<Rightarrow> hchunk list \<Rightarrow> nat \<Rightarrow> nat \<times> nat \<Rightarrow> byte list result" where
  "iter_deref p cs w it =
     (if length cs \<le> fst it then Inl Undefined_Behaviour
      else if h_first (cs ! fst it) + h_len (cs ! fst it) < snd it + w
      then Inl (Invalid_Argument ''PODType extends past the end of the span'')
      else Inr (read_mem p (h_addr (cs ! fst it)) (snd it) w))"

text \<open>
  \<open>iterator::set\<close>: the write goes through a new span that starts at the iterator's chunk, but at a
  position whose chunk index is still the index in the old span.
\<close>

definition iter_set :: "pool \<Rightarrow> hchunk list \<Rightarrow> nat \<times> nat \<Rightarrow> byte list \<Rightarrow> pool \<times> unit result" where
  "iter_set p cs it v =
     (case drop (fst it) cs of
        [] \<Rightarrow> (p, Inl Undefined_Behaviour)
      | c # ds \<Rightarrow>
          (case copy_type p \<lparr>hs_chunks = c # ds, hs_type = of_nat (of_char (mem p (h_addr c) 0))\<rparr>
                  v (Some (snd it, fst it)) of
             (q, Inl e) \<Rightarrow> (q, Inl e) | (q, Inr _) \<Rightarrow> (q, Inr ())))"

text \<open>Byte iteration from \<open>begin\<close> to \<open>end\<close>, with a bound on the number of steps.\<close>

fun iter_collect :: "pool \<Rightarrow> hchunk list \<Rightarrow> nat \<Rightarrow> nat \<times> nat \<Rightarrow> byte list result" where
  "iter_collect p cs 0 it = (if it = (length cs, 0) then Inr [] else Inl Undefined_Behaviour)"
| "iter_collect p cs (Suc n) it =
     (if it = (length cs, 0) then Inr []
      else rbind (iter_deref p cs 1 it) (\<lambda>b.
             rbind (iter_next cs 1 it) (\<lambda>it'.
               rbind (iter_collect p cs n it') (\<lambda>bs. Inr (b @ bs)))))"

text \<open>
  \<open>copy_from_span\<close>: the loop never moves to the next chunk, so it writes every piece of the data
  at the start of the first chunk, and does not end when that chunk is empty.
\<close>

partial_function (option) copy_from_loop ::
  "pool \<Rightarrow> hspan \<Rightarrow> byte list \<Rightarrow> nat \<Rightarrow> (pool \<times> nat) option" where
  "copy_from_loop p s data off =
     (if off < length data then
        (case hs_chunks s of [] \<Rightarrow> Some (p, off)
         | c # cs \<Rightarrow>
             copy_from_loop
               (write_mem p (h_addr c) (h_first c) (take (min (h_len c) (length data - off)) (drop off data)))
               s data (off + min (h_len c) (length data - off)))
      else Some (p, off))"

definition copy_from_span :: "pool \<Rightarrow> hspan \<Rightarrow> byte list \<Rightarrow> (pool \<times> nat) option" where
  "copy_from_span p s data = copy_from_loop p s data 0"

section \<open>What the accesses do\<close>

text \<open>The bytes of the chunks from index \<open>i\<close> on.\<close>

definition tail_bytes :: "pool \<Rightarrow> hchunk list \<Rightarrow> nat \<Rightarrow> byte list" where
  "tail_bytes p cs i = concat (map (chunk_bytes p) (drop i cs))"

lemma tail_bytes_step:
  "i < length cs \<Longrightarrow> tail_bytes p cs i = chunk_bytes p (cs ! i) @ tail_bytes p cs (Suc i)"
  by (simp add: tail_bytes_def Cons_nth_drop_Suc [symmetric])

lemma tail_bytes_end [simp]: "length cs \<le> i \<Longrightarrow> tail_bytes p cs i = []"
  by (simp add: tail_bytes_def)

lemma tail_bytes_0: "tail_bytes p (hs_chunks s) 0 = span_bytes p s"
  by (simp add: tail_bytes_def span_bytes_def)

definition chunks_fit :: "hchunk list \<Rightarrow> bool" where
  "chunks_fit cs \<longleftrightarrow> (\<forall>c \<in> set cs. h_first c + h_len c \<le> chunk_size)"

lemma span_ok_fit: "span_ok p s \<Longrightarrow> chunks_fit (hs_chunks s)"
  by (auto simp: span_ok_def chunk_ok_def chunks_fit_def)

lemma chunks_fit_nth: "chunks_fit cs \<Longrightarrow> i < length cs \<Longrightarrow> h_first (cs ! i) + h_len (cs ! i) \<le> chunk_size"
  by (auto simp: chunks_fit_def)

lemma take_chunk_bytes:
  "n \<le> h_len c \<Longrightarrow> read_mem p (h_addr c) (h_first c) n = take n (chunk_bytes p c)"
  by (simp add: read_mem_def chunk_bytes_def take_map)

text \<open>A typed read returns the next bytes of the span, and \<open>out_of_range\<close> when there are too few.\<close>

lemma pod_loop_reads:
  assumes "chunks_fit cs" and "i < length cs" and "0 < k"
  shows "pod_loop p cs k (h_first (cs ! i)) i =
    (if k \<le> length (tail_bytes p cs i) then Inr (take k (tail_bytes p cs i)) else Inl Out_Of_Range)"
  using assms
proof (induction "length cs - i" arbitrary: k i)
  case 0
  then show ?case by simp
next
  case (Suc m)
  define c where "c = cs ! i"
  note step = tail_bytes_step [OF Suc.prems(2), of p, folded c_def]
  have fit: "h_first c + h_len c \<le> chunk_size"
    using chunks_fit_nth [OF Suc.prems(1,2)] by (simp add: c_def)
  have sub: "sz_sub (h_len c + h_first c) (h_first c) = h_len c" by simp
  show ?case
  proof (cases "k \<le> h_len c")
    case True
    then have "pod_loop p cs k (h_first c) i = Inr (read_mem p (h_addr c) (h_first c) k)"
      using Suc.prems fit by (subst pod_loop.simps) (simp add: c_def [symmetric] Let_def sub min_def)
    then show ?thesis
      using True by (simp add: c_def [symmetric] step take_chunk_bytes)
  next
    case False
    show ?thesis
    proof (cases "Suc i < length cs")
      case True
      have "pod_loop p cs k (h_first c) i =
          rbind (pod_loop p cs (k - h_len c) (h_first (cs ! Suc i)) (Suc i))
            (\<lambda>r. Inr (chunk_bytes p c @ r))"
        using Suc.prems False fit True
        by (subst pod_loop.simps) (simp add: c_def [symmetric] Let_def sub min_def chunk_bytes_def)
      moreover have "pod_loop p cs (k - h_len c) (h_first (cs ! Suc i)) (Suc i) =
          (if k - h_len c \<le> length (tail_bytes p cs (Suc i))
           then Inr (take (k - h_len c) (tail_bytes p cs (Suc i))) else Inl Out_Of_Range)"
        using Suc.hyps(1) [of "Suc i" "k - h_len c"] Suc.hyps(2) Suc.prems(1) True False by simp
      ultimately show ?thesis
        using False by (simp add: c_def [symmetric] step) linarith
    next
      case fin: False
      have "pod_loop p cs k (h_first c) i = Inl Out_Of_Range"
        using Suc.prems False fit fin
        by (subst pod_loop.simps) (simp add: c_def [symmetric] Let_def sub min_def)
      moreover have "tail_bytes p cs (Suc i) = []" using fin by simp
      ultimately show ?thesis
        using False by (simp add: c_def [symmetric] step)
    qed
  qed
qed

lemma span_at_reads:
  assumes "span_ok p s" and "hs_chunks s \<noteq> []" and "0 < w"
  shows "span_at p s w None =
    (if w \<le> span_size s then Inr (take w (span_bytes p s)) else Inl Out_Of_Range)"
proof -
  have "length (span_bytes p s) = span_size s"
    by (metis abs_span_bytes abs_span_size vs_size_bytes)
  then show ?thesis
    using pod_loop_reads [OF span_ok_fit [OF assms(1)], of 0 w p] assms(2,3)
    by (simp add: span_at_def pod_from_chunk_def tail_bytes_0)
qed

text \<open>A write replaces the first bytes of the span, when its chunks are different chunks.\<close>

definition addrs :: "hchunk list \<Rightarrow> nat list" where
  "addrs cs = map h_addr cs"

lemma chunk_bytes_write_other:
  "h_addr c \<noteq> a \<Longrightarrow> chunk_bytes (write_mem p a off bs) c = chunk_bytes p c"
  by (simp add: chunk_bytes_def read_mem_def)

lemma chunk_bytes_write_prefix:
  assumes "length bs \<le> h_len c"
  shows "chunk_bytes (write_mem p (h_addr c) (h_first c) bs) c = bs @ drop (length bs) (chunk_bytes p c)"
  using assms by (intro nth_equalityI) (auto simp: chunk_bytes_def read_mem_def write_mem_def nth_append)

lemma copy_loop_frame:
  "a \<notin> h_addr ` set (drop i cs) \<Longrightarrow> mem (fst (copy_loop t cs p data off i)) a = mem p a"
proof (induction t cs p data off i rule: copy_loop.induct)
  case (1 t cs p data off i)
  show ?case
  proof (cases "data = [] \<or> length cs \<le> i")
    case True
    then show ?thesis by (subst copy_loop.simps) auto
  next
    case False
    define c where "c = cs ! i"
    define n where "n = min (length data) (sz_sub (h_len c + h_first c) off)"
    have dr: "drop i cs = c # drop (Suc i) cs"
      using False by (simp add: c_def Cons_nth_drop_Suc)
    show ?thesis
    proof (cases "chunk_size < off + n \<or> n = length data")
      case True
      then show ?thesis
        using False "1.prems" dr
        by (subst copy_loop.simps) (auto simp: c_def [symmetric] n_def [symmetric] Let_def)
    next
      case go: False
      have "mem (fst (copy_loop t cs (write_mem p (h_addr c) off (take n data)) (drop n data)
              (if Suc i < length cs then h_first (cs ! Suc i) else off) (Suc i))) a =
            mem (write_mem p (h_addr c) off (take n data)) a"
        by (rule "1.IH") (use False go "1.prems" dr c_def n_def in auto)
      then show ?thesis
        using False go "1.prems" dr
        by (subst copy_loop.simps) (simp add: c_def [symmetric] n_def [symmetric] Let_def)
    qed
  qed
qed

lemma copy_loop_writes:
  assumes "chunks_fit cs" and "distinct (addrs cs)" and "t \<in> {0, 1, 2}"
    and "i < length cs" and "data \<noteq> []"
  shows "if length data \<le> length (tail_bytes p cs i) then
      (\<exists>q pos. copy_loop t cs p data (h_first (cs ! i)) i = (q, Inr pos) \<and>
         tail_bytes q cs i = data @ drop (length data) (tail_bytes p cs i))
    else \<exists>q m. copy_loop t cs p data (h_first (cs ! i)) i = (q, Inl (Invalid_Argument m))"
  using assms(4,5)
proof (induction "length cs - i" arbitrary: data i p)
  case 0
  then show ?case by simp
next
  case (Suc m)
  define c where "c = cs ! i"
  note step = tail_bytes_step [OF Suc.prems(1), folded c_def]
  have fit: "h_first c + h_len c \<le> chunk_size"
    using chunks_fit_nth [OF assms(1) Suc.prems(1)] by (simp add: c_def)
  have sub: "sz_sub (h_len c + h_first c) (h_first c) = h_len c" by simp
  have other: "h_addr d \<noteq> h_addr c" if "d \<in> set (drop (Suc i) cs)" for d
    using assms(2) Suc.prems(1) that
    by (metis addrs_def c_def distinct.simps(2) drop_map id_take_nth_drop distinct_append
        list.simps(9) map_append in_set_conv_nth image_eqI list.set_map nth_map)
  have tail_same: "tail_bytes (write_mem p (h_addr c) off bs) cs (Suc i) = tail_bytes p cs (Suc i)" for off bs
    using other by (auto simp: tail_bytes_def intro!: arg_cong [of _ _ concat] chunk_bytes_write_other)
  show ?case
  proof (cases "length data \<le> h_len c")
    case True
    define q where "q = write_mem p (h_addr c) (h_first c) data"
    have "\<exists>pos. copy_loop t cs p data (h_first c) i = (q, Inr pos)"
      using Suc.prems True fit assms(3)
      by (subst copy_loop.simps)
        (auto simp: c_def [symmetric] Let_def sub min_def q_def signal_size_def)
    moreover have "tail_bytes q cs i = data @ drop (length data) (tail_bytes p cs i)"
      using True by (simp add: step q_def tail_same chunk_bytes_write_prefix)
    ultimately show ?thesis
      using True by (auto simp: c_def [symmetric] step)
  next
    case False
    define q where "q = write_mem p (h_addr c) (h_first c) (take (h_len c) data)"
    have eq: "copy_loop t cs p data (h_first c) i = copy_loop t cs q (drop (h_len c) data)
        (if Suc i < length cs then h_first (cs ! Suc i) else h_first c) (Suc i)"
      using Suc.prems False fit
      by (subst copy_loop.simps) (simp add: c_def [symmetric] Let_def sub min_def q_def)
    have qc: "chunk_bytes q c = take (h_len c) data"
      using False by (simp add: q_def chunk_bytes_write_prefix)
    show ?thesis
    proof (cases "Suc i < length cs")
      case True
      have ne: "drop (h_len c) data \<noteq> []" using False by simp
      have qt: "tail_bytes q cs (Suc i) = tail_bytes p cs (Suc i)" by (simp add: q_def tail_same)
      have ih: "if length (drop (h_len c) data) \<le> length (tail_bytes q cs (Suc i)) then
          (\<exists>q' pos. copy_loop t cs q (drop (h_len c) data) (h_first (cs ! Suc i)) (Suc i) = (q', Inr pos) \<and>
             tail_bytes q' cs (Suc i) = drop (h_len c) data @
               drop (length (drop (h_len c) data)) (tail_bytes q cs (Suc i)))
        else \<exists>q' m. copy_loop t cs q (drop (h_len c) data) (h_first (cs ! Suc i)) (Suc i) =
               (q', Inl (Invalid_Argument m))"
        by (rule Suc.hyps(1)) (use Suc.hyps(2) True ne in auto)
      have "h_addr c \<notin> h_addr ` set (drop (Suc i) cs)" using other by force
      then have keep: "mem (fst (copy_loop t cs q (drop (h_len c) data) (h_first (cs ! Suc i)) (Suc i))) (h_addr c)
          = mem q (h_addr c)"
        by (rule copy_loop_frame)
      show ?thesis
      proof (cases "length data - h_len c \<le> length (tail_bytes p cs (Suc i))")
        case yes: True
        then obtain q' pos where q': "copy_loop t cs q (drop (h_len c) data) (h_first (cs ! Suc i)) (Suc i) = (q', Inr pos)"
          and tb: "tail_bytes q' cs (Suc i) = drop (h_len c) data @
               drop (length data - h_len c) (tail_bytes p cs (Suc i))"
          using ih qt by auto
        have "chunk_bytes q' c = take (h_len c) data"
          using keep q' qc by (simp add: chunk_bytes_def read_mem_def)
        then have "tail_bytes q' cs i = data @ drop (length data) (tail_bytes p cs i)"
          using tb False by (simp add: step)
        then show ?thesis
          using yes False True q' by (auto simp: eq c_def [symmetric] step)
      next
        case no: False
        then show ?thesis
          using ih False True by (auto simp: qt eq c_def [symmetric] step)
      qed
    next
      case fin: False
      have "copy_loop t cs q (drop (h_len c) data) (h_first c) (Suc i) =
          (q, Inl (Invalid_Argument ''Not enough chunks to copy the data type''))"
        using fin False by (subst copy_loop.simps) simp
      moreover have "tail_bytes p cs (Suc i) = []" using fin by simp
      ultimately show ?thesis
        using fin False by (auto simp: eq c_def [symmetric] step)
    qed
  qed
qed

text \<open>Byte iteration visits exactly the bytes of the span.\<close>

lemma skip_empty_ge: "i \<le> skip_empty cs i"
proof (induction cs i rule: skip_empty.induct)
  case (1 cs i)
  then show ?case by (subst skip_empty.simps) auto
qed

lemma skip_empty_le: "i \<le> length cs \<Longrightarrow> skip_empty cs i \<le> length cs"
proof (induction cs i rule: skip_empty.induct)
  case (1 cs i)
  then show ?case by (subst skip_empty.simps) auto
qed

lemma skip_empty_nonempty: "skip_empty cs i < length cs \<Longrightarrow> 0 < h_len (cs ! skip_empty cs i)"
proof (induction cs i rule: skip_empty.induct)
  case (1 cs i)
  then show ?case by (cases "i < length cs \<and> h_len (cs ! i) = 0") (auto simp: skip_empty.simps [of cs i])
qed

lemma skip_empty_tail: "tail_bytes p cs (skip_empty cs i) = tail_bytes p cs i"
proof (induction cs i rule: skip_empty.induct)
  case (1 cs i)
  show ?case
  proof (cases "i < length cs \<and> h_len (cs ! i) = 0")
    case True
    then have "chunk_bytes p (cs ! i) = []" by (simp add: chunk_bytes_def read_mem_def)
    with 1 True show ?thesis
      by (subst skip_empty.simps) (simp add: tail_bytes_step [of i])
  next
    case False
    then show ?thesis by (subst skip_empty.simps) auto
  qed
qed

text \<open>The bytes still ahead of an iterator, and the iterators the loop passes through.\<close>

definition iter_rest :: "pool \<Rightarrow> hchunk list \<Rightarrow> nat \<times> nat \<Rightarrow> byte list" where
  "iter_rest p cs it =
     (if fst it < length cs
      then drop (snd it - h_first (cs ! fst it)) (chunk_bytes p (cs ! fst it)) @ tail_bytes p cs (Suc (fst it))
      else [])"

definition iter_ok :: "hchunk list \<Rightarrow> nat \<times> nat \<Rightarrow> bool" where
  "iter_ok cs it \<longleftrightarrow> it = (length cs, 0) \<or>
     (fst it < length cs \<and> h_first (cs ! fst it) \<le> snd it \<and>
      snd it < h_first (cs ! fst it) + h_len (cs ! fst it))"

lemma iter_at_skip:
  assumes "i \<le> length cs"
  shows "iter_ok cs (iter_at cs (skip_empty cs i))"
    and "iter_rest p cs (iter_at cs (skip_empty cs i)) = tail_bytes p cs i"
proof -
  let ?k = "skip_empty cs i"
  show "iter_ok cs (iter_at cs ?k)"
    using skip_empty_nonempty [of cs i] by (auto simp: iter_ok_def iter_at_def)
  have "iter_rest p cs (iter_at cs ?k) = tail_bytes p cs ?k"
    by (auto simp: iter_rest_def iter_at_def tail_bytes_step)
  then show "iter_rest p cs (iter_at cs ?k) = tail_bytes p cs i"
    by (simp add: skip_empty_tail)
qed

lemma iter_step:
  assumes "iter_ok cs it" and "it \<noteq> (length cs, 0)"
  shows "\<exists>b it'. iter_deref p cs 1 it = Inr [b] \<and> iter_next cs 1 it = Inr it' \<and> iter_ok cs it' \<and>
    iter_rest p cs it = b # iter_rest p cs it'"
proof -
  obtain i j where it: "it = (i, j)" by (cases it)
  define c where "c = cs ! i"
  have pos: "i < length cs" "h_first c \<le> j" "j < h_first c + h_len c"
    using assms by (auto simp: it iter_ok_def c_def)
  then have room: "Suc 0 \<le> h_first c + h_len c - j" by simp
  define b where "b = mem p (h_addr c) j"
  have d: "iter_deref p cs 1 it = Inr [b]"
    using pos by (simp add: iter_deref_def it c_def [symmetric] read_mem_def b_def)
  have nth: "chunk_bytes p c ! (j - h_first c) = b"
    using pos by (simp add: chunk_bytes_def read_mem_def b_def)
  have dr: "drop (j - h_first c) (chunk_bytes p c) = b # drop (Suc j - h_first c) (chunk_bytes p c)"
    using pos nth Cons_nth_drop_Suc [of "j - h_first c" "chunk_bytes p c"]
    by (simp add: Suc_diff_le)
  show ?thesis
  proof (cases "Suc j = h_first c + h_len c")
    case True
    let ?it' = "iter_at cs (skip_empty cs (Suc i))"
    have "iter_next cs 1 it = Inr ?it'"
      using pos True room
      by (subst iter_next_def, subst iter_skip.simps) (simp add: it c_def [symmetric] Let_def)
    moreover have "iter_rest p cs it = b # iter_rest p cs ?it'"
      using pos True dr iter_at_skip(2) [of "Suc i" cs p]
      by (simp add: it) (simp add: iter_rest_def c_def [symmetric])
    moreover have "iter_ok cs ?it'"
      using pos by (intro iter_at_skip(1)) simp
    ultimately show ?thesis using d by blast
  next
    case False
    have "iter_next cs 1 it = Inr (i, Suc j)"
      using pos False room
      by (subst iter_next_def, subst iter_skip.simps) (simp add: it c_def [symmetric] Let_def)
    moreover have "iter_rest p cs it = b # iter_rest p cs (i, Suc j)"
      using pos dr by (simp add: iter_rest_def it c_def [symmetric])
    moreover have "iter_ok cs (i, Suc j)"
      using pos False by (simp add: iter_ok_def c_def [symmetric])
    ultimately show ?thesis using d by blast
  qed
qed

lemma iter_collect_rest:
  "iter_ok cs it \<Longrightarrow> length (iter_rest p cs it) \<le> n \<Longrightarrow> iter_collect p cs n it = Inr (iter_rest p cs it)"
proof (induction n arbitrary: it)
  case 0
  show ?case
  proof (cases "it = (length cs, 0)")
    case True
    then show ?thesis by (simp add: iter_rest_def)
  next
    case False
    then show ?thesis using iter_step [OF 0(1) False, of p] 0(2) by auto
  qed
next
  case (Suc n)
  show ?case
  proof (cases "it = (length cs, 0)")
    case True
    then show ?thesis by (simp add: iter_rest_def)
  next
    case False
    then show ?thesis using iter_step [OF Suc.prems(1) False, of p] Suc by auto
  qed
qed

lemma iter_collect_span:
  "iter_collect p (hs_chunks s) (span_size s) (iter_begin (hs_chunks s)) = Inr (span_bytes p s)"
proof -
  have len: "length (span_bytes p s) = span_size s"
    by (metis abs_span_bytes abs_span_size vs_size_bytes)
  show ?thesis
    using iter_collect_rest [OF iter_at_skip(1) [of 0 "hs_chunks s"]]
      iter_at_skip(2) [of 0 "hs_chunks s" p] len
    by (simp add: iter_begin_def tail_bytes_0)
qed

section \<open>Assembly from the wire\<close>

lemma list_six: "length xs = 6 \<Longrightarrow> \<exists>a b c d e f. xs = [a, b, c, d, e, f]"
  by (auto simp: numeral_eq_Suc length_Suc_conv)

lemma char_of_u8: "char_of (unat (of_nat (of_char b) :: u8)) = b"
  by (simp add: unat_of_nat)

lemma le_bytes_u16: "le_bytes 2 (unat (of_nat (un_le [a, b]) :: u16)) = [a, b]"
proof -
  have "un_le [a, b] < 65536"
  proof -
    have "of_char a + 256 * of_char b < (65536 :: nat)"
      using nat_of_char_less_256 [of a] nat_of_char_less_256 [of b] by linarith
    then show ?thesis by simp
  qed
  then have "unat (of_nat (un_le [a, b]) :: u16) = un_le [a, b]"
    by (simp add: unat_of_nat del: un_le.simps)
  moreover have "char_of (of_char a + 256 * n :: nat) = a" for n
  proof -
    have "char_of (of_char a + 256 * n :: nat) = (char_of ((of_char a + 256 * n) mod 256 :: nat) :: char)"
      by (simp only: char_of_mod_256)
    then show ?thesis by simp
  qed
  ultimately show ?thesis
    using nat_of_char_less_256 [of a] by (simp add: le_bytes_two)
qed

lemma header_bytes_of_bytes:
  assumes "length bs = 6" and "bs ! 0 = CHR 0x02"
  shows "header_bytes (header_of_bytes bs) = bs"
proof -
  obtain a b c d e f where bs: "bs = [a, b, c, d, e, f]"
    using list_six [OF assms(1)] by blast
  show ?thesis
    using assms(2) le_bytes_u16 [of c d] le_bytes_u16 [of e f] char_of_u8 [of b]
    by (simp add: bs header_of_bytes_def del: un_le.simps)
qed

lemma span_of_data_nil:
  "span_of_data p h [] =
     (write_mem (p\<lparr>next_addr := Suc (next_addr p)\<rparr>) (next_addr p) 0 (header_bytes h),
      \<lparr>hs_chunks = [\<lparr>h_addr = next_addr p, h_first = header_size h, h_len = 0\<rparr>], hs_type = header_type h\<rparr>)"
  by (simp add: span_of_data_def append_chunk_with_signal_def Let_def fill.simps)

lemma partial_payload_header:
  fixes s :: u8 and r d :: u16
  assumes "0 < k" and "k < 6"
  defines "bs \<equiv> take k (header_bytes (Payload_Header s r d))"
  shows "header_size (partial_header (Payload_Header 0 0 0) bs) = 6"
    and "header_type (partial_header (Payload_Header 0 0 0) bs) = 2"
    and "take k (header_bytes (partial_header (Payload_Header 0 0 0) bs)) = bs"
proof -
  let ?h = "Payload_Header 0 0 0"
  let ?full = "bs @ drop (length bs) (header_bytes ?h)"
  have l: "length bs = k" using assms by (simp add: bs_def)
  have len: "length ?full = 6" using l assms by simp
  have z: "?full ! 0 = CHR 0x02" using assms by (simp add: bs_def nth_append)
  have "partial_header ?h bs = header_of_bytes ?full"
    by (simp add: partial_header_def)
  then have hb: "header_bytes (partial_header ?h bs) = ?full"
    using header_bytes_of_bytes [OF len z] by simp
  show "header_size (partial_header ?h bs) = 6"
    using len hb length_header_bytes by metis
  show "header_type (partial_header ?h bs) = 2"
    using arg_cong [OF hb, of "\<lambda>xs. xs ! 0"] z by (cases "partial_header ?h bs") auto
  show "take k (header_bytes (partial_header ?h bs)) = bs"
    using hb l by simp
qed

text \<open>The span a prefix of a payload header makes, and its completion by the bytes that follow.\<close>

lemma create_partial:
  assumes "0 < k" and "k < 6"
  shows "\<exists>q. create_from_data p (take k (header_bytes (Payload_Header s r d))) =
       Inr (q, \<lparr>hs_chunks = [\<lparr>h_addr = next_addr p, h_first = k, h_len = 0\<rparr>], hs_type = 2\<rparr>) \<and>
     next_addr q = Suc (next_addr p) \<and>
     (\<forall>i < k. mem q (next_addr p) i = header_bytes (Payload_Header s r d) ! i) \<and>
     (\<forall>a < next_addr p. mem q a = mem p a)"
proof -
  let ?hb = "header_bytes (Payload_Header s r d)"
  define h where "h = partial_header (Payload_Header 0 0 0) (take k ?hb)"
  note ph = partial_payload_header [OF assms, of s r d, folded h_def]
  define q where "q = write_mem (p\<lparr>next_addr := Suc (next_addr p)\<rparr>) (next_addr p) 0 (header_bytes h)"
  have ne: "take k ?hb \<noteq> []" and z: "take k ?hb ! 0 = CHR 0x02" using assms by simp_all
  have ln: "length (take k ?hb) = k" using assms by simp
  have "with_header p (Payload_Header 0 0 0) (take k ?hb) =
      (q, \<lparr>hs_chunks = [\<lparr>h_addr = next_addr p, h_first = k, h_len = 0\<rparr>], hs_type = 2\<rparr>)"
    using ln assms(2) ph(2)
    by (simp only: with_header_def h_def [symmetric] span_of_data_nil q_def)
      (simp add: Let_def h_def [symmetric])
  then have "create_from_data p (take k ?hb) =
      Inr (q, \<lparr>hs_chunks = [\<lparr>h_addr = next_addr p, h_first = k, h_len = 0\<rparr>], hs_type = 2\<rparr>)"
    using ne z unfolding create_from_data_def by simp
  moreover have "mem q (next_addr p) i = ?hb ! i" if "i < k" for i
  proof -
    have "header_bytes h ! i = take k ?hb ! i"
      using ph(3) that by (metis nth_take)
    then show ?thesis
      using that ph(1) assms(2) by (simp add: q_def write_mem_def del: header_bytes.simps)
  qed
  ultimately show ?thesis
    by (intro exI [of _ q]) (auto simp: q_def)
qed



end
