(* ===== verification/Span_Properties.thy ===== *)
theory Span_Properties
  imports Span_Access
begin

text \<open>
  The properties of the memory layer: construction and iteration round trip, \<open>restrict\<close> as
  slicing (and the spans it gets wrong), typed writes, and the sharing between a span and the
  spans restricted from it.
\<close>

lemma length_span_bytes [simp]: "length (span_bytes p s) = span_size s"
  by (metis abs_span_bytes abs_span_size vs_size_bytes)

text \<open>
  Building a span from any byte string and iterating it byte by byte gives the byte string
  back, whatever the number of chunks it needed, and every span that existed before keeps its
  content.
\<close>

theorem construct_iterate:
  assumes "span_of_data p h data = (q, s)" and "span_ok p old"
  shows "iter_collect q (hs_chunks s) (span_size s) (iter_begin (hs_chunks s)) = Inr data \<and>
    span_ok q s \<and> abs_span q old = abs_span p old"
proof -
  note new = span_of_data_abs [OF assms(1)]
  have "span_bytes q s = data"
    using new(1) by (metis abs_span_bytes vs_of_data_bytes)
  then show ?thesis
    using new(3) extends_span [OF new(2) assms(2)] by (simp add: iter_collect_span)
qed

definition demo_pool :: pool where
  "demo_pool = \<lparr>mem = (\<lambda>_ _. CHR ''.''), next_addr = 0\<rparr>"

theorem construct_iterate_witness:
  "\<exists>q s. span_of_data demo_pool (Payload_Header 7 1 3) ''abc'' = (q, s) \<and>
     iter_collect q (hs_chunks s) (span_size s) (iter_begin (hs_chunks s)) = Inr ''abc''"
proof -
  obtain q s where qs: "span_of_data demo_pool (Payload_Header 7 1 3) ''abc'' = (q, s)"
    by fastforce
  have "span_ok demo_pool \<lparr>hs_chunks = [], hs_type = 0\<rparr>" by (simp add: span_ok_def)
  from construct_iterate [OF qs this] qs show ?thesis by blast
qed

text \<open>
  When no chunk of a span is empty and the range does not wrap around \<open>size_t\<close>, \<open>restrict\<close>
  cuts exactly the requested range out of the span's bytes, shortened at the end of the span.
\<close>

theorem restrict_slices:
  assumes "\<forall>c \<in> set (hs_chunks s). 0 < h_len c" and "start + n < 2 ^ 64"
  shows "span_bytes p (span_restrict s start n) = take n (drop start (span_bytes p s))"
proof -
  have "\<forall>c \<in> set (vs_chunks (abs_span p s)). vc_data c \<noteq> []"
    using assms(1) by (auto simp: abs_span_def abs_chunk_def simp flip: length_greater_0_conv)
  then show ?thesis
    using vs_restrict_bytes [OF _ assms(2)] abs_span_restrict [OF assms(2)]
    by (metis abs_span_bytes)
qed

theorem restrict_slices_witness:
  "span_bytes demo_pool (span_restrict \<lparr>hs_chunks = [\<lparr>h_addr = 0, h_first = 6, h_len = 4\<rparr>], hs_type = 2\<rparr> 1 2)
     = ''..''"
  by (subst restrict_slices) (simp_all add: span_bytes_def chunk_bytes_def read_mem_def demo_pool_def upt_rec)

text \<open>
  With an empty chunk between two others, \<open>restrict\<close> to the whole span loses the bytes of the
  first: \<open>erase(chunks.begin())\<close> removes the chunk already taken instead of the empty one. This is
  the path \<open>TreeNode::operator=\<close> takes for a node whose property data holds an empty string.
\<close>

theorem restrict_loses_first_chunk:
  assumes "0 < h_len a" and "h_len e = 0" and "0 < h_len b" and "h_len a + h_len b < 2 ^ 64"
  shows "span_bytes p (span_restrict \<lparr>hs_chunks = [a, e, b], hs_type = t\<rparr> 0 (h_len a + h_len b)) =
    chunk_bytes p b"
proof -
  have s1: "restrict_loop [a, e, b] 0 0 (h_len a + h_len b) = restrict_loop [a, e, b] (Suc 0) 0 (h_len b)"
    using assms by (subst restrict_loop.simps) (simp add: Let_def)
  have s2: "restrict_loop [a, e, b] (Suc 0) 0 (h_len b) = restrict_loop [e, b] (Suc 0) 0 (h_len b)"
    using assms by (subst restrict_loop.simps) (simp add: Let_def)
  have s3: "restrict_loop [e, b] (Suc 0) 0 (h_len b) = [e, b]"
    using assms by (subst restrict_loop.simps) (simp add: Let_def)
  have "chunk_bytes p e = []" using assms(2) by (simp add: chunk_bytes_def read_mem_def)
  then show ?thesis
    by (simp add: span_restrict_def s1 s2 s3 span_bytes_def)
qed

theorem restrict_loses_first_chunk_witness:
  "span_bytes demo_pool (span_restrict \<lparr>hs_chunks = [\<lparr>h_addr = 0, h_first = 6, h_len = 8\<rparr>,
       \<lparr>h_addr = 1, h_first = 6, h_len = 0\<rparr>, \<lparr>h_addr = 2, h_first = 6, h_len = 2\<rparr>], hs_type = 2\<rparr> 0 10) = ''..''"
  using restrict_loses_first_chunk [of "\<lparr>h_addr = 0, h_first = 6, h_len = 8\<rparr>"
      "\<lparr>h_addr = 1, h_first = 6, h_len = 0\<rparr>" "\<lparr>h_addr = 2, h_first = 6, h_len = 2\<rparr>" demo_pool 2]
  by (simp add: chunk_bytes_def read_mem_def demo_pool_def upt_rec)

text \<open>
  \<open>copy_type\<close> without a start position overwrites the first bytes of the span, across chunk
  boundaries, when the span is long enough, and throws \<open>invalid_argument\<close> otherwise.
\<close>

theorem copy_type_replaces_prefix:
  assumes "span_ok p s" and "distinct (addrs (hs_chunks s))" and "hs_type s \<in> {0, 1, 2}"
    and "hs_chunks s \<noteq> []" and "data \<noteq> []"
  shows "if length data \<le> span_size s
    then \<exists>q pos. copy_type p s data None = (q, Inr pos) \<and>
           span_bytes q s = data @ drop (length data) (span_bytes p s)
    else \<exists>q m. copy_type p s data None = (q, Inl (Invalid_Argument m))"
proof -
  have all: "tail_bytes q (hs_chunks s) 0 = span_bytes q s" for q
    using tail_bytes_0 [of q s] assms(4) by simp
  have run: "copy_type p s data None = copy_loop (hs_type s) (hs_chunks s) p data (h_first (hs_chunks s ! 0)) 0"
    using assms(4) by (simp add: copy_type_def)
  show ?thesis
    using copy_loop_writes [OF span_ok_fit [OF assms(1)] assms(2,3), of 0 data p] assms(4,5)
    unfolding run all by (cases "length data \<le> span_size s") fastforce+
qed

theorem copy_type_replaces_prefix_witness:
  "\<exists>q pos. copy_type (demo_pool\<lparr>next_addr := 2\<rparr>)
       \<lparr>hs_chunks = [\<lparr>h_addr = 0, h_first = 1, h_len = 2\<rparr>, \<lparr>h_addr = 1, h_first = 1, h_len = 2\<rparr>], hs_type = 0\<rparr>
       ''abc'' None = (q, Inr pos) \<and>
     span_bytes q \<lparr>hs_chunks = [\<lparr>h_addr = 0, h_first = 1, h_len = 2\<rparr>, \<lparr>h_addr = 1, h_first = 1, h_len = 2\<rparr>],
       hs_type = 0\<rparr> = ''abc.''"
  using copy_type_replaces_prefix [of "demo_pool\<lparr>next_addr := 2\<rparr>" "\<lparr>hs_chunks =
      [\<lparr>h_addr = 0, h_first = 1, h_len = 2\<rparr>, \<lparr>h_addr = 1, h_first = 1, h_len = 2\<rparr>], hs_type = 0\<rparr>" "''abc''"]
  by (simp add: span_ok_def chunk_ok_def chunk_size_def demo_pool_def addrs_def span_size_def
      span_bytes_def chunk_bytes_def read_mem_def upt_rec)

text \<open>Restricting to a range inside one chunk keeps that chunk only, on the same memory.\<close>

lemma restrict_inside:
  assumes "0 < n" and "o' + n \<le> h_len c" and "sum_list (map h_len pre) + o' + n < 2 ^ 64"
  shows "restrict_loop (pre @ c # post) 0 (sum_list (map h_len pre) + o') n =
    [c\<lparr>h_first := h_first c + o', h_len := n\<rparr>]"
  using assms(3)
proof (induction pre)
  case Nil
  then show ?case
    using assms by (subst restrict_loop.simps) (simp add: Let_def)
next
  case (Cons d pre)
  then show ?case
    using assms(1) by (subst restrict_loop.simps) (simp add: Let_def add.assoc)
qed

lemma copy_into_chunk:
  assumes "0 < length data" and "length data \<le> h_len c" and "h_first c + h_len c \<le> chunk_size"
    and "t \<in> {0, 1, 2}"
  shows "\<exists>pos. copy_type p \<lparr>hs_chunks = [c], hs_type = t\<rparr> data None =
    (write_mem p (h_addr c) (h_first c) data, Inr pos)"
  using assms unfolding copy_type_def
  by (simp, subst copy_loop.simps) (auto simp: Let_def min_def signal_size_def)

lemma chunk_bytes_write_inside:
  assumes "o' + length data \<le> h_len c"
  shows "chunk_bytes (write_mem p (h_addr c) (h_first c + o') data) c =
    take o' (chunk_bytes p c) @ data @ drop (o' + length data) (chunk_bytes p c)"
  using assms
  by (intro nth_equalityI) (auto simp: chunk_bytes_def read_mem_def write_mem_def nth_append)

text \<open>
  A span restricted from another shares its memory: a typed write through the restricted span
  changes exactly those bytes of the original (and of every other copy of it). This is how
  \<open>setPropertyValue\<close> writes, and why it also changes the nodes copied from this one.
\<close>

theorem write_through_restriction:
  assumes "hs_chunks s = pre @ c # post" and "start = sum_list (map h_len pre) + o'"
    and "0 < length data" and "length data \<le> n" and "o' + n \<le> h_len c" and "start + n < 2 ^ 64"
    and "span_ok p s" and "distinct (addrs (hs_chunks s))" and "hs_type s \<in> {0, 1, 2}"
  shows "\<exists>q pos. copy_type p (span_restrict s start n) data None = (q, Inr pos) \<and>
    span_bytes q s = take start (span_bytes p s) @ data @ drop (start + length data) (span_bytes p s)"
proof -
  define r where "r = c\<lparr>h_first := h_first c + o', h_len := n\<rparr>"
  define q where "q = write_mem p (h_addr c) (h_first c + o') data"
  have rs: "span_restrict s start n = \<lparr>hs_chunks = [r], hs_type = hs_type s\<rparr>"
    using assms(1-6) restrict_inside [of n o' c pre post]
    by (cases s) (fastforce simp: span_restrict_def r_def)
  have fit: "h_first c + h_len c \<le> chunk_size"
    using assms(1,7) by (auto simp: span_ok_def chunk_ok_def)
  have w: "\<exists>pos. copy_type p (span_restrict s start n) data None = (q, Inr pos)"
    using copy_into_chunk [of data r "hs_type s" p] assms(3,4,5,9) fit
    by (simp add: rs r_def q_def)
  have other: "chunk_bytes q d = chunk_bytes p d" if "d \<in> set pre \<union> set post" for d
    unfolding q_def by (rule chunk_bytes_write_other) (use that assms(1,8) in \<open>force simp: addrs_def image_iff\<close>)
  have same: "concat (map (chunk_bytes q) pre) = concat (map (chunk_bytes p) pre)"
    "concat (map (chunk_bytes q) post) = concat (map (chunk_bytes p) post)"
    using other by (auto intro!: arg_cong [of _ _ concat])
  have len: "length (concat (map (chunk_bytes p) pre)) = sum_list (map h_len pre)"
    by (simp add: length_concat comp_def)
  have "chunk_bytes q c = take o' (chunk_bytes p c) @ data @ drop (o' + length data) (chunk_bytes p c)"
    unfolding q_def by (rule chunk_bytes_write_inside) (use assms in simp)
  then have "span_bytes q s = take start (span_bytes p s) @ data @ drop (start + length data) (span_bytes p s)"
    using assms(2,4,5) by (simp add: span_bytes_def assms(1) same len)
  with w show ?thesis by blast
qed

theorem write_through_restriction_witness:
  "\<exists>q pos. copy_type (demo_pool\<lparr>next_addr := 1\<rparr>)
      (span_restrict \<lparr>hs_chunks = [\<lparr>h_addr = 0, h_first = 6, h_len = 4\<rparr>], hs_type = 2\<rparr> 1 2) ''ab'' None = (q, Inr pos) \<and>
     span_bytes q \<lparr>hs_chunks = [\<lparr>h_addr = 0, h_first = 6, h_len = 4\<rparr>], hs_type = 2\<rparr> = ''.ab.''"
  using write_through_restriction [of "\<lparr>hs_chunks = [\<lparr>h_addr = 0, h_first = 6, h_len = 4\<rparr>], hs_type = 2\<rparr>"
      "[]" "\<lparr>h_addr = 0, h_first = 6, h_len = 4\<rparr>" "[]" 1 1 "''ab''" 2 "demo_pool\<lparr>next_addr := 1\<rparr>"]
  by (simp add: span_ok_def chunk_ok_def chunk_size_def addrs_def span_bytes_def chunk_bytes_def
      read_mem_def demo_pool_def upt_rec)

end
