(* ===== verification/Tree_Node.thy ===== *)
theory Tree_Node
  imports Span_Properties
begin

text \<open>
  Tree nodes (\<open>common/backend_cpp/interface/tree_node.h\<close> and \<open>tree_node.cpp\<close>): versions and their
  comparison operators, the node record with its constructor, getters and setters, the label
  prefixing of nodes and transactions, and the typed property operations on the property data.
  A node is polymorphic in its property data: the property operations of this theory work on
  spans over the pool (\<open>hspan node\<close>), where the sharing between copies is visible, the backends and
  the wire format on contents (\<open>vspan node\<close>).
\<close>

section \<open>Versions\<close>

record version =
  version_number :: u16
  max_version_sequence :: u16
  policy :: string
  authorial_proof :: "string option"
  authors :: "string option"
  readers :: "string option"
  collision_depth :: "int option"

definition default_version :: version where
  "default_version = \<lparr>version_number = 0, max_version_sequence = 256, policy = ''default'',
     authorial_proof = None, authors = None, readers = None, collision_depth = None\<rparr>"

text \<open>\<open>operator++\<close>: the sum is an \<open>int\<close>, so it does not wrap at 16 bits before the remainder.\<close>

definition version_incr :: "version \<Rightarrow> version result" where
  "version_incr v =
     (if max_version_sequence v = 0 then Inl Assertion_Failed
      else Inr (v\<lparr>version_number :=
        of_nat ((unat (version_number v) + 1) mod unat (max_version_sequence v))\<rparr>))"

definition is_default_version :: "version \<Rightarrow> bool" where
  "is_default_version v \<longleftrightarrow>
     version_number v = 0 \<and> max_version_sequence v = 256 \<and> policy v = ''default'' \<and>
     authorial_proof v = None \<and> authors v = None \<and> readers v = None \<and> collision_depth v = None"

definition version_lt :: "version \<Rightarrow> version \<Rightarrow> bool" where
  "version_lt v w =
     (if v = w then False
      else
        let a = uint (version_number v); b = uint (version_number w);
            half = uint (max_version_sequence v) div 2 in
        if 0 < b - a then b - a \<le> half else half < a - b)"

definition version_le :: "version \<Rightarrow> version \<Rightarrow> bool" where
  "version_le v w \<longleftrightarrow> version_lt v w \<or> version_number v = version_number w"

definition version_ge :: "version \<Rightarrow> version \<Rightarrow> bool" where
  "version_ge v w \<longleftrightarrow> \<not> version_lt v w"

definition version_gt :: "version \<Rightarrow> version \<Rightarrow> bool" where
  "version_gt v w \<longleftrightarrow> \<not> version_le v w"

section \<open>Nodes\<close>

type_synonym property_info = "string \<times> string"

record 'd node =
  label_rule :: string
  description :: string
  property_infos :: "property_info list"
  node_version :: version
  child_names :: "string list"
  property_data :: 'd
  query_how_to :: "string option"
  qa_sequence :: "string option"

text \<open>The default constructor, given the empty property data.\<close>

definition node_default :: "'d \<Rightarrow> 'd node" where
  "node_default d = \<lparr>label_rule = '''', description = '''', property_infos = [],
     node_version = default_version, child_names = [], property_data = d,
     query_how_to = None, qa_sequence = None\<rparr>"

definition has_label_space :: "string \<Rightarrow> bool" where
  "has_label_space s \<longleftrightarrow> (\<exists>c \<in> set s. c \<in> {CHR '' '', CHR 0x09, CHR 0x0A, CHR 0x0D})"

definition no_empty :: "string option \<Rightarrow> string option" where
  "no_empty m = (if m = Some '''' then None else m)"

fun check_children :: "string list \<Rightarrow> unit result" where
  "check_children [] = Inr ()"
| "check_children (c # cs) =
     (if has_label_space c
      then Inl (Invalid_Argument (''Child names cannot contain whitespace: '' @ c))
      else check_children cs)"

definition node_make :: "string \<Rightarrow> string \<Rightarrow> property_info list \<Rightarrow> version \<Rightarrow> string list \<Rightarrow> 'd \<Rightarrow>
    string option \<Rightarrow> string option \<Rightarrow> 'd node result" where
  "node_make lbl desc infos v cs d how qa =
     (if has_label_space lbl
      then Inl (Invalid_Argument (''Label rule cannot contain whitespace: '' @ lbl))
      else rbind (check_children cs) (\<lambda>_.
        Inr \<lparr>label_rule = lbl, description = desc, property_infos = infos, node_version = v,
             child_names = cs, property_data = d,
             query_how_to = no_empty how, qa_sequence = no_empty qa\<rparr>))"

text \<open>
  Copy assignment takes a restricted view of the data; the copy constructor copies the span.
\<close>

definition node_assign_heap :: "hspan node \<Rightarrow> hspan node" where
  "node_assign_heap n =
     n\<lparr>property_data := span_restrict (property_data n) 0 (span_size (property_data n))\<rparr>"

definition node_assign :: "vspan node \<Rightarrow> vspan node" where
  "node_assign n =
     n\<lparr>property_data := vs_restrict (property_data n) 0 (vs_size (property_data n))\<rparr>"

definition set_query_how_to :: "string option \<Rightarrow> 'd node \<Rightarrow> 'd node" where
  "set_query_how_to m n = n\<lparr>query_how_to := no_empty m\<rparr>"

definition set_qa_sequence :: "string option \<Rightarrow> 'd node \<Rightarrow> 'd node" where
  "set_qa_sequence m n = n\<lparr>qa_sequence := no_empty m\<rparr>"

definition get_policy :: "'d node \<Rightarrow> string" where
  "get_policy n = policy (node_version n)"

definition set_policy :: "string \<Rightarrow> 'd node \<Rightarrow> 'd node" where
  "set_policy s n = n\<lparr>node_version := (node_version n)\<lparr>policy := s\<rparr>\<rparr>"

definition node_incr :: "'d node \<Rightarrow> 'd node result" where
  "node_incr n = rbind (version_incr (node_version n)) (\<lambda>v. Inr (n\<lparr>node_version := v\<rparr>))"

definition get_node_name :: "'d node \<Rightarrow> string" where
  "get_node_name n =
     (case rfind_char (CHR ''/'') (label_rule n) of
        Some i \<Rightarrow> drop (i + 1) (label_rule n) | None \<Rightarrow> label_rule n)"

definition get_node_path :: "'d node \<Rightarrow> string" where
  "get_node_path n =
     (case rfind_char (CHR ''/'') (label_rule n) of
        Some i \<Rightarrow> take (i + 1) (label_rule n) | None \<Rightarrow> '''')"

definition get_absolute_child_names :: "'d node \<Rightarrow> string list" where
  "get_absolute_child_names n = map (\<lambda>c. label_rule n @ ''/'' @ c) (child_names n)"

text \<open>\<open>operator==\<close>: the property data byte by byte, \<open>query_how_to\<close> up to the empty string.\<close>

fun same_bytes :: "pool \<Rightarrow> hchunk list \<Rightarrow> hchunk list \<Rightarrow> nat \<Rightarrow> nat \<times> nat \<Rightarrow> nat \<times> nat \<Rightarrow> bool result" where
  "same_bytes p cs ds 0 it jt = Inr True"
| "same_bytes p cs ds (Suc k) it jt =
     rbind (iter_deref p cs 1 it) (\<lambda>a. rbind (iter_deref p ds 1 jt) (\<lambda>b.
       if a \<noteq> b then Inr False
       else rbind (iter_next cs 1 it) (\<lambda>it'. rbind (iter_next ds 1 jt) (\<lambda>jt'.
              same_bytes p cs ds k it' jt'))))"

definition with_default :: "'a \<Rightarrow> 'a option \<Rightarrow> 'a" where
  "with_default d m = (case m of None \<Rightarrow> d | Some x \<Rightarrow> x)"

definition node_eq :: "pool \<Rightarrow> hspan node \<Rightarrow> hspan node \<Rightarrow> bool result" where
  "node_eq p n m =
     (let props = (label_rule n = label_rule m \<and> description n = description m \<and>
            property_infos n = property_infos m \<and> node_version n = node_version m \<and>
            child_names n = child_names m \<and>
            with_default '''' (query_how_to n) = with_default '''' (query_how_to m) \<and>
            qa_sequence n = qa_sequence m);
          cs = hs_chunks (property_data n); ds = hs_chunks (property_data m) in
      if span_size (property_data n) = span_size (property_data m)
      then rbind (same_bytes p cs ds (span_size (property_data n)) (iter_begin cs) (iter_begin ds))
             (\<lambda>e. Inr (props \<and> e))
      else Inr False)"

section \<open>Labels\<close>

definition prefix_message :: string where
  "prefix_message = ''Prefix must end with a '' @ [CHR 0x27, CHR ''/'', CHR 0x27]"

definition prefix_one :: "string \<Rightarrow> string \<Rightarrow> string" where
  "prefix_one pre s = (if str_find s pre \<noteq> Some 0 then pre @ s else s)"

definition shorten_one :: "string \<Rightarrow> string \<Rightarrow> string" where
  "shorten_one pre s = (if str_find s pre = Some 0 then drop (length pre) s else s)"

definition prefix_labels :: "string \<Rightarrow> 'd node \<Rightarrow> 'd node result" where
  "prefix_labels pre n =
     (if pre = '''' then Inr n
      else if last pre \<noteq> CHR ''/'' then Inl (Runtime_Error prefix_message)
      else Inr (n\<lparr>label_rule := prefix_one pre (label_rule n),
                  child_names := map (prefix_one pre) (child_names n)\<rparr>))"

definition shorten_labels :: "string \<Rightarrow> 'd node \<Rightarrow> 'd node" where
  "shorten_labels pre n =
     (if pre = '''' then n
      else n\<lparr>label_rule := shorten_one pre (label_rule n),
             child_names := map (shorten_one pre) (child_names n)\<rparr>)"

type_synonym 'd new_node_version = "u16 option \<times> (string \<times> 'd node option)"
type_synonym 'd sub_transaction = "'d new_node_version \<times> 'd new_node_version list"
type_synonym 'd transaction = "'d sub_transaction list"

fun prefix_nnv :: "string \<Rightarrow> 'd new_node_version \<Rightarrow> 'd new_node_version result" where
  "prefix_nnv pre (ov, lbl, m) =
     (if pre = '''' then Inr (ov, lbl, m)
      else if last pre \<noteq> CHR ''/'' then Inl (Runtime_Error prefix_message)
      else (case m of
              None \<Rightarrow> Inr (ov, prefix_one pre lbl, None)
            | Some n \<Rightarrow> rbind (prefix_labels pre n) (\<lambda>n'. Inr (ov, prefix_one pre lbl, Some n'))))"

fun shorten_nnv :: "string \<Rightarrow> 'd new_node_version \<Rightarrow> 'd new_node_version" where
  "shorten_nnv pre (ov, lbl, m) =
     (if pre = '''' then (ov, lbl, m)
      else (ov, shorten_one pre lbl, map_option (shorten_labels pre) m))"

text \<open>Apply a fallible update to every element of a vector in place.\<close>

fun rmap :: "('a \<Rightarrow> 'b result) \<Rightarrow> 'a list \<Rightarrow> 'b list result" where
  "rmap f [] = Inr []"
| "rmap f (x # xs) = rbind (f x) (\<lambda>y. rbind (rmap f xs) (\<lambda>ys. Inr (y # ys)))"

fun prefix_sub :: "string \<Rightarrow> 'd sub_transaction \<Rightarrow> 'd sub_transaction result" where
  "prefix_sub pre (nv, ds) =
     (if pre = '''' then Inr (nv, ds)
      else rbind (prefix_nnv pre nv) (\<lambda>nv'. rbind (rmap (prefix_nnv pre) ds) (\<lambda>ds'. Inr (nv', ds'))))"

fun shorten_sub :: "string \<Rightarrow> 'd sub_transaction \<Rightarrow> 'd sub_transaction" where
  "shorten_sub pre (nv, ds) =
     (if pre = '''' then (nv, ds) else (shorten_nnv pre nv, map (shorten_nnv pre) ds))"

definition prefix_transaction :: "string \<Rightarrow> 'd transaction \<Rightarrow> 'd transaction result" where
  "prefix_transaction pre t = (if pre = '''' then Inr t else rmap (prefix_sub pre) t)"

definition shorten_transaction :: "string \<Rightarrow> 'd transaction \<Rightarrow> 'd transaction" where
  "shorten_transaction pre t = (if pre = '''' then t else map (shorten_sub pre) t)"

section \<open>Order and labels: what the operations guarantee\<close>

lemma prefix_one_simps [label_simps]:
  "prefix pre s \<Longrightarrow> prefix_one pre s = s"
  "\<not> prefix pre s \<Longrightarrow> prefix_one pre s = pre @ s"
  by (simp_all add: prefix_one_def str_find_zero)

lemma shorten_one_simps [label_simps]:
  "prefix pre s \<Longrightarrow> shorten_one pre s = drop (length pre) s"
  "\<not> prefix pre s \<Longrightarrow> shorten_one pre s = s"
  by (simp_all add: shorten_one_def str_find_zero)

lemma prefix_prefix_one [simp]: "prefix pre (prefix_one pre s)"
  by (cases "prefix pre s") (simp_all add: label_simps)

lemma prefix_one_idem [simp]: "prefix_one pre (prefix_one pre s) = prefix_one pre s"
  by (simp add: label_simps)

lemma shorten_prefix_one: "\<not> prefix pre s \<Longrightarrow> shorten_one pre (prefix_one pre s) = s"
  by (simp add: label_simps)

lemma shorten_prefix_one_iff:
  assumes "pre \<noteq> ''''"
  shows "shorten_one pre (prefix_one pre s) = s \<longleftrightarrow> \<not> prefix pre s"
proof (cases "prefix pre s")
  case True
  then have "length (drop (length pre) s) < length s"
    using assms prefix_length_le [OF True] by (cases pre) auto
  then have "drop (length pre) s \<noteq> s" by (metis less_irrefl)
  with True show ?thesis by (simp add: label_simps)
qed (simp add: shorten_prefix_one)

text \<open>Every label a transaction mentions.\<close>

fun nnv_labels :: "'d new_node_version \<Rightarrow> string list" where
  "nnv_labels (ov, lbl, m) =
     lbl # (case m of None \<Rightarrow> [] | Some n \<Rightarrow> label_rule n # child_names n)"

definition sub_labels :: "'d sub_transaction \<Rightarrow> string list" where
  "sub_labels s = concat (map nnv_labels (fst s # snd s))"

definition transaction_labels :: "'d transaction \<Rightarrow> string list" where
  "transaction_labels t = concat (map sub_labels t)"

lemma shorten_prefix_labels:
  assumes "prefix_labels pre n = Inr n'"
    and "\<forall>l \<in> set (label_rule n # child_names n). \<not> prefix pre l" and "pre \<noteq> ''''"
  shows "shorten_labels pre n' = n"
proof -
  have "map (shorten_one pre) (map (prefix_one pre) (child_names n)) = child_names n"
    using assms(2) by (simp add: shorten_prefix_one map_idI)
  then show ?thesis
    using assms by (auto simp: prefix_labels_def shorten_labels_def shorten_prefix_one split: if_splits)
qed

lemma shorten_prefix_nnv:
  assumes "prefix_nnv pre v = Inr v'" and "\<forall>l \<in> set (nnv_labels v). \<not> prefix pre l" and "pre \<noteq> ''''"
  shows "shorten_nnv pre v' = v"
proof (cases v)
  case (fields ov lbl m)
  with assms show ?thesis
    by (cases m) (auto simp: rbind_Inr_iff shorten_prefix_one shorten_prefix_labels split: if_splits)
qed

lemma rmap_Inr_map:
  assumes "rmap f xs = Inr ys" and "\<And>x y. x \<in> set xs \<Longrightarrow> f x = Inr y \<Longrightarrow> g y = x"
  shows "map g ys = xs"
  using assms by (induction xs arbitrary: ys) (auto simp: rbind_Inr_iff)

lemma rmap_total:
  assumes "\<And>x. x \<in> set xs \<Longrightarrow> \<exists>y. f x = Inr y"
  shows "\<exists>ys. rmap f xs = Inr ys"
  using assms
proof (induction xs)
  case (Cons x xs)
  then show ?case by (metis list.set_intros(1,2) rbind_simps(2) rmap.simps(2))
qed simp

declare prefix_nnv.simps [simp del] shorten_nnv.simps [simp del]

lemma shorten_prefix_sub:
  assumes "prefix_sub pre s = Inr s'" and "pre \<noteq> ''''"
    and "\<forall>l \<in> set (sub_labels s). \<not> prefix pre l"
  shows "shorten_sub pre s' = s"
proof (cases s)
  case (Pair nv ds)
  then obtain nv' ds' where s': "prefix_nnv pre nv = Inr nv'" "rmap (prefix_nnv pre) ds = Inr ds'"
      "s' = (nv', ds')"
    using assms(1,2) by (auto simp: rbind_Inr_iff)
  have "shorten_nnv pre nv' = nv"
    using s'(1) assms(2,3) Pair by (intro shorten_prefix_nnv) (auto simp: sub_labels_def)
  moreover have "map (shorten_nnv pre) ds' = ds"
    using s'(2)
  proof (rule rmap_Inr_map)
    fix x y assume "x \<in> set ds" "prefix_nnv pre x = Inr y"
    then show "shorten_nnv pre y = x"
      using assms(2,3) Pair by (intro shorten_prefix_nnv) (auto simp: sub_labels_def)
  qed
  ultimately show ?thesis using assms(2) Pair s'(3) by simp
qed

lemma prefix_nnv_total:
  assumes "pre = '''' \<or> last pre = CHR ''/''"
  shows "\<exists>v'. prefix_nnv pre v = Inr v'"
  using assms by (cases v; cases "snd (snd v)") (auto simp: prefix_labels_def prefix_nnv.simps)

lemma prefix_sub_total:
  assumes "pre = '''' \<or> last pre = CHR ''/''"
  shows "\<exists>s'. prefix_sub pre s = Inr s'"
proof (cases s)
  case (Pair nv ds)
  obtain nv' where "prefix_nnv pre nv = Inr nv'" using prefix_nnv_total [OF assms] by blast
  moreover obtain ds' where "rmap (prefix_nnv pre) ds = Inr ds'"
    using rmap_total [of ds "prefix_nnv pre", OF prefix_nnv_total [OF assms]] by blast
  ultimately show ?thesis unfolding Pair prefix_sub.simps by (cases "pre = ''''") (auto simp del: split_paired_Ex)
qed

text \<open>
  Prefixing every label of a transaction with a mount path and shortening it again gives the
  transaction back, provided no label in it starts with the mount path already; with a prefix
  ending in a slash, prefixing never fails.
\<close>

theorem transaction_prefix_roundtrip:
  assumes "pre = '''' \<or> last pre = CHR ''/''"
    and "pre = '''' \<or> (\<forall>l \<in> set (transaction_labels t). \<not> prefix pre l)"
  shows "\<exists>t'. prefix_transaction pre t = Inr t' \<and> shorten_transaction pre t' = t"
proof (cases "pre = ''''")
  case True
  then show ?thesis by (simp add: prefix_transaction_def shorten_transaction_def)
next
  case False
  obtain t' where t': "rmap (prefix_sub pre) t = Inr t'"
    using rmap_total [of t "prefix_sub pre", OF prefix_sub_total [OF assms(1)]] by blast
  have "map (shorten_sub pre) t' = t"
    using t'
  proof (rule rmap_Inr_map)
    fix x y assume x: "x \<in> set t" "prefix_sub pre x = Inr y"
    then have "set (sub_labels x) \<subseteq> set (transaction_labels t)"
      by (auto simp: transaction_labels_def)
    with assms(2) False show "shorten_sub pre y = x"
      using shorten_prefix_sub [OF x(2) False] by blast
  qed
  with False t' show ?thesis by (simp add: prefix_transaction_def shorten_transaction_def)
qed

theorem transaction_prefix_roundtrip_witness:
  "\<exists>t'. prefix_transaction ''zoo/'' ([((Some 3, ''lion'', Some (node_default ())), [(None, ''pond/duck'', None)])] :: unit transaction) = Inr t' \<and>
     shorten_transaction ''zoo/'' t' = [((Some 3, ''lion'', Some (node_default ())), [(None, ''pond/duck'', None)])]"
proof (rule transaction_prefix_roundtrip)
qed (simp_all add: transaction_labels_def sub_labels_def node_default_def)

text \<open>
  Of two versions with the same cycle length and different numbers, exactly one is less than
  the other, and \<open><=\<close>, \<open>>=\<close>, \<open>>\<close> agree with \<open><\<close> on them.
\<close>

theorem version_comparison_exclusive:
  assumes "max_version_sequence v = max_version_sequence w" and "version_number v \<noteq> version_number w"
  shows "(version_lt v w \<longleftrightarrow> \<not> version_lt w v) \<and> (version_le v w \<longleftrightarrow> version_lt v w) \<and>
    (version_ge v w \<longleftrightarrow> version_lt w v) \<and> (version_gt v w \<longleftrightarrow> version_lt w v)"
proof -
  have ne: "v \<noteq> w" "uint (version_number v) \<noteq> uint (version_number w)" using assms(2) by (auto simp: word_uint_eq_iff)
  have x: "version_lt v w \<longleftrightarrow> \<not> version_lt w v"
    using ne assms(1) by (auto simp: version_lt_def Let_def)
  then show ?thesis
    using assms(2) by (simp add: version_le_def version_ge_def version_gt_def)
qed

theorem version_comparison_exclusive_witness:
  "version_lt (default_version\<lparr>version_number := 250\<rparr>) (default_version\<lparr>version_number := 3\<rparr>) \<longleftrightarrow>
     \<not> version_lt (default_version\<lparr>version_number := 3\<rparr>) (default_version\<lparr>version_number := 250\<rparr>)"
  using version_comparison_exclusive [of "default_version\<lparr>version_number := 250\<rparr>" "default_version\<lparr>version_number := 3\<rparr>"]
  by (simp add: default_version_def)

lemma version_incr_Inr:
  assumes "version_incr v = Inr w"
  shows "w = v\<lparr>version_number := version_number w\<rparr>"
    and "unat (version_number w) = (unat (version_number v) + 1) mod unat (max_version_sequence v)"
    and "0 < max_version_sequence v"
proof -
  let ?m = "unat (max_version_sequence v)"
  have m: "max_version_sequence v \<noteq> 0"
    and w: "w = v\<lparr>version_number := of_nat ((unat (version_number v) + 1) mod ?m)\<rparr>"
    using assms by (auto simp: version_incr_def split: if_splits)
  have "(unat (version_number v) + 1) mod ?m < ?m"
    using m by (simp add: unat_gt_0)
  also have "?m < 2 ^ 16"
    using unsigned_less [of "max_version_sequence v"] by simp
  finally show "unat (version_number w) = (unat (version_number v) + 1) mod ?m"
    by (simp add: w unat_of_nat)
  show "w = v\<lparr>version_number := version_number w\<rparr>" by (simp add: w)
  show "0 < max_version_sequence v" using m by (simp add: word_gt_0)
qed

lemma version_incr_times:
  assumes "rfold (\<lambda>_. version_incr) (replicate k ()) v = Inr w"
    and "unat (version_number v) < unat (max_version_sequence v)"
  shows "w = v\<lparr>version_number := version_number w\<rparr> \<and>
    unat (version_number w) = (unat (version_number v) + k) mod unat (max_version_sequence v)"
  using assms
proof (induction k arbitrary: v)
  case 0
  then show ?case by simp
next
  case (Suc k)
  from Suc.prems(1) obtain u where u: "version_incr v = Inr u" "rfold (\<lambda>_. version_incr) (replicate k ()) u = Inr w"
    by (auto simp: rbind_Inr_iff)
  note step = version_incr_Inr [OF u(1)]
  have m: "max_version_sequence u = max_version_sequence v"
    by (subst step(1)) simp
  have "0 < unat (max_version_sequence v)" using step(3) by (simp add: unat_gt_0 word_gt_0)
  then have "unat (version_number u) < unat (max_version_sequence u)"
    using step(2) m by simp
  from Suc.IH [OF u(2) this]
  have w: "w = u\<lparr>version_number := version_number w\<rparr>"
      "unat (version_number w) = (unat (version_number u) + k) mod unat (max_version_sequence v)"
    using m by simp_all
  have "u\<lparr>version_number := version_number w\<rparr> = v\<lparr>version_number := version_number w\<rparr>"
    by (subst step(1)) simp
  then have "w = v\<lparr>version_number := version_number w\<rparr>" using w(1) by simp
  moreover have "unat (version_number w) = (unat (version_number v) + Suc k) mod unat (max_version_sequence v)"
    using w(2) step(2) by (simp add: mod_simps)
  ultimately show ?case by blast
qed

text \<open>
  A version reached from another by fewer than half a cycle of increments compares greater,
  also when the version number wrapped around in between (with a cycle of length 1 or 2 no
  wrapped version compares greater).
\<close>

theorem version_newer:
  assumes "rfold (\<lambda>_. version_incr) (replicate k ()) v = Inr w"
    and "unat (version_number v) < unat (max_version_sequence v)"
    and "0 < k" and "2 * k < unat (max_version_sequence v)"
  shows "version_lt v w \<and> version_gt w v"
proof -
  define a m where "a = unat (version_number v)" and "m = unat (max_version_sequence v)"
  note w = version_incr_times [OF assms(1,2)]
  have mw: "max_version_sequence w = max_version_sequence v"
    using w by (metis version.select_convs(2) version.surjective version.update_convs(1))
  have ua: "uint (version_number v) = int a" and um: "uint (max_version_sequence v) = int m"
    by (simp_all add: a_def m_def)
  have uw: "uint (version_number w) = int ((a + k) mod m)"
    using w by (simp add: a_def m_def uint_nat)
  have am: "a < m" "2 * k < m" using assms(2,4) by (simp_all add: a_def m_def)
  have "(a + k) mod m = (if a + k < m then a + k else a + k - m)"
    using am by (simp add: mod_if)
  moreover from this have ne: "version_number v \<noteq> version_number w"
    using ua uw am assms(3) by (auto split: if_splits)
  moreover have "v \<noteq> w" using ne by auto
  ultimately have "version_lt v w"
    using am assms(3) by (auto simp: version_lt_def Let_def ua um uw)
  moreover have "\<not> version_lt w v"
    using am assms(3) ne \<open>(a + k) mod m = _\<close> by (auto simp: version_lt_def Let_def ua um uw mw)
  ultimately show ?thesis
    using ne by (auto simp: version_gt_def version_le_def)
qed

theorem version_newer_witness:
  "version_lt (default_version\<lparr>version_number := 255\<rparr>) (default_version\<lparr>version_number := 1\<rparr>)"
proof -
  have two: "replicate 2 () = [(), ()]" by (simp add: numeral_2_eq_2)
  have "rfold (\<lambda>_. version_incr) (replicate 2 ()) (default_version\<lparr>version_number := 255\<rparr>) =
      Inr (default_version\<lparr>version_number := 1\<rparr>)"
    by (simp add: two version_incr_def default_version_def)
  from version_newer [OF this] show ?thesis by (simp add: default_version_def)
qed

end
