(* ===== verification/Span_Slices.thy ===== *)
theory Span_Slices
  imports Span_Properties
begin

text \<open>
  \<open>restrict\<close> on spans without empty chunks, as a recursion over the chunks (\<open>carve\<close>), with the
  algebra the property operations of a node need: cuts of cuts, cuts of concatenations,
  typed reads at the start of a carve, and writes that leave the rest of the span alone.
\<close>

abbreviation chunks_size :: "hchunk list \<Rightarrow> nat" where
  "chunks_size cs \<equiv> sum_list (map h_len cs)"

definition no_empty_chunk :: "hchunk list \<Rightarrow> bool" where
  "no_empty_chunk cs \<longleftrightarrow> (\<forall>c \<in> set cs. 0 < h_len c)"

lemma no_empty_chunk_simps [simp]:
  "no_empty_chunk []"
  "no_empty_chunk (c # cs) \<longleftrightarrow> 0 < h_len c \<and> no_empty_chunk cs"
  "no_empty_chunk (cs @ ds) \<longleftrightarrow> no_empty_chunk cs \<and> no_empty_chunk ds"
  by (auto simp: no_empty_chunk_def)

fun carve :: "hchunk list \<Rightarrow> nat \<Rightarrow> nat \<Rightarrow> hchunk list" where
  "carve [] s n = []"
| "carve (c # cs) s n =
     (if s + n \<le> h_len c then [c\<lparr>h_first := h_first c + s, h_len := n\<rparr>]
      else if h_len c \<le> s then carve cs (s - h_len c) n
      else c\<lparr>h_first := h_first c + s, h_len := h_len c - s\<rparr> # carve cs 0 (n - (h_len c - s)))"

lemma restrict_loop_prefix:
  "no_empty_chunk cs \<Longrightarrow> n < 2 ^ 64 \<Longrightarrow>
     restrict_loop (pre @ cs) (length pre) 0 n = pre @ carve cs 0 n"
proof (induction cs arbitrary: pre n)
  case Nil
  then show ?case by (subst restrict_loop.simps) simp
next
  case (Cons c cs)
  have rec: "restrict_loop (pre @ c # cs) (Suc (length pre)) 0 (n - h_len c) =
      (pre @ [c]) @ carve cs 0 (n - h_len c)"
    using Cons.IH [of "n - h_len c" "pre @ [c]"] Cons.prems by simp
  show ?case
    using Cons.prems rec by (subst restrict_loop.simps) (simp add: Let_def)
qed

lemma restrict_loop_carve:
  "no_empty_chunk cs \<Longrightarrow> s + n < 2 ^ 64 \<Longrightarrow> restrict_loop cs 0 s n = carve cs s n"
proof (induction cs arbitrary: s)
  case Nil
  then show ?case by (subst restrict_loop.simps) simp
next
  case (Cons c cs)
  have rec: "restrict_loop cs 0 (s - h_len c) n = carve cs (s - h_len c) n"
    using Cons by simp
  have more: "restrict_loop (c' # cs) (Suc 0) 0 m = c' # carve cs 0 m" if "m < 2 ^ 64" for m c'
    using restrict_loop_prefix [of cs m "[c']"] Cons.prems that by simp
  show ?case
    using Cons.prems rec more [of "n - (h_len c - s)" "c\<lparr>h_first := h_first c + s, h_len := h_len c - s\<rparr>"]
    by (subst restrict_loop.simps) (auto simp: Let_def)
qed

lemma span_restrict_carve:
  "no_empty_chunk (hs_chunks sp) \<Longrightarrow> s + n < 2 ^ 64 \<Longrightarrow>
     span_restrict sp s n = sp\<lparr>hs_chunks := carve (hs_chunks sp) s n\<rparr>"
  by (simp add: span_restrict_def restrict_loop_carve)

lemma carve_nonempty [simp]: "no_empty_chunk cs \<Longrightarrow> 0 < n \<Longrightarrow> no_empty_chunk (carve cs s n)"
  by (induction cs s n rule: carve.induct) auto

lemma chunks_size_carve [simp]: "s + n \<le> chunks_size cs \<Longrightarrow> chunks_size (carve cs s n) = n"
  by (induction cs s n rule: carve.induct) auto

lemma carve_not_Nil: "cs \<noteq> [] \<Longrightarrow> s + n \<le> chunks_size cs \<Longrightarrow> carve cs s n \<noteq> []"
proof (induction cs s n rule: carve.induct)
  case (2 c cs s n)
  then show ?case by (cases cs) auto
qed simp

lemma carve_carve:
  "no_empty_chunk cs \<Longrightarrow> 0 < n' \<Longrightarrow> s' + n' \<le> n \<Longrightarrow> s + n \<le> chunks_size cs \<Longrightarrow>
     carve (carve cs s n) s' n' = carve cs (s + s') n'"
proof (induction cs s n arbitrary: s' n' rule: carve.induct)
  case (2 c cs s n)
  show ?case
  proof (cases "s + n \<le> h_len c")
    case True
    then show ?thesis using 2 by (simp add: add.assoc)
  next
    case False
    show ?thesis
    proof (cases "h_len c \<le> s")
      case True
      then show ?thesis using 2 False by (simp add: add.commute)
    next
      case mid: False
      have IH: "carve (carve cs 0 (n - (h_len c - s))) t m = carve cs t m"
        if "0 < m" "t + m \<le> n - (h_len c - s)" for t m
        using "2.IH"(2) [OF False mid _ that] "2.prems" False mid by simp
      have off: "s' - (h_len c - s) = s + s' - h_len c" using mid by linarith
      show ?thesis
        using "2.prems" False mid IH [of n' "s' - (h_len c - s)"] IH [of "n' - (h_len c - s - s')" 0]
        unfolding off by (auto simp: add.assoc off)
    qed
  qed
qed simp

lemma carve_all: "no_empty_chunk cs \<Longrightarrow> carve cs 0 (chunks_size cs) = cs"
proof (induction cs)
  case (Cons c cs)
  then show ?case by (cases cs) auto
qed simp

lemma carve_append1:
  "0 < n \<Longrightarrow> s + n \<le> chunks_size cs \<Longrightarrow> carve (cs @ ds) s n = carve cs s n"
proof (induction cs s n rule: carve.induct)
  case (2 c cs s n)
  then show ?case by (cases "n - (h_len c - s) = 0") auto
qed simp

lemma carve_append2:
  "0 < n \<Longrightarrow> chunks_size cs \<le> s \<Longrightarrow> carve (cs @ ds) s n = carve ds (s - chunks_size cs) n"
  by (induction cs s n rule: carve.induct) auto

text \<open>The bytes of a carve.\<close>

abbreviation chunks_bytes :: "pool \<Rightarrow> hchunk list \<Rightarrow> byte list" where
  "chunks_bytes p cs \<equiv> concat (map (chunk_bytes p) cs)"

lemma length_chunks_bytes [simp]: "length (chunks_bytes p cs) = chunks_size cs"
  by (induction cs) auto

lemma chunk_bytes_part:
  "s + n \<le> h_len c \<Longrightarrow>
     chunk_bytes p (c\<lparr>h_first := h_first c + s, h_len := n\<rparr>) = take n (drop s (chunk_bytes p c))"
  by (intro nth_equalityI) (auto simp: chunk_bytes_def read_mem_def add.assoc)

lemma carve_bytes: "chunks_bytes p (carve cs s n) = take n (drop s (chunks_bytes p cs))"
proof (induction cs s n rule: carve.induct)
  case (2 c cs s n)
  then show ?case by (auto simp: chunk_bytes_part take_all)
qed simp

section \<open>Fields inside one chunk\<close>

definition field_ok :: "hchunk list \<Rightarrow> nat \<Rightarrow> nat \<Rightarrow> bool" where
  "field_ok cs s w \<longleftrightarrow> length (carve cs s w) = 1"

lemma field_ok_carve:
  "no_empty_chunk cs \<Longrightarrow> 0 < w \<Longrightarrow> o' + w \<le> n \<Longrightarrow> s + n \<le> chunks_size cs \<Longrightarrow>
     field_ok (carve cs s n) o' w \<longleftrightarrow> field_ok cs (s + o') w"
  by (simp add: field_ok_def carve_carve)

lemma field_ok_append1:
  "0 < w \<Longrightarrow> s + w \<le> chunks_size cs \<Longrightarrow> field_ok (cs @ ds) s w \<longleftrightarrow> field_ok cs s w"
  by (simp add: field_ok_def carve_append1)

lemma field_ok_append2:
  "0 < w \<Longrightarrow> chunks_size cs \<le> s \<Longrightarrow> field_ok (cs @ ds) s w \<longleftrightarrow> field_ok ds (s - chunks_size cs) w"
  by (simp add: field_ok_def carve_append2)

lemma field_ok_single: "s + w \<le> h_len c \<Longrightarrow> field_ok (c # cs) s w"
  by (simp add: field_ok_def)

lemma carve_field:
  assumes "field_ok cs s w" and "0 < w" and "w \<le> m" and "s + m \<le> chunks_size cs"
  shows "\<exists>d ds. carve cs s m = d # ds \<and> w \<le> h_len d \<and> carve cs s w = [d\<lparr>h_len := w\<rparr>]"
  using assms
proof (induction cs s m rule: carve.induct)
  case (1 s n)
  then show ?case by (simp add: field_ok_def)
next
  case (2 c cs s n)
  show ?case
  proof (cases "s + w \<le> h_len c")
    case True
    then show ?thesis using 2 by auto
  next
    case out: False
    show ?thesis
    proof (cases "h_len c \<le> s")
      case True
      then show ?thesis using 2 out by (auto simp: field_ok_def)
    next
      case False
      have "carve cs 0 (w - (h_len c - s)) \<noteq> []"
        using "2.prems" out False carve_not_Nil [of cs 0 "w - (h_len c - s)"] by (cases "cs = []") auto
      then show ?thesis
        using "2.prems" out False by (auto simp: field_ok_def)
    qed
  qed
qed

lemma iter_begin_Cons: "0 < h_len d \<Longrightarrow> iter_begin (d # ds) = (0, h_first d)"
  unfolding iter_begin_def by (subst skip_empty.simps) (simp add: iter_at_def)

lemma deref_begin:
  assumes "0 < w" and "w \<le> h_len d"
  shows "iter_deref p (d # ds) w (iter_begin (d # ds)) = Inr (take w (chunks_bytes p (d # ds)))"
  using assms by (simp add: iter_begin_Cons iter_deref_def take_chunk_bytes)

lemma deref_field:
  assumes "field_ok cs s w" and "0 < w" and "w \<le> m" and "s + m \<le> chunks_size cs"
  shows "iter_deref p (carve cs s m) w (iter_begin (carve cs s m)) = Inr (take w (drop s (chunks_bytes p cs)))"
proof -
  obtain d ds where d: "carve cs s m = d # ds" "w \<le> h_len d"
    using carve_field [OF assms] by blast
  have "take w (chunks_bytes p (d # ds)) = take w (drop s (chunks_bytes p cs))"
    using carve_bytes [of p cs s m] assms(3) by (simp only: d(1) [symmetric] take_take min_def) simp
  with deref_begin [OF assms(2) d(2)] show ?thesis by (simp only: d(1))
qed

section \<open>Chunks that do not overlap\<close>

definition disjoint_chunks :: "hchunk \<Rightarrow> hchunk \<Rightarrow> bool" where
  "disjoint_chunks c d \<longleftrightarrow> h_addr c \<noteq> h_addr d \<or> h_first c + h_len c \<le> h_first d \<or>
     h_first d + h_len d \<le> h_first c"

abbreviation separate :: "hchunk list \<Rightarrow> bool" where
  "separate cs \<equiv> sorted_wrt disjoint_chunks cs"

definition sub_chunk :: "hchunk \<Rightarrow> hchunk \<Rightarrow> bool" where
  "sub_chunk d c \<longleftrightarrow> h_addr d = h_addr c \<and> h_first c \<le> h_first d \<and>
     h_first d + h_len d \<le> h_first c + h_len c"

lemma disjoint_chunks_sym: "disjoint_chunks c d \<Longrightarrow> disjoint_chunks d c"
  by (auto simp: disjoint_chunks_def)

lemma disjoint_sub: "disjoint_chunks c d \<Longrightarrow> sub_chunk c' c \<Longrightarrow> sub_chunk d' d \<Longrightarrow> disjoint_chunks c' d'"
  by (auto simp: disjoint_chunks_def sub_chunk_def)

lemma carve_sub:
  "d \<in> set (carve cs s n) \<Longrightarrow> \<exists>c \<in> set cs. sub_chunk d c"
proof (induction cs s n rule: carve.induct)
  case (2 c cs s n)
  then show ?case by (fastforce simp: sub_chunk_def split: if_splits)
qed simp

lemma separate_carve: "separate cs \<Longrightarrow> separate (carve cs s n)"
proof (induction cs s n rule: carve.induct)
  case (2 c cs s n)
  have "disjoint_chunks (c\<lparr>h_first := h_first c + s, h_len := h_len c - s\<rparr>) d"
    if d: "d \<in> set (carve cs 0 m)" "\<not> h_len c \<le> s" for d m
  proof -
    obtain c' where "c' \<in> set cs" "sub_chunk d c'" using carve_sub [OF d(1)] by blast
    moreover from this "2.prems" have "disjoint_chunks c c'" by auto
    moreover have "sub_chunk (c\<lparr>h_first := h_first c + s, h_len := h_len c - s\<rparr>) c"
      using d(2) by (simp add: sub_chunk_def)
    ultimately show ?thesis using disjoint_sub by blast
  qed
  then show ?case using 2 by auto
qed simp

lemma chunk_bytes_write_disjoint:
  "disjoint_chunks c d \<Longrightarrow> length v \<le> h_len d \<Longrightarrow>
     chunk_bytes (write_mem p (h_addr d) (h_first d) v) c = chunk_bytes p c"
  by (intro nth_equalityI) (auto simp: chunk_bytes_def read_mem_def write_mem_def disjoint_chunks_def)

lemma chunks_bytes_write_disjoint:
  "\<forall>c \<in> set cs. disjoint_chunks c d \<Longrightarrow> length v \<le> h_len d \<Longrightarrow>
     chunks_bytes (write_mem p (h_addr d) (h_first d) v) cs = chunks_bytes p cs"
  by (induction cs) (auto simp: chunk_bytes_write_disjoint)

text \<open>A write into a field inside one chunk changes those bytes of the span and no others.\<close>

lemma write_field:
  assumes "separate cs" and "field_ok cs s (length v)" and "0 < length v" and "carve cs s (length v) = [d]"
    and "s + length v \<le> chunks_size cs"
  shows "chunks_bytes (write_mem p (h_addr d) (h_first d) v) cs =
    take s (chunks_bytes p cs) @ v @ drop (s + length v) (chunks_bytes p cs)"
  using assms
proof (induction cs s "length v" rule: carve.induct)
  case (1 s)
  then show ?case by simp
next
  case (2 c cs s)
  show ?case
  proof (cases "s + length v \<le> h_len c")
    case True
    then have d: "d = c\<lparr>h_first := h_first c + s, h_len := length v\<rparr>" using "2.prems"(4) by simp
    have "\<forall>b \<in> set cs. disjoint_chunks b d"
    proof
      fix b assume "b \<in> set cs"
      then have "disjoint_chunks c b" using "2.prems"(1) by simp
      then have "disjoint_chunks d b" using True by (rule_tac disjoint_sub [of c b]) (auto simp: d sub_chunk_def)
      then show "disjoint_chunks b d" by (rule disjoint_chunks_sym)
    qed
    then have "chunks_bytes (write_mem p (h_addr d) (h_first d) v) cs = chunks_bytes p cs"
      by (rule chunks_bytes_write_disjoint) (simp add: d)
    then show ?thesis
      using True chunk_bytes_write_inside [of s v c p] by (simp add: d)
  next
    case out: False
    show ?thesis
    proof (cases "h_len c \<le> s")
      case True
      have "carve cs (s - h_len c) (length v) = [d]" using "2.prems"(4) out True by simp
      moreover from this obtain c' where c': "c' \<in> set cs" "sub_chunk d c'"
        using carve_sub [of d cs "s - h_len c" "length v"] by auto
      moreover have "length v = h_len d"
        using chunks_size_carve [of "s - h_len c" "length v" cs] "2.prems"(5) True calculation(1) by simp
      moreover have "disjoint_chunks c d"
        using "2.prems"(1) c' by (auto intro!: disjoint_sub [of c c' c d] simp: sub_chunk_def)
      ultimately show ?thesis
        using "2.hyps"(1) [OF out True] "2.prems" out True
        by (simp add: chunk_bytes_write_disjoint field_ok_def)
    next
      case False
      then show ?thesis
        using carve_field [OF "2.prems"(2,3) order_refl "2.prems"(5)] "2.prems"(4) out
        by (auto simp: sub_chunk_def)
    qed
  qed
qed

lemma carve_Cons_cases:
  assumes "d \<in> set (carve (c # cs) s n)"
  shows "(h_addr d = h_addr c \<and> h_first c + s \<le> h_first d \<and> h_first d + h_len d \<le> h_first c + s + n \<and>
      sub_chunk d c) \<or> d \<in> set (carve cs (s - h_len c) (n - (h_len c - s)))"
  using assms by (auto simp: sub_chunk_def split: if_splits)

lemma carve_carve_disjoint:
  "separate cs \<Longrightarrow> s + n \<le> s' \<Longrightarrow> d \<in> set (carve cs s n) \<Longrightarrow> e \<in> set (carve cs s' n') \<Longrightarrow>
     disjoint_chunks d e"
proof (induction cs arbitrary: s n s' n')
  case (Cons c cs)
  have later: "disjoint_chunks x y" if "sub_chunk x c" "y \<in> set (carve cs t m)" for x y t m
    using carve_sub [OF that(2)] that(1) Cons.prems(1)
    by (auto intro: disjoint_sub simp: sub_chunk_def)
  from carve_Cons_cases [OF Cons.prems(3)] carve_Cons_cases [OF Cons.prems(4)]
  show ?case
  proof (elim disjE)
    assume "d \<in> set (carve cs (s - h_len c) (n - (h_len c - s)))"
      and "e \<in> set (carve cs (s' - h_len c) (n' - (h_len c - s')))"
    then show ?thesis
      by (rule Cons.IH [rotated 2]) (use Cons.prems in auto)
  next
    assume "d \<in> set (carve cs (s - h_len c) (n - (h_len c - s)))"
      and "h_addr e = h_addr c \<and> h_first c + s' \<le> h_first e \<and>
        h_first e + h_len e \<le> h_first c + s' + n' \<and> sub_chunk e c"
    then show ?thesis using later disjoint_chunks_sym by blast
  qed (use Cons.prems(2) later in \<open>auto simp: disjoint_chunks_def\<close>)
qed simp

lemma separate_carve_carve:
  "separate cs \<Longrightarrow> s + n \<le> s' \<Longrightarrow> separate (carve cs s n @ carve cs s' n')"
  by (auto simp: sorted_wrt_append separate_carve intro: carve_carve_disjoint)

end
