(* ===== verification/Node_Properties.thy ===== *)
theory Node_Properties
  imports Tree_Node Span_Slices
begin

text \<open>
  The typed properties of a node (\<open>tree_node.cpp\<close>, \<open>getPropertyValue\<close> to \<open>deleteProperty\<close>).
  The property data is one span holding the values in the order of \<open>property_infos\<close>: the fixed-size
  types as their bytes, everything else as eight bytes of length and then the bytes. Every
  operation walks the infos from the front, restricting the span past each property.
  A value of a fixed-size type is represented by its bytes in memory.
  The second half is the abstract view, a list of (info, bytes) pairs, and the lemmas that the
  operations implement lookup, update, insertion and deletion on it.
\<close>

section \<open>The operations\<close>

definition fixed_size :: "string \<Rightarrow> nat option" where
  "fixed_size t =
     (if t = ''int64'' \<or> t = ''uint64'' then Some 8
      else if t = ''float'' then Some 4
      else if t = ''double'' then Some 8
      else if t = ''bool'' then Some 1
      else None)"

text \<open>The size of the property at the front of the remaining data, length prefix included.\<close>

definition entry_size :: "pool \<Rightarrow> hspan \<Rightarrow> property_info \<Rightarrow> nat result" where
  "entry_size p rest info =
     (case fixed_size (fst info) of
        Some k \<Rightarrow> Inr k
      | None \<Rightarrow> rbind (iter_deref p (hs_chunks rest) 8 (iter_begin (hs_chunks rest)))
                  (\<lambda>bs. Inr (sz_add (un_le bs) 8)))"

text \<open>
  The loop all the operations share: walk to the target, giving the remaining data from there, the
  size of the target (of the last property if the target is not there) and the bytes walked over.
  \<open>chk\<close> is the assertion only \<open>getPropertyValueSpan\<close> makes.
\<close>

fun walk :: "pool \<Rightarrow> bool \<Rightarrow> property_info \<Rightarrow> property_info list \<Rightarrow> hspan \<Rightarrow> nat \<Rightarrow> nat \<Rightarrow>
    (hspan \<times> nat \<times> nat) result" where
  "walk p chk target [] rest cur tot = Inr (rest, cur, tot)"
| "walk p chk target (info # infos) rest cur tot =
     rbind (entry_size p rest info) (\<lambda>sz.
       if info = target then Inr (rest, sz, tot)
       else if chk \<and> span_size rest < sz then Inl Assertion_Failed
       else walk p chk target infos (span_restrict rest sz (sz_sub (span_size rest) sz)) sz
              (sz_add tot sz))"

definition find_name :: "string \<Rightarrow> property_info list \<Rightarrow> property_info option" where
  "find_name name infos = List.find (\<lambda>i. snd i = name) infos"

text \<open>\<open>getPropertyValue<T>\<close> for the type with the given name: size, bytes and span of the value.\<close>

definition get_property_value :: "pool \<Rightarrow> string \<Rightarrow> hspan node \<Rightarrow> string \<Rightarrow>
    (nat \<times> byte list \<times> hspan) result" where
  "get_property_value p t n name =
     (case fixed_size t of
        None \<Rightarrow> Inl (Invalid_Argument ''Unsupported type for propertyDataAs'')
      | Some w \<Rightarrow>
          if (t, name) \<notin> set (property_infos n)
          then Inl (Invalid_Argument (''Property not found when calling GetPropertyDataAs: '' @ name))
          else rbind (walk p False (t, name) (property_infos n) (property_data n) 0 0)
            (\<lambda>(rest, cur, tot).
               rbind (iter_deref p (hs_chunks rest) w (iter_begin (hs_chunks rest))) (\<lambda>v.
                 Inr (cur, v, span_restrict rest 0 w))))"

definition get_property_value_span :: "pool \<Rightarrow> hspan node \<Rightarrow> string \<Rightarrow> (nat \<times> hspan \<times> hspan) result" where
  "get_property_value_span p n name =
     (case find_name name (property_infos n) of
        None \<Rightarrow> Inl (Invalid_Argument (''Property not found when calling GetPropertyDataAs: '' @ name))
      | Some info \<Rightarrow>
          rbind (walk p True info (property_infos n) (property_data n) 0 0) (\<lambda>(rest, cur, tot).
            Inr (sz_sub cur 8, span_restrict rest 0 8, span_restrict rest 8 (sz_sub cur 8))))"

definition get_property_string :: "pool \<Rightarrow> hspan node \<Rightarrow> string \<Rightarrow> (nat \<times> string) result" where
  "get_property_string p n name =
     rbind (get_property_value_span p n name) (\<lambda>(size, size_span, data_span).
       rbind (iter_collect p (hs_chunks data_span) (span_size data_span) (iter_begin (hs_chunks data_span)))
         (\<lambda>bs. Inr (size, bs)))"

text \<open>\<open>setPropertyValue<T>\<close> writes into the memory the node shares with its copies.\<close>

definition set_property_value :: "pool \<Rightarrow> string \<Rightarrow> hspan node \<Rightarrow> string \<Rightarrow> byte list \<Rightarrow> pool \<times> unit result" where
  "set_property_value p t n name v =
     (case fixed_size t of
        None \<Rightarrow> (p, Inl (Invalid_Argument ''Unsupported type for propertyDataAs''))
      | Some w \<Rightarrow>
          if (t, name) \<notin> set (property_infos n)
          then (p, Inl (Invalid_Argument (''Property not found when calling SetPropertyDataAs: '' @ name)))
          else (case walk p False (t, name) (property_infos n) (property_data n) 0 0 of
              Inl e \<Rightarrow> (p, Inl e)
            | Inr (rest, cur, tot) \<Rightarrow>
                (case copy_type p (span_restrict rest 0 w) v None of
                   (q, Inl e) \<Rightarrow> (q, Inl e) | (q, Inr _) \<Rightarrow> (q, Inr ()))))"

definition set_property_value_span :: "pool \<Rightarrow> hspan node \<Rightarrow> string \<Rightarrow> hspan \<Rightarrow> pool \<times> hspan node result" where
  "set_property_value_span p n name data =
     (case find_name name (property_infos n) of
        None \<Rightarrow> (p, Inl (Invalid_Argument (''Property not found when calling SetPropertyDataAsBytes: '' @ name)))
      | Some info \<Rightarrow>
          (case walk p False info (property_infos n) (property_data n) 0 0 of
             Inl e \<Rightarrow> (p, Inl e)
           | Inr (rest, cur, tot) \<Rightarrow>
               let size_span = span_restrict rest 0 8;
                   prior = span_restrict (property_data n) 0 (sz_add tot 8) in
               (case iter_set p (hs_chunks size_span) (iter_begin (hs_chunks size_span))
                       (le_bytes 8 (span_size data)) of
                  (q, Inl e) \<Rightarrow> (q, Inl e)
                | (q, Inr _) \<Rightarrow>
                    let following = span_restrict (property_data n) (sz_add tot cur)
                          (sz_sub (sz_sub (span_size (property_data n)) tot) cur) in
                    (q, Inr (n\<lparr>property_data := span_compress (span_concat [prior, data, following])\<rparr>)))))"

definition set_property_string :: "pool \<Rightarrow> hspan node \<Rightarrow> string \<Rightarrow> string \<Rightarrow> pool \<times> hspan node result" where
  "set_property_string p n name v =
     (case span_of_data p (Payload_Header 0 4 (of_nat (length v))) v of
        (q, s) \<Rightarrow> set_property_value_span q n name s)"

text \<open>The position \<open>std::find\<close> gives, the end when the element is not there.\<close>

fun find_index :: "'a \<Rightarrow> 'a list \<Rightarrow> nat" where
  "find_index x [] = 0"
| "find_index x (y # ys) = (if y = x then 0 else Suc (find_index x ys))"

definition insert_at :: "nat \<Rightarrow> 'a \<Rightarrow> 'a list \<Rightarrow> 'a list" where
  "insert_at i x xs = take i xs @ x # drop i xs"

text \<open>
  \<open>insertProperty<T>\<close>: an index past the end is cut to the last property, which the new one is
  inserted before.
\<close>

definition insert_property :: "pool \<Rightarrow> string \<Rightarrow> hspan node \<Rightarrow> nat \<Rightarrow> string \<Rightarrow> byte list \<Rightarrow>
    pool \<times> hspan node result" where
  "insert_property p t n i name v =
     (if find_name name (property_infos n) \<noteq> None
      then (p, Inl (Invalid_Argument (''Property already exists: '' @ name)))
      else (case fixed_size t of
        None \<Rightarrow> (p, Inl (Invalid_Argument ''Unsupported type for propertyDataAs''))
      | Some w \<Rightarrow>
          let infos = property_infos n;
              next = (if infos = [] then ('''', '''') else infos ! min i (length infos - 1)) in
          (case walk p False next infos (property_data n) 0 0 of
             Inl e \<Rightarrow> (p, Inl e)
           | Inr (rest, cur, tot) \<Rightarrow>
               let prior = span_restrict (property_data n) 0 tot;
                   following = span_restrict (property_data n) tot
                     (sz_sub (span_size (property_data n)) tot) in
               (case span_of_data p (Payload_Header 0 0 (of_nat w)) v of
                  (q, s) \<Rightarrow>
                    (q, Inr (n\<lparr>property_data := span_compress (span_concat [prior, s, following]),
                               property_infos := insert_at (find_index next infos) (t, name) infos\<rparr>))))))"

definition insert_property_span :: "pool \<Rightarrow> hspan node \<Rightarrow> nat \<Rightarrow> string \<Rightarrow> string \<Rightarrow> hspan \<Rightarrow>
    pool \<times> hspan node result" where
  "insert_property_span p n i name t data =
     (if find_name name (property_infos n) \<noteq> None
      then (p, Inl (Invalid_Argument (''Property already exists: '' @ name)))
      else
        let infos = property_infos n;
            next = (if i < length infos then infos ! min i (length infos - 1) else ('''', '''')) in
        (case walk p False next infos (property_data n) 0 0 of
           Inl e \<Rightarrow> (p, Inl e)
         | Inr (rest, cur, tot) \<Rightarrow>
             let prior = span_restrict (property_data n) 0 tot;
                 following = span_restrict (property_data n) tot
                   (sz_sub (span_size (property_data n)) tot) in
             (case span_of_data p (Payload_Header 0 0 8) (le_bytes 8 (span_size data)) of
                (q, s) \<Rightarrow>
                  (q, Inr (n\<lparr>property_data := span_compress (span_concat [prior, s, data, following]),
                             property_infos := insert_at (find_index next infos) (t, name) infos\<rparr>)))))"

definition insert_property_string :: "pool \<Rightarrow> hspan node \<Rightarrow> nat \<Rightarrow> string \<Rightarrow> string \<Rightarrow> string \<Rightarrow>
    pool \<times> hspan node result" where
  "insert_property_string p n i name t v =
     (case span_of_data p (Payload_Header 0 4 (of_nat (length v))) v of
        (q, s) \<Rightarrow> insert_property_span q n i name t s)"

definition delete_property :: "pool \<Rightarrow> hspan node \<Rightarrow> string \<Rightarrow> hspan node result" where
  "delete_property p n name =
     (case find_name name (property_infos n) of
        None \<Rightarrow> Inr n
      | Some info \<Rightarrow>
          rbind (walk p False info (property_infos n) (property_data n) 0 0) (\<lambda>(rest, cur, tot).
            let prior = span_restrict (property_data n) 0 tot;
                following = span_restrict (property_data n) (sz_add tot cur)
                  (sz_sub (sz_sub (span_size (property_data n)) tot) cur) in
            Inr (n\<lparr>property_data := span_compress (span_concat [prior, following]),
                   property_infos := remove1 info (property_infos n)\<rparr>)))"

section \<open>The abstract view: a list of (info, bytes) pairs\<close>

type_synonym prop_value = "property_info \<times> byte list"

fun entry :: "prop_value \<Rightarrow> byte list" where
  "entry (info, v) =
     (case fixed_size (fst info) of Some _ \<Rightarrow> v | None \<Rightarrow> le_bytes 8 (length v) @ v)"

fun head_size :: "prop_value \<Rightarrow> nat" where
  "head_size (info, v) = (case fixed_size (fst info) of Some k \<Rightarrow> k | None \<Rightarrow> 8)"

fun prop_wf :: "prop_value \<Rightarrow> bool" where
  "prop_wf (info, v) =
     (case fixed_size (fst info) of Some k \<Rightarrow> length v = k | None \<Rightarrow> length v + 8 < 2 ^ 64)"

definition layout :: "prop_value list \<Rightarrow> byte list" where
  "layout ps = concat (map entry ps)"

lemma layout_simps [simp]:
  "layout [] = []"
  "layout (e # ps) = entry e @ layout ps"
  "layout (ps @ qs) = layout ps @ layout qs"
  by (simp_all add: layout_def)

text \<open>The fixed-size part of every property lies inside one chunk.\<close>

fun heads_ok :: "hchunk list \<Rightarrow> nat \<Rightarrow> prop_value list \<Rightarrow> bool" where
  "heads_ok cs s [] = True"
| "heads_ok cs s (e # es) \<longleftrightarrow> field_ok cs s (head_size e) \<and> heads_ok cs (s + length (entry e)) es"

definition chunk_wf :: "pool \<Rightarrow> hchunk \<Rightarrow> bool" where
  "chunk_wf p c \<longleftrightarrow> chunk_ok p c \<and> 0 < h_first c \<and>
     mem p (h_addr c) 0 \<in> {CHR 0x00, CHR 0x01, CHR 0x02}"

definition laid_out :: "pool \<Rightarrow> hchunk list \<Rightarrow> prop_value list \<Rightarrow> bool" where
  "laid_out p cs ps \<longleftrightarrow>
     no_empty_chunk cs \<and> separate cs \<and> (\<forall>c \<in> set cs. chunk_wf p c) \<and> chunks_size cs < 2 ^ 64 \<and>
     chunks_bytes p cs = layout ps \<and> heads_ok cs 0 ps \<and> (\<forall>e \<in> set ps. prop_wf e)"

text \<open>The node's infos and data say that its properties are \<open>ps\<close>, with distinct names.\<close>

definition node_props :: "pool \<Rightarrow> hspan node \<Rightarrow> prop_value list \<Rightarrow> bool" where
  "node_props p n ps \<longleftrightarrow> property_infos n = map fst ps \<and> distinct (map (snd \<circ> fst) ps) \<and>
     hs_type (property_data n) \<in> {0, 1, 2} \<and> laid_out p (hs_chunks (property_data n)) ps"

lemma fixed_size_pos: "fixed_size t = Some k \<Longrightarrow> 0 < k \<and> k \<le> 8"
  by (auto simp: fixed_size_def split: if_splits)

lemma head_size_pos [simp]: "0 < head_size e"
  by (cases e) (auto split: option.split dest: fixed_size_pos)

lemma head_size_le_entry: "prop_wf e \<Longrightarrow> head_size e \<le> length (entry e)"
  by (cases e) (auto split: option.splits)

lemma heads_ok_append [simp]:
  "heads_ok cs s (ps @ qs) \<longleftrightarrow> heads_ok cs s ps \<and> heads_ok cs (s + length (layout ps)) qs"
  by (induction ps arbitrary: s) (auto simp: add.assoc)

lemma heads_ok_carve:
  assumes "no_empty_chunk cs" and "s + n \<le> chunks_size cs"
  shows "\<forall>e \<in> set ps. prop_wf e \<Longrightarrow> t + length (layout ps) \<le> n \<Longrightarrow>
    heads_ok (carve cs s n) t ps \<longleftrightarrow> heads_ok cs (s + t) ps"
proof (induction ps arbitrary: t)
  case (Cons e ps)
  have "field_ok (carve cs s n) t (head_size e) \<longleftrightarrow> field_ok cs (s + t) (head_size e)"
    using Cons.prems head_size_le_entry [of e] assms by (intro field_ok_carve) auto
  then show ?case using Cons by (simp add: add.assoc)
qed simp

lemma heads_ok_append1:
  "\<forall>e \<in> set ps. prop_wf e \<Longrightarrow> s + length (layout ps) \<le> chunks_size cs \<Longrightarrow>
     heads_ok (cs @ ds) s ps \<longleftrightarrow> heads_ok cs s ps"
proof (induction ps arbitrary: s)
  case (Cons e ps)
  have "field_ok (cs @ ds) s (head_size e) \<longleftrightarrow> field_ok cs s (head_size e)"
    using Cons.prems head_size_le_entry [of e] by (intro field_ok_append1) auto
  then show ?case using Cons by simp
qed simp

lemma heads_ok_append2:
  "chunks_size cs \<le> s \<Longrightarrow> heads_ok (cs @ ds) s ps \<longleftrightarrow> heads_ok ds (s - chunks_size cs) ps"
proof (induction ps arbitrary: s)
  case (Cons e ps)
  have "s + length (entry e) - chunks_size cs = s - chunks_size cs + length (entry e)"
    using Cons.prems by linarith
  then show ?case using Cons by (simp add: field_ok_append2)
qed simp

text \<open>What \<open>compress\<close> leaves of a restricted span.\<close>

definition nonempties :: "hchunk list \<Rightarrow> hchunk list" where
  "nonempties cs = filter (\<lambda>c. h_len c \<noteq> 0) cs"

lemma nonempties_append [simp]: "nonempties (cs @ ds) = nonempties cs @ nonempties ds"
  by (simp add: nonempties_def)

lemma nonempties_id: "no_empty_chunk cs \<Longrightarrow> nonempties cs = cs"
  by (auto simp: nonempties_def no_empty_chunk_def filter_id_conv)

lemma nonempties_carve_0: "nonempties (carve cs s 0) = []"
proof (induction cs arbitrary: s)
  case (Cons c cs)
  show ?case
  proof (cases "s \<le> h_len c")
    case True
    then show ?thesis by (simp add: nonempties_def)
  next
    case False
    then have "carve (c # cs) s 0 = carve cs (s - h_len c) 0" by simp
    then show ?thesis by (simp only: Cons.IH)
  qed
qed (simp add: nonempties_def)

lemma nonempties_carve:
  "no_empty_chunk cs \<Longrightarrow> nonempties (carve cs s n) = (if n = 0 then [] else carve cs s n)"
  by (simp add: nonempties_carve_0 nonempties_id)

lemma chunk_wf_sub:
  assumes "chunk_wf p c" and "sub_chunk d c"
  shows "chunk_wf p d"
  using assms by (auto simp: chunk_wf_def chunk_ok_def sub_chunk_def)

lemma laid_out_size: "laid_out p cs ps \<Longrightarrow> chunks_size cs = length (layout ps)"
  by (metis laid_out_def length_chunks_bytes)

text \<open>Cutting a run of whole properties out of a layout, and putting layouts side by side.\<close>

lemma laid_out_carve:
  assumes "laid_out p cs (as @ bs @ xs)"
  shows "laid_out p (nonempties (carve cs (length (layout as)) (length (layout bs)))) bs"
proof (cases "layout bs = []")
  case True
  have "bs = []"
  proof (rule ccontr)
    assume "bs \<noteq> []"
    then obtain e es where "bs = e # es" by (cases bs) auto
    then show False
      using assms True head_size_le_entry [of e] head_size_pos [of e]
      by (auto simp: laid_out_def simp del: head_size_pos)
  qed
  with True show ?thesis by (simp add: nonempties_carve_0 laid_out_def)
next
  case False
  let ?s = "length (layout as)" and ?n = "length (layout bs)"
  note l = assms [unfolded laid_out_def]
  have size: "?s + ?n \<le> chunks_size cs" using laid_out_size [OF assms] by simp
  have "\<forall>d \<in> set (carve cs ?s ?n). chunk_wf p d"
    using l carve_sub chunk_wf_sub by blast
  moreover have "heads_ok (carve cs ?s ?n) 0 bs"
    using heads_ok_carve [OF _ size, of bs 0] l by simp
  moreover have "chunks_bytes p (carve cs ?s ?n) = layout bs"
    using l by (simp add: carve_bytes)
  ultimately show ?thesis
    using l False size chunks_size_carve [OF size]
    by (simp add: nonempties_carve laid_out_def separate_carve)
qed

lemma laid_out_append:
  assumes "laid_out p cs ps" and "laid_out p ds qs" and "separate (cs @ ds)"
    and "chunks_size cs + chunks_size ds < 2 ^ 64"
  shows "laid_out p (cs @ ds) (ps @ qs)"
proof -
  have "heads_ok (cs @ ds) 0 ps"
    using assms(1) laid_out_size [OF assms(1)] by (simp add: laid_out_def heads_ok_append1)
  moreover have "heads_ok (cs @ ds) (length (layout ps)) qs"
    using assms(2) laid_out_size [OF assms(1)] by (simp add: laid_out_def heads_ok_append2)
  ultimately show ?thesis using assms by (auto simp: laid_out_def)
qed

section \<open>The walk finds the property\<close>

lemma span_size_chunks [simp]: "span_size (s\<lparr>hs_chunks := cs\<rparr>) = chunks_size cs"
  by (simp add: span_size_def)

lemma un_le_length: "n < 2 ^ 64 \<Longrightarrow> un_le (le_bytes 8 n) = n"
  by (rule un_le_le_bytes_small) simp

lemma laid_out_parts:
  assumes "laid_out p cs (xs @ e # ys)"
  shows "no_empty_chunk cs" and "field_ok cs (length (layout xs)) (head_size e)" and "prop_wf e"
    and "chunks_bytes p cs = layout xs @ entry e @ layout ys"
    and "chunks_size cs = length (layout xs) + length (entry e) + length (layout ys)"
    and "chunks_size cs < 2 ^ 64" and "0 < length (entry e)"
    and "length (layout xs) + head_size e \<le> chunks_size cs"
proof -
  show "prop_wf e" using assms by (simp add: laid_out_def)
  then have h: "head_size e \<le> length (entry e)" by (rule head_size_le_entry)
  then show "0 < length (entry e)" using head_size_pos [of e] by linarith
  show sz: "chunks_size cs = length (layout xs) + length (entry e) + length (layout ys)"
    using laid_out_size [OF assms] by simp
  show "length (layout xs) + head_size e \<le> chunks_size cs" using sz h by simp
qed (use assms in \<open>simp_all add: laid_out_def\<close>)

lemma entry_size_laid_out:
  assumes "laid_out p cs (xs @ e # ys)"
  shows "entry_size p (s\<lparr>hs_chunks := carve cs (length (layout xs)) (chunks_size cs - length (layout xs))\<rparr>)
    (fst e) = Inr (length (entry e))"
proof (cases e)
  case (Pair info v)
  note l = laid_out_parts [OF assms]
  show ?thesis
  proof (cases "fixed_size (fst info)")
    case (Some k)
    then show ?thesis using l(3) by (simp add: Pair entry_size_def)
  next
    case None
    then have e: "entry e = le_bytes 8 (length v) @ v" "head_size e = 8" "length v + 8 < 2 ^ 64"
      using l(3) by (simp_all add: Pair)
    have "iter_deref p (carve cs (length (layout xs)) (chunks_size cs - length (layout xs))) 8
        (iter_begin (carve cs (length (layout xs)) (chunks_size cs - length (layout xs)))) =
        Inr (le_bytes 8 (length v))"
      using deref_field [of cs "length (layout xs)" 8 "chunks_size cs - length (layout xs)" p] l e by simp
    moreover have "un_le (le_bytes 8 (length v)) = length v"
      by (rule un_le_length) (use e(3) in simp)
    ultimately show ?thesis using None e(1,3) by (simp add: entry_size_def Pair)
  qed
qed

lemma walk_laid_out:
  assumes "laid_out p cs (xs @ ys @ e # zs)" and "fst e \<notin> fst ` set ys"
  shows "walk p chk (fst e) (map fst (ys @ e # zs))
      (s\<lparr>hs_chunks := carve cs (length (layout xs)) (chunks_size cs - length (layout xs))\<rparr>) cur (length (layout xs)) =
    Inr (s\<lparr>hs_chunks := carve cs (length (layout (xs @ ys))) (chunks_size cs - length (layout (xs @ ys)))\<rparr>,
      length (entry e), length (layout (xs @ ys)))"
  using assms
proof (induction ys arbitrary: xs cur)
  case Nil
  then show ?case using entry_size_laid_out [of p cs xs e zs s] by simp
next
  case (Cons f ys)
  let ?x = "length (layout xs)" and ?f = "length (entry f)"
  have lf: "laid_out p cs (xs @ f # (ys @ e # zs))" and le: "laid_out p cs ((xs @ f # ys) @ e # zs)"
    using Cons.prems(1) by simp_all
  note l = laid_out_parts [OF lf] and l' = laid_out_parts [OF le]
  have pos: "0 < chunks_size cs - ?x - ?f" using l'(5,7) by simp
  have "span_restrict (s\<lparr>hs_chunks := carve cs ?x (chunks_size cs - ?x)\<rparr>) ?f (chunks_size cs - ?x - ?f) =
      s\<lparr>hs_chunks := carve cs (?x + ?f) (chunks_size cs - ?x - ?f)\<rparr>"
    using l pos by (subst span_restrict_carve) (simp_all add: carve_carve)
  moreover have "chunks_size (carve cs ?x (chunks_size cs - ?x)) = chunks_size cs - ?x"
    by (rule chunks_size_carve) (use l(5) in simp)
  moreover have "sz_sub (chunks_size cs - ?x) ?f = chunks_size cs - ?x - ?f"
    by (rule sz_sub_le) (use l(5) in simp)
  moreover have "sz_add ?x ?f = ?x + ?f"
    by (rule sz_add_small) (use l(5,6) in simp)
  moreover have "?f \<le> chunks_size cs - ?x" using l(5) by simp
  moreover have "fst f \<noteq> fst e" using Cons.prems(2) by auto
  ultimately show ?case
    using Cons.IH [of "xs @ [f]" "?f"] Cons.prems entry_size_laid_out [OF lf, of s]
    by (simp add: diff_diff_add)
qed

text \<open>The walk of the operations, from the start of the node's property data.\<close>

lemma walk_node:
  assumes "node_props p n (xs @ e # ys)"
  defines "cs \<equiv> hs_chunks (property_data n)"
  shows "walk p chk (fst e) (property_infos n) (property_data n) 0 0 =
    Inr ((property_data n)\<lparr>hs_chunks := carve cs (length (layout xs)) (chunks_size cs - length (layout xs))\<rparr>,
      length (entry e), length (layout xs))"
proof -
  have l: "laid_out p cs ([] @ xs @ e # ys)" and infos: "property_infos n = map fst (xs @ e # ys)"
    using assms by (simp_all add: node_props_def)
  have "fst e \<notin> fst ` set xs"
    using assms(1) by (force simp: node_props_def)
  moreover have "carve cs 0 (chunks_size cs) = cs"
    using l by (simp add: laid_out_def carve_all)
  ultimately show ?thesis
    using walk_laid_out [OF l, of chk "property_data n" 0] infos by (simp add: cs_def)
qed

lemma find_name_append:
  "snd i \<notin> snd ` set is \<Longrightarrow> find_name (snd i) (is @ i # js) = Some i"
  by (induction "is") (auto simp: find_name_def)

lemma find_name_node:
  assumes "node_props p n (xs @ e # ys)"
  shows "find_name (snd (fst e)) (property_infos n) = Some (fst e)"
proof -
  have "property_infos n = map fst xs @ fst e # map fst ys"
    and "distinct (map (snd \<circ> fst) (xs @ e # ys))"
    using assms by (simp_all add: node_props_def)
  moreover from this(2) have "snd (fst e) \<notin> snd ` set (map fst xs)"
    by (simp add: image_comp)
  ultimately show ?thesis by (simp add: find_name_append)
qed

text \<open>Restricting the remaining data to a part of the property found.\<close>

lemma restrict_found:
  assumes "laid_out p cs (xs @ e # ys)" and "t + n \<le> length (entry e)" and "0 < n"
  defines "x \<equiv> length (layout xs)"
  shows "span_restrict (s\<lparr>hs_chunks := carve cs x (chunks_size cs - x)\<rparr>) t n = s\<lparr>hs_chunks := carve cs (x + t) n\<rparr>"
    and "chunks_bytes p (carve cs (x + t) n) = take n (drop t (entry e))"
proof -
  note l = laid_out_parts [OF assms(1)]
  have "chunks_size cs = x + length (entry e) + length (layout ys)" using l(5) by (simp add: x_def)
  then show "span_restrict (s\<lparr>hs_chunks := carve cs x (chunks_size cs - x)\<rparr>) t n = s\<lparr>hs_chunks := carve cs (x + t) n\<rparr>"
    using l(1,6,7) assms(2,3) by (subst span_restrict_carve) (simp_all add: carve_carve)
  show "chunks_bytes p (carve cs (x + t) n) = take n (drop t (entry e))"
    using l(4) assms(2) by (simp add: carve_bytes x_def)
qed

section \<open>Reading properties\<close>

text \<open>
  Reading a fixed-size property by name gives the size of its type, exactly the bytes stored
  for it and a span over them, wherever it stands among the node's properties.
\<close>

theorem get_property_value_reads:
  assumes "node_props p n (xs @ ((t, name), v) # ys)" and "fixed_size t = Some w"
  shows "\<exists>sp. get_property_value p t n name = Inr (w, v, sp) \<and> span_bytes p sp = v"
proof -
  let ?cs = "hs_chunks (property_data n)" and ?x = "length (layout xs)"
  have l: "laid_out p ?cs (xs @ ((t, name), v) # ys)" using assms(1) by (simp add: node_props_def)
  note parts = laid_out_parts [OF l]
  have v: "length v = w" and w: "0 < w"
    using parts(3) assms(2) fixed_size_pos [OF assms(2)] by simp_all
  have mem: "(t, name) \<in> set (property_infos n)" using assms(1) by (simp add: node_props_def)
  have d: "iter_deref p (carve ?cs ?x (chunks_size ?cs - ?x)) w
      (iter_begin (carve ?cs ?x (chunks_size ?cs - ?x))) = Inr v"
    using deref_field [of ?cs ?x w "chunks_size ?cs - ?x" p] parts assms(2) v w by simp
  have r: "span_restrict ((property_data n)\<lparr>hs_chunks := carve ?cs ?x (chunks_size ?cs - ?x)\<rparr>) 0 w =
      (property_data n)\<lparr>hs_chunks := carve ?cs ?x w\<rparr>"
    and b: "chunks_bytes p (carve ?cs ?x w) = v"
    using restrict_found(1) [OF l, of 0 w "property_data n"] restrict_found(2) [OF l, of 0 w] assms(2) v w
    by simp_all
  show ?thesis
    using walk_node [OF assms(1), of False] mem d r b assms(2) v
    by (simp add: get_property_value_def span_bytes_def)
qed

lemma get_property_string_core:
  assumes "node_props p n (xs @ ((t, name), v) # ys)" and "fixed_size t = None"
  shows "get_property_string p n name = Inr (length v, v)"
proof -
  let ?cs = "hs_chunks (property_data n)" and ?x = "length (layout xs)"
  let ?rest = "(property_data n)\<lparr>hs_chunks := carve ?cs ?x (chunks_size ?cs - ?x)\<rparr>"
  have l: "laid_out p ?cs (xs @ ((t, name), v) # ys)" using assms(1) by (simp add: node_props_def)
  note parts = laid_out_parts [OF l]
  have e: "length (entry ((t, name), v)) = length v + 8" using assms(2) by simp
  have "8 + length v < 2 ^ 64" and "0 < chunks_size ?cs - ?x" using parts(3,5) assms(2) by simp_all
  then have "span_restrict ?rest 8 (length v) =
      ?rest\<lparr>hs_chunks := carve (carve ?cs ?x (chunks_size ?cs - ?x)) 8 (length v)\<rparr>"
    using parts(1) by (subst span_restrict_carve) simp_all
  moreover have "chunks_bytes p (carve (carve ?cs ?x (chunks_size ?cs - ?x)) 8 (length v)) = v"
    using parts(4,5) assms(2) by (simp add: carve_bytes)
  ultimately have b: "span_bytes p (span_restrict ?rest 8 (length v)) = v"
    by (simp add: span_bytes_def)
  then have "get_property_value_span p n name =
      Inr (length v, span_restrict ?rest 0 8, span_restrict ?rest 8 (length v))"
    using walk_node [OF assms(1), of True] find_name_node [OF assms(1)] e
    by (simp add: get_property_value_span_def)
  then show ?thesis
    using iter_collect_span [of p "span_restrict ?rest 8 (length v)"] b
    by (simp add: get_property_string_def)
qed

text \<open>
  Reading a variable-size property by name gives its length and exactly its bytes.
\<close>

theorem get_property_string_reads:
  assumes "node_props p n (xs @ ((t, name), v) # ys)" and "fixed_size t = None"
  shows "get_property_string p n name = Inr (length v, v)"
  by (rule get_property_string_core [OF assms])

section \<open>Removing a property\<close>

lemma restrict_part:
  assumes "laid_out p cs (xs @ ys @ zs)"
  shows "span_restrict (s\<lparr>hs_chunks := cs\<rparr>) (length (layout xs)) (length (layout ys)) =
    s\<lparr>hs_chunks := carve cs (length (layout xs)) (length (layout ys))\<rparr>"
  using laid_out_size [OF assms] assms
  by (subst span_restrict_carve) (auto simp: laid_out_def)

lemma hs_chunks_self [simp]: "s\<lparr>hs_chunks := hs_chunks s\<rparr> = s"
  by simp

lemma span_concat_Cons: "span_concat (s # ss) = s\<lparr>hs_chunks := concat (map hs_chunks (s # ss))\<rparr>"
  by (cases s) (simp add: span_concat_def)

lemma span_restrict_chunks [simp]: "(span_restrict s a b)\<lparr>hs_chunks := cs\<rparr> = s\<lparr>hs_chunks := cs\<rparr>"
  by (simp add: span_restrict_def)

lemma separate_nonempties: "separate cs \<Longrightarrow> separate (nonempties cs)"
  by (simp add: nonempties_def sorted_wrt_filter)

text \<open>The parts before and after a run of properties, joined.\<close>

lemma laid_out_join:
  assumes "laid_out p cs (xs @ ys @ zs)"
  shows "laid_out p (nonempties (carve cs 0 (length (layout xs)) @
      carve cs (length (layout (xs @ ys))) (length (layout zs)))) (xs @ zs)"
proof -
  have a: "laid_out p (nonempties (carve cs 0 (length (layout xs)))) xs"
    using laid_out_carve [of p cs "[]" xs "ys @ zs"] assms by simp
  have b: "laid_out p (nonempties (carve cs (length (layout (xs @ ys))) (length (layout zs)))) zs"
    using laid_out_carve [of p cs "xs @ ys" zs "[]"] assms by simp
  have "separate (carve cs 0 (length (layout xs)) @ carve cs (length (layout (xs @ ys))) (length (layout zs)))"
    using assms by (intro separate_carve_carve) (simp_all add: laid_out_def)
  from separate_nonempties [OF this]
  have sep: "separate (nonempties (carve cs 0 (length (layout xs))) @
      nonempties (carve cs (length (layout (xs @ ys))) (length (layout zs))))"
    by (simp only: nonempties_append)
  have "length (layout (xs @ ys @ zs)) < 2 ^ 64"
    using laid_out_size [OF assms] assms by (simp add: laid_out_def)
  then have "length (layout xs) + length (layout zs) < 2 ^ 64" by simp
  then show ?thesis
    unfolding nonempties_append
    by (intro laid_out_append [OF a b sep]) (simp only: laid_out_size [OF a] laid_out_size [OF b])
qed

lemma find_name_split:
  "find_name name (map fst ps) = Some info \<Longrightarrow>
     \<exists>xs e ys. ps = xs @ e # ys \<and> fst e = info \<and> snd info = name"
proof (induction ps)
  case (Cons f ps)
  show ?case
  proof (cases "snd (fst f) = name")
    case True
    then have "fst f = info" using Cons.prems by (simp add: find_name_def)
    with True show ?thesis by (intro exI [of _ "[]"] exI [of _ f] exI [of _ ps]) simp
  next
    case False
    then obtain xs e ys where "ps = xs @ e # ys" "fst e = info" "snd info = name"
      using Cons by (auto simp: find_name_def)
    then show ?thesis by (metis append_Cons)
  qed
qed (simp add: find_name_def)

lemma distinct_others:
  "distinct (map f (xs @ e # ys)) \<Longrightarrow> g \<in> set (xs @ ys) \<Longrightarrow> f g \<noteq> f e"
  by (metis Un_iff disjoint_iff distinct.simps(2) distinct_append imageI list.set_intros(1)
      list.set_map list.simps(9) map_append set_append)

text \<open>
  Deleting a property removes it from the infos and its bytes from the data, and every other
  property keeps its value; deleting a name the node does not have changes nothing.
\<close>

theorem delete_property_removes:
  assumes "node_props p n ps"
  shows "case find_name name (map fst ps) of
      None \<Rightarrow> delete_property p n name = Inr n
    | Some info \<Rightarrow> \<exists>n'. delete_property p n name = Inr n' \<and>
        node_props p n' (filter (\<lambda>e. snd (fst e) \<noteq> name) ps)"
proof (cases "find_name name (map fst ps)")
  case None
  then show ?thesis using assms by (simp add: delete_property_def node_props_def)
next
  case (Some info)
  then obtain xs e ys where ps: "ps = xs @ e # ys" and e: "fst e = info" "snd info = name"
    using find_name_split by blast
  let ?cs = "hs_chunks (property_data n)"
  have np: "node_props p n (xs @ e # ys)" using assms ps by simp
  have l: "laid_out p ?cs (xs @ [e] @ ys)" and infos: "property_infos n = map fst (xs @ e # ys)"
    and dist: "distinct (map (snd \<circ> fst) (xs @ e # ys))"
    using np by (simp_all add: node_props_def)
  have sz: "chunks_size ?cs = length (layout xs) + length (entry e) + length (layout ys)"
    using laid_out_size [OF l] by simp
  have small: "chunks_size ?cs < 2 ^ 64" using l by (simp add: laid_out_def)
  have prior: "span_restrict (property_data n) 0 (length (layout xs)) =
      (property_data n)\<lparr>hs_chunks := carve ?cs 0 (length (layout xs))\<rparr>"
    using restrict_part [of p ?cs "[]" xs "[e] @ ys" "property_data n"] l by simp
  have following: "span_restrict (property_data n) (length (layout xs) + length (entry e)) (length (layout ys)) =
      (property_data n)\<lparr>hs_chunks := carve ?cs (length (layout xs) + length (entry e)) (length (layout ys))\<rparr>"
    using restrict_part [of p ?cs "xs @ [e]" ys "[]" "property_data n"] l by simp
  have arith: "sz_add (length (layout xs)) (length (entry e)) = length (layout xs) + length (entry e)"
    "sz_sub (sz_sub (span_size (property_data n)) (length (layout xs))) (length (entry e)) = length (layout ys)"
    using sz small by (simp_all add: span_size_def)
  have keep: "filter (\<lambda>e. snd (fst e) \<noteq> name) ps = xs @ ys"
  proof -
    have "snd (fst f) \<noteq> name" if "f \<in> set (xs @ ys)" for f
      using distinct_others [OF dist that] e by simp
    then show ?thesis using e by (simp add: ps filter_id_conv)
  qed
  have "fst e \<noteq> fst f" if "f \<in> set xs" for f
    using distinct_others [OF dist, of f] that by auto
  then have "fst e \<notin> set (map fst xs)" by auto
  then have gone: "remove1 info (property_infos n) = map fst (xs @ ys)"
    by (simp add: remove1_append infos e(1) [symmetric])
  have w: "walk p False info (property_infos n) (property_data n) 0 0 =
      Inr ((property_data n)\<lparr>hs_chunks := carve ?cs (length (layout xs)) (chunks_size ?cs - length (layout xs))\<rparr>,
        length (entry e), length (layout xs))"
    using walk_node [OF np, of False] e(1) by simp
  have f: "find_name name (property_infos n) = Some info"
    using find_name_node [OF np] e by simp
  let ?n' = "n\<lparr>property_data := (property_data n)\<lparr>hs_chunks := nonempties (carve ?cs 0 (length (layout xs)) @
      carve ?cs (length (layout (xs @ [e]))) (length (layout ys)))\<rparr>, property_infos := map fst (xs @ ys)\<rparr>"
  have "delete_property p n name = Inr ?n'"
    unfolding delete_property_def f w gone
    by (simp add: prior following arith span_concat_Cons span_compress_def nonempties_def w gone)
  moreover have "node_props p ?n' (xs @ ys)"
    using laid_out_join [OF l] np dist by (simp add: node_props_def)
  ultimately show ?thesis using Some keep by simp
qed

section \<open>Adding a property\<close>

text \<open>A span of a few bytes is one fresh chunk.\<close>

lemma span_of_data_small:
  assumes "0 < length v" and "length v \<le> 1194"
  shows "\<exists>q. span_of_data p (Payload_Header sg r d) v =
      (q, \<lparr>hs_chunks = [\<lparr>h_addr = next_addr p, h_first = 6, h_len = length v\<rparr>], hs_type = 2\<rparr>) \<and>
    extends p q \<and> chunk_wf q \<lparr>h_addr = next_addr p, h_first = 6, h_len = length v\<rparr> \<and>
    chunk_bytes q \<lparr>h_addr = next_addr p, h_first = 6, h_len = length v\<rparr> = v"
proof -
  let ?p1 = "write_mem (p\<lparr>next_addr := Suc (next_addr p)\<rparr>) (next_addr p) 0 (header_bytes (Payload_Header sg r d))"
  let ?q = "write_mem ?p1 (next_addr p) 6 v"
  have "span_of_data p (Payload_Header sg r d) v = fill ?p1
      \<lparr>hs_chunks = [\<lparr>h_addr = next_addr p, h_first = 6, h_len = 0\<rparr>], hs_type = 2\<rparr> v"
    by (simp add: span_of_data_def append_chunk_with_signal_def Let_def)
  also have "\<dots> = (?q, \<lparr>hs_chunks = [\<lparr>h_addr = next_addr p, h_first = 6, h_len = length v\<rparr>], hs_type = 2\<rparr>)"
    using assms by (subst fill.simps) (simp add: Let_def chunk_size_def min_def fill.simps [of _ _ "[]"])
  finally have eq: "span_of_data p (Payload_Header sg r d) v =
      (?q, \<lparr>hs_chunks = [\<lparr>h_addr = next_addr p, h_first = 6, h_len = length v\<rparr>], hs_type = 2\<rparr>)" .
  have "extends p ?q" by (auto simp: extends_def write_mem_def)
  moreover have "chunk_wf ?q \<lparr>h_addr = next_addr p, h_first = 6, h_len = length v\<rparr>"
    using assms by (simp add: chunk_wf_def chunk_ok_def chunk_size_def write_mem_def)
  moreover have "chunk_bytes ?q \<lparr>h_addr = next_addr p, h_first = 6, h_len = length v\<rparr> = v"
    by (intro nth_equalityI) (auto simp: chunk_bytes_def read_mem_def write_mem_def)
  ultimately show ?thesis using eq by blast
qed

lemma laid_out_extends:
  assumes "extends p q" and "laid_out p cs ps"
  shows "laid_out q cs ps"
proof -
  have c: "chunk_wf q c \<and> chunk_bytes q c = chunk_bytes p c" if "c \<in> set cs" for c
    using assms that
    by (auto simp: laid_out_def chunk_wf_def chunk_ok_def extends_def chunk_bytes_def read_mem_def)
  then have "chunks_bytes q cs = chunks_bytes p cs" by (metis map_eq_conv)
  with c assms(2) show ?thesis by (simp add: laid_out_def)
qed

lemma laid_out_addr: "laid_out p cs ps \<Longrightarrow> c \<in> set cs \<Longrightarrow> h_addr c < next_addr p"
  by (simp add: laid_out_def chunk_wf_def chunk_ok_def)

text \<open>Properties put between two runs of the properties of a node, in chunks of their own.\<close>

lemma laid_out_insert:
  assumes "laid_out p cs (xs @ ys)" and "laid_out p ds es" and "separate (cs @ ds)"
    and "chunks_size cs + chunks_size ds < 2 ^ 64"
  shows "laid_out p (nonempties (carve cs 0 (length (layout xs))) @ ds @
      nonempties (carve cs (length (layout xs)) (length (layout ys)))) (xs @ es @ ys)"
    (is "laid_out p (?a @ ds @ ?b) _")
proof -
  have a: "laid_out p ?a xs" using laid_out_carve [of p cs "[]" xs ys] assms(1) by simp
  have b: "laid_out p ?b ys" using laid_out_carve [of p cs xs ys "[]"] assms(1) by simp
  have ab: "separate (?a @ ?b)"
    using separate_nonempties [OF separate_carve_carve [of cs 0 "length (layout xs)" "length (layout xs)" "length (layout ys)"]]
      assms(1) by (simp add: laid_out_def)
  have d: "disjoint_chunks c d" if cd: "c \<in> set ?a \<union> set ?b" "d \<in> set ds" for c d
  proof -
    obtain c' where "c' \<in> set cs" "sub_chunk c c'"
      using cd(1) carve_sub [of c cs 0 "length (layout xs)"]
        carve_sub [of c cs "length (layout xs)" "length (layout ys)"]
      by (auto simp: nonempties_def)
    then show ?thesis
      using assms(3) cd(2) by (auto simp: sorted_wrt_append sub_chunk_def intro!: disjoint_sub [of c' d c d])
  qed
  have d': "disjoint_chunks c e" if "c \<in> set ds" "e \<in> set ?b" for c e
    using d [of e c] that by (auto intro: disjoint_chunks_sym)
  have sep: "separate (?a @ ds @ ?b)" "separate (ds @ ?b)"
    using ab d d' assms(2) by (auto simp: sorted_wrt_append laid_out_def)
  have size: "chunks_size cs = length (layout xs) + length (layout ys)"
    using laid_out_size [OF assms(1)] by simp
  have "laid_out p (ds @ ?b) (es @ ys)"
    by (rule laid_out_append [OF assms(2) b sep(2)])
      (use assms(4) size laid_out_size [OF b] in simp)
  then show ?thesis
    by (intro laid_out_append [OF a _ sep(1)])
      (use assms(4) size laid_out_size [OF a] laid_out_size [OF b] in simp_all)
qed

text \<open>The walk for an info the node does not have passes over everything.\<close>

lemma walk_miss:
  assumes "laid_out p cs (xs @ ys)" and "t \<notin> fst ` set ys"
  shows "\<exists>rest cur'. walk p False t (map fst ys)
      (s\<lparr>hs_chunks := carve cs (length (layout xs)) (chunks_size cs - length (layout xs))\<rparr>) cur (length (layout xs)) =
    Inr (rest, cur', length (layout (xs @ ys)))"
  using assms
proof (induction ys arbitrary: xs cur)
  case Nil
  then show ?case by simp
next
  case (Cons f ys)
  let ?x = "length (layout xs)" and ?f = "length (entry f)"
  have lf: "laid_out p cs (xs @ f # ys)" using Cons.prems(1) by simp
  note l = laid_out_parts [OF lf]
  have sz: "chunks_size (carve cs ?x (chunks_size cs - ?x)) = chunks_size cs - ?x"
    by (rule chunks_size_carve) (use l(5) in simp)
  have add: "sz_add ?x ?f = ?x + ?f" by (rule sz_add_small) (use l(5,6) in simp)
  have ne: "fst f \<noteq> t" using Cons.prems(2) by auto
  show ?case
  proof (cases "ys = []")
    case True
    then show ?thesis using entry_size_laid_out [OF lf, of s] ne add by simp
  next
    case False
    then obtain g zs where ys: "ys = g # zs" by (cases ys) auto
    have "laid_out p cs ((xs @ [f]) @ g # zs)" using Cons.prems(1) ys by simp
    from laid_out_parts(5,7) [OF this] have pos: "0 < chunks_size cs - ?x - ?f" by simp
    have "span_restrict (s\<lparr>hs_chunks := carve cs ?x (chunks_size cs - ?x)\<rparr>) ?f (chunks_size cs - ?x - ?f) =
        s\<lparr>hs_chunks := carve cs (?x + ?f) (chunks_size cs - ?x - ?f)\<rparr>"
      using l pos by (subst span_restrict_carve) (simp_all add: carve_carve)
    moreover have "sz_sub (chunks_size cs - ?x) ?f = chunks_size cs - ?x - ?f"
      by (rule sz_sub_le) (use l(5) in simp)
    ultimately show ?thesis
      using Cons.IH [of "xs @ [f]" ?f] Cons.prems entry_size_laid_out [OF lf, of s] sz add ne
      by (simp add: diff_diff_add)
  qed
qed

lemma walk_node_miss:
  assumes "node_props p n ps" and "t \<notin> fst ` set ps"
  shows "\<exists>rest cur. walk p False t (property_infos n) (property_data n) 0 0 = Inr (rest, cur, length (layout ps))"
proof -
  have l: "laid_out p (hs_chunks (property_data n)) ([] @ ps)" using assms(1) by (simp add: node_props_def)
  then have "carve (hs_chunks (property_data n)) 0 (chunks_size (hs_chunks (property_data n))) =
      hs_chunks (property_data n)"
    by (simp add: laid_out_def carve_all)
  then show ?thesis
    using walk_miss [OF l assms(2), of "property_data n" 0] assms(1) by (simp add: node_props_def)
qed

lemma find_index_append: "i \<notin> set is \<Longrightarrow> find_index i (is @ i # js) = length is"
  by (induction "is") auto

lemma find_index_miss: "i \<notin> set is \<Longrightarrow> find_index i is = length is"
  by (induction "is") auto

lemma distinct_infos:
  assumes "distinct (map (snd \<circ> fst) ps)"
  shows "distinct (map fst ps)"
proof -
  have "distinct (map snd (map fst ps))" using assms by simp
  then show ?thesis by (rule distinct_map [THEN iffD1, THEN conjunct1])
qed

text \<open>
  The common part of the two insertions: with the walk stopping after \<open>take i ps\<close>, the new data
  goes between the properties before and after that position.
\<close>

lemma insert_between:
  assumes "node_props p n ps" and "i \<le> length ps" and "extends p q"
    and "laid_out q ds [(info, v)]" and "separate (hs_chunks (property_data n) @ ds)"
    and "chunks_size (hs_chunks (property_data n)) + chunks_size ds < 2 ^ 64"
    and "snd info \<notin> (snd \<circ> fst) ` set ps"
  defines "x \<equiv> length (layout (take i ps))" and "s \<equiv> property_data n"
  shows "node_props q (n\<lparr>property_data :=
        s\<lparr>hs_chunks := nonempties (hs_chunks (span_restrict s 0 x) @ ds @
          hs_chunks (span_restrict s x (sz_sub (span_size s) x)))\<rparr>,
      property_infos := insert_at i info (property_infos n)\<rparr>)
    (take i ps @ (info, v) # drop i ps)"
proof -
  let ?cs = "hs_chunks s"
  have lp: "laid_out p ?cs (take i ps @ drop i ps)" using assms(1) by (simp add: node_props_def s_def)
  have l: "laid_out q ?cs (take i ps @ drop i ps)" by (rule laid_out_extends [OF assms(3) lp])
  have sz: "chunks_size ?cs = x + length (layout (drop i ps))"
    using laid_out_size [OF l] by (simp add: x_def del: append_take_drop_id)
  have small: "chunks_size ?cs < 2 ^ 64" using lp by (simp add: laid_out_def)
  have a: "hs_chunks (span_restrict s 0 x) = carve ?cs 0 x"
    using restrict_part [of p ?cs "[]" "take i ps" "drop i ps" s] lp by (simp add: x_def)
  have sub: "sz_sub (span_size s) x = length (layout (drop i ps))"
    using sz by (simp add: span_size_def)
  have b: "hs_chunks (span_restrict s x (sz_sub (span_size s) x)) = carve ?cs x (length (layout (drop i ps)))"
    using restrict_part [of p ?cs "take i ps" "drop i ps" "[]" s] lp unfolding sub by (simp add: x_def)
  have ds: "nonempties ds = ds"
    using assms(4) by (intro nonempties_id) (simp add: laid_out_def)
  have "laid_out q (nonempties (carve ?cs 0 x) @ ds @ nonempties (carve ?cs x (length (layout (drop i ps)))))
      (take i ps @ [(info, v)] @ drop i ps)"
    unfolding x_def by (rule laid_out_insert [OF l assms(4)]) (use assms(5,6) in \<open>simp_all add: s_def\<close>)
  moreover have "map fst (take i ps @ (info, v) # drop i ps) = insert_at i info (property_infos n)"
    using assms(1) by (simp add: node_props_def insert_at_def take_map drop_map)
  moreover have "distinct (map (snd \<circ> fst) (take i ps @ (info, v) # drop i ps))"
  proof -
    have "distinct (map (snd \<circ> fst) (take i ps) @ map (snd \<circ> fst) (drop i ps))"
      using assms(1) by (simp only: map_append [symmetric] append_take_drop_id node_props_def)
    moreover have "snd info \<notin> set (map (snd \<circ> fst) (take i ps) @ map (snd \<circ> fst) (drop i ps))"
      using assms(7) by (auto dest: in_set_takeD in_set_dropD)
    ultimately have "distinct (map (snd \<circ> fst) (take i ps) @ snd info # map (snd \<circ> fst) (drop i ps))"
      by (simp add: distinct_append)
    then show ?thesis by simp
  qed
  ultimately show ?thesis
    using assms(1) by (simp add: node_props_def a [unfolded s_def] b [unfolded s_def] ds s_def)
qed

lemma node_addr: "node_props p n ps \<Longrightarrow> c \<in> set (hs_chunks (property_data n)) \<Longrightarrow> h_addr c < next_addr p"
  by (auto simp: node_props_def dest: laid_out_addr)

lemma find_name_fresh: "name \<notin> snd ` set is \<Longrightarrow> find_name name is = None"
  by (force simp: find_name_def find_None_iff)

lemma node_infos: "node_props p n ps \<Longrightarrow> property_infos n = map fst ps"
  by (simp add: node_props_def)

text \<open>Where the walk stops for the info at position \<open>i\<close>.\<close>

lemma walk_node_at:
  assumes "node_props p n ps" and "i < length ps"
  shows "\<exists>rest cur. walk p False (property_infos n ! i) (property_infos n) (property_data n) 0 0 =
      Inr (rest, cur, length (layout (take i ps)))"
    and "find_index (property_infos n ! i) (property_infos n) = i"
proof -
  have ps: "ps = take i ps @ ps ! i # drop (Suc i) ps" by (rule id_take_nth_drop [OF assms(2)])
  have at: "property_infos n ! i = fst (ps ! i)" using assms by (simp add: node_props_def)
  show "\<exists>rest cur. walk p False (property_infos n ! i) (property_infos n) (property_data n) 0 0 =
      Inr (rest, cur, length (layout (take i ps)))"
    using walk_node [of p n "take i ps" "ps ! i" "drop (Suc i) ps" False] ps assms(1) at by auto
  have "distinct (map fst ps)" using assms(1) by (intro distinct_infos) (simp add: node_props_def)
  then have "distinct (map fst (take i ps @ ps ! i # drop (Suc i) ps))"
    by (simp only: ps [symmetric])
  then have "fst (ps ! i) \<notin> set (map fst (take i ps))" by simp
  moreover have "property_infos n = map fst (take i ps) @ fst (ps ! i) # map fst (drop (Suc i) ps)"
    using assms(1) by (subst node_infos [OF assms(1)], subst ps) simp
  ultimately show "find_index (property_infos n ! i) (property_infos n) = i"
    unfolding at using assms(2) by (simp add: find_index_append)
qed

text \<open>
  Inserting a fixed-size value under a new name before position \<open>i\<close> puts it there and keeps
  every other property; an index past the end does not append, as the header says, but inserts
  before the last property.
\<close>

theorem insert_property_inserts:
  assumes "node_props p n ps" and "fixed_size t = Some w" and "length v = w"
    and "name \<notin> (snd \<circ> fst) ` set ps" and "length (layout ps) + w < 2 ^ 64"
  shows "\<exists>q n'. insert_property p t n i name v = (q, Inr n') \<and>
    node_props q n' (take (min i (length ps - 1)) ps @ ((t, name), v) # drop (min i (length ps - 1)) ps)"
proof -
  let ?i = "min i (length ps - 1)" and ?infos = "property_infos n"
  define nxt where "nxt = (if ?infos = [] then ('''', '''') else ?infos ! min i (length ?infos - 1))"
  have infos: "?infos = map fst ps" using assms(1) by (rule node_infos)
  have "(\<exists>rest cur. walk p False nxt ?infos (property_data n) 0 0 = Inr (rest, cur, length (layout (take ?i ps)))) \<and>
      find_index nxt ?infos = ?i"
  proof (cases "ps = []")
    case True
    then show ?thesis by (simp add: infos)
  next
    case False
    then have "?i < length ps" by (cases ps) (auto simp: min_def)
    with walk_node_at [OF assms(1) this] False show ?thesis by (simp add: nxt_def infos)
  qed
  then have walk: "\<exists>rest cur. walk p False nxt ?infos (property_data n) 0 0 = Inr (rest, cur, length (layout (take ?i ps)))"
    and at: "find_index nxt ?infos = ?i" by blast+
  obtain rest cur where walk: "walk p False nxt ?infos (property_data n) 0 0 = Inr (rest, cur, length (layout (take ?i ps)))"
    using walk by blast
  have w: "0 < length v" "length v \<le> 1194" using fixed_size_pos [OF assms(2)] assms(3) by auto
  let ?c = "\<lparr>h_addr = next_addr p, h_first = 6, h_len = length v\<rparr>"
  obtain q where q: "span_of_data p (Payload_Header 0 0 (of_nat w)) v = (q, \<lparr>hs_chunks = [?c], hs_type = 2\<rparr>)"
      "extends p q" "chunk_wf q ?c" "chunk_bytes q ?c = v"
    using span_of_data_small [OF w, of p 0 0 "of_nat w"] by blast
  have new: "laid_out q [?c] [((t, name), v)]"
    using q(3,4) w assms(2,3) by (simp add: laid_out_def field_ok_single)
  have sep: "separate (hs_chunks (property_data n) @ [?c])"
    using assms(1) node_addr [OF assms(1)]
    by (fastforce simp: sorted_wrt_append node_props_def laid_out_def disjoint_chunks_def)
  have fresh: "find_name name ?infos = None"
    unfolding infos by (rule find_name_fresh) (use assms(4) in \<open>simp add: image_comp\<close>)
  have size: "chunks_size (hs_chunks (property_data n)) = length (layout ps)"
    using assms(1) by (auto simp: node_props_def dest: laid_out_size)
  have "?i \<le> length ps" by simp
  note ins = insert_between [OF assms(1) this q(2) new sep]
  show ?thesis
    using ins assms(3,4,5) w size
    by (simp add: insert_property_def fresh assms(2) Let_def nxt_def [symmetric] walk at q(1)
        span_concat_Cons span_compress_def nonempties_def del: min.cobounded2)
qed

text \<open>The two chunk runs of a variable-size value, its length and its bytes, laid out.\<close>

lemma laid_out_string:
  assumes "fixed_size t = None" and "chunk_wf q c" and "h_len c = 8"
    and "chunk_bytes q c = le_bytes 8 (length v)" and "no_empty_chunk ds" and "separate (c # ds)"
    and "\<forall>d \<in> set ds. chunk_wf q d" and "chunks_bytes q ds = v" and "length v + 8 < 2 ^ 64"
  shows "laid_out q (c # ds) [((t, name), v)]"
proof -
  have "chunks_size ds = length v" using assms(8) by (metis length_chunks_bytes)
  then show ?thesis
    using assms by (simp add: laid_out_def field_ok_single)
qed

lemma laid_out_outside:
  assumes "\<forall>c \<in> set cs. h_addr c < a" and "\<forall>d \<in> set ds. a \<le> h_addr d" and "separate cs" and "separate ds"
  shows "separate (cs @ ds)"
  using assms by (fastforce simp: sorted_wrt_append disjoint_chunks_def)

text \<open>
  Inserting a variable-size value under a new name at position \<open>i\<close> stores its length and its
  bytes there and keeps every other property; here an index past the end does append.
\<close>

theorem insert_property_span_inserts:
  assumes "node_props p n ps" and "fixed_size t = None" and "name \<notin> (snd \<circ> fst) ` set ps"
    and "('''', '''') \<notin> fst ` set ps" and "\<forall>d \<in> set (hs_chunks data). chunk_wf p d"
    and "separate (hs_chunks (property_data n) @ hs_chunks data)"
    and "length (layout ps) + span_size data + 8 < 2 ^ 64"
  shows "\<exists>q n'. insert_property_span p n i name t data = (q, Inr n') \<and>
    node_props q n' (take i ps @ ((t, name), span_bytes p data) # drop i ps)"
proof -
  let ?i = "min i (length ps)" and ?infos = "property_infos n" and ?ds = "nonempties (hs_chunks data)"
  define nxt where "nxt = (if i < length ?infos then ?infos ! min i (length ?infos - 1) else ('''', ''''))"
  have infos: "?infos = map fst ps" using assms(1) by (rule node_infos)
  have "(\<exists>rest cur. walk p False nxt ?infos (property_data n) 0 0 = Inr (rest, cur, length (layout (take ?i ps)))) \<and>
      find_index nxt ?infos = ?i"
  proof (cases "i < length ps")
    case True
    then have "min i (length ps - 1) = i" "?i = i" by auto
    with walk_node_at [OF assms(1) True] True show ?thesis by (simp add: nxt_def infos)
  next
    case False
    with walk_node_miss [OF assms(1) assms(4)] find_index_miss [of "('''', '''')" ?infos] assms(4)
    show ?thesis by (simp add: nxt_def infos)
  qed
  then obtain rest cur where walk: "walk p False nxt ?infos (property_data n) 0 0 =
      Inr (rest, cur, length (layout (take ?i ps)))" and at: "find_index nxt ?infos = ?i" by blast
  let ?c = "\<lparr>h_addr = next_addr p, h_first = 6, h_len = length (le_bytes 8 (span_size data))\<rparr>"
  obtain q where q: "span_of_data p (Payload_Header 0 0 8) (le_bytes 8 (span_size data)) = (q, \<lparr>hs_chunks = [?c], hs_type = 2\<rparr>)"
      "extends p q" "chunk_wf q ?c" "chunk_bytes q ?c = le_bytes 8 (span_size data)"
    using span_of_data_small [of "le_bytes 8 (span_size data)" p 0 0 8] by auto
  have old: "h_addr d < next_addr p" if "d \<in> set (hs_chunks (property_data n)) \<union> set (hs_chunks data)" for d
    using that node_addr [OF assms(1)] assms(5) by (auto simp: chunk_wf_def chunk_ok_def)
  have keep: "chunk_wf q d \<and> chunk_bytes q d = chunk_bytes p d" if "d \<in> set (hs_chunks data)" for d
    using assms(5) q(2) that
    by (auto simp: chunk_wf_def chunk_ok_def extends_def chunk_bytes_def read_mem_def)
  have bytes: "chunks_bytes q ?ds = span_bytes p data"
  proof -
    have "chunks_bytes q (nonempties cs) = chunks_bytes p cs" if "\<forall>d \<in> set cs. chunk_bytes q d = chunk_bytes p d" for cs
      using that by (induction cs) (auto simp: nonempties_def chunk_bytes_def read_mem_def)
    then show ?thesis using keep by (simp add: span_bytes_def)
  qed
  have len: "length (span_bytes p data) = span_size data" by simp
  have "disjoint_chunks ?c d" if "d \<in> set ?ds" for d
    using old [of d] that by (auto simp: nonempties_def disjoint_chunks_def)
  then have "separate (?c # ?ds)"
    using assms(6) by (auto simp: sorted_wrt_append separate_nonempties)
  moreover have "no_empty_chunk ?ds" by (simp add: no_empty_chunk_def nonempties_def)
  ultimately have new: "laid_out q (?c # ?ds) [((t, name), span_bytes p data)]"
    using q(3,4) keep bytes assms(2,7) len
    by (intro laid_out_string) (auto simp: nonempties_def simp del: le_bytes.simps)
  have size: "chunks_size (?c # ?ds) = span_size data + 8"
    using laid_out_size [OF new] assms(2) by simp
  have sep: "separate (hs_chunks (property_data n) @ ?c # ?ds)"
  proof -
    have "separate (hs_chunks (property_data n) @ ?ds)"
      using assms(6) by (auto simp: sorted_wrt_append nonempties_def sorted_wrt_filter)
    moreover have "disjoint_chunks d ?c" if "d \<in> set (hs_chunks (property_data n))" for d
      using old [of d] that by (simp add: disjoint_chunks_def)
    ultimately show ?thesis using \<open>separate (?c # ?ds)\<close> by (auto simp: sorted_wrt_append)
  qed
  have fresh: "find_name name ?infos = None"
    unfolding infos by (rule find_name_fresh) (use assms(3) in \<open>simp add: image_comp\<close>)
  have psize: "chunks_size (hs_chunks (property_data n)) = length (layout ps)"
    using assms(1) by (auto simp: node_props_def dest: laid_out_size)
  have le: "?i \<le> length ps" by simp
  note ins = insert_between [OF assms(1) le q(2) new sep]
  have tk: "take ?i ps = take i ps" "drop ?i ps = drop i ps" by (cases "i < length ps"; simp)+
  show ?thesis
    using ins assms(3,7) size psize unfolding tk
    by (simp add: insert_property_span_def fresh Let_def nxt_def [symmetric] walk at q(1) tk
        span_concat_Cons span_compress_def nonempties_def del: le_bytes.simps)
qed

section \<open>Writing a property\<close>

lemma chunk_wf_write:
  assumes "chunk_wf p c" and "0 < off"
  shows "chunk_wf (write_mem p a off v) c"
  using assms by (auto simp: chunk_wf_def chunk_ok_def write_mem_def)

lemma copy_into_field:
  assumes "chunk_wf p d" and "0 < length v" and "h_len d = length v" and "t \<in> {0, 1, 2}"
  shows "\<exists>pos. copy_type p \<lparr>hs_chunks = [d], hs_type = t\<rparr> v None =
    (write_mem p (h_addr d) (h_first d) v, Inr pos)"
  using assms by (intro copy_into_chunk) (simp_all add: chunk_wf_def chunk_ok_def)

lemma iter_set_field:
  assumes "chunk_wf p d" and "0 < length v" and "h_len d = length v"
  shows "iter_set p [d] (iter_begin [d]) v = (write_mem p (h_addr d) (h_first d) v, Inr ())"
proof -
  let ?t = "of_nat (of_char (mem p (h_addr d) 0)) :: u8"
  have "?t \<in> {0, 1, 2}" using assms(1) by (auto simp: chunk_wf_def)
  from copy_into_field [OF assms this] obtain pos where
    "copy_type p \<lparr>hs_chunks = [d], hs_type = ?t\<rparr> v (Some (h_first d, 0)) =
      (write_mem p (h_addr d) (h_first d) v, Inr pos)"
    by (auto simp: copy_type_def)
  then show ?thesis using assms(2,3) by (simp add: iter_set_def iter_begin_Cons)
qed

text \<open>The field of a property as a chunk, and what writing it does to the data.\<close>

lemma field_chunk:
  assumes "laid_out p cs (xs @ e # ys)"
  defines "w \<equiv> head_size e"
  shows "\<exists>d. carve cs (length (layout xs)) w = [d] \<and> h_len d = w \<and> chunk_wf p d \<and>
    (\<exists>c \<in> set cs. sub_chunk d c) \<and>
    (\<forall>v. length v = w \<longrightarrow> chunks_bytes (write_mem p (h_addr d) (h_first d) v) cs =
       layout xs @ v @ drop w (entry e) @ layout ys)"
proof -
  note l = laid_out_parts [OF assms(1)]
  have w: "0 < w" and we: "w \<le> length (entry e)" and
    fit: "length (layout xs) + w \<le> chunks_size cs" and ok: "field_ok cs (length (layout xs)) w"
    using l head_size_le_entry [of e] by (simp_all add: w_def)
  obtain d where d: "carve cs (length (layout xs)) w = [d]" "h_len d = w"
    using carve_field [OF ok w order_refl fit] chunks_size_carve [OF fit] by auto
  obtain c where c: "c \<in> set cs" "sub_chunk d c"
    using carve_sub [of d cs "length (layout xs)" w] d by auto
  have "chunk_wf p d" using c chunk_wf_sub assms(1) by (auto simp: laid_out_def)
  moreover have "chunks_bytes (write_mem p (h_addr d) (h_first d) v) cs =
      layout xs @ v @ drop w (entry e) @ layout ys" if "length v = w" for v
  proof -
    have "separate cs" using assms(1) by (simp add: laid_out_def)
    from write_field [OF this, of "length (layout xs)" v d p] show ?thesis
      using that ok w d fit we l(4) by simp
  qed
  ultimately show ?thesis using d c by blast
qed

text \<open>
  Writing a fixed-size property replaces its bytes in memory and nothing else: the node itself
  does not change, so the new value is what every copy of the node that shares the memory reads.
\<close>

theorem set_property_value_writes:
  assumes "node_props p n (xs @ ((t, name), v) # ys)" and "fixed_size t = Some w" and "length v' = w"
  shows "\<exists>q. set_property_value p t n name v' = (q, Inr ()) \<and> node_props q n (xs @ ((t, name), v') # ys)"
proof -
  let ?s = "property_data n" let ?cs = "hs_chunks ?s" and ?x = "length (layout xs)"
  have l: "laid_out p ?cs (xs @ ((t, name), v) # ys)" using assms(1) by (simp add: node_props_def)
  note parts = laid_out_parts [OF l]
  have v: "length v = w" and w: "0 < w" using parts(3) assms(2) fixed_size_pos [OF assms(2)] by simp_all
  obtain d where d: "carve ?cs ?x w = [d]" "h_len d = w" "chunk_wf p d"
    and b: "chunks_bytes (write_mem p (h_addr d) (h_first d) v') ?cs = layout xs @ v' @ layout ys"
    using field_chunk [OF l] assms(2,3) v by auto
  have r: "span_restrict (?s\<lparr>hs_chunks := carve ?cs ?x (chunks_size ?cs - ?x)\<rparr>) 0 w =
      \<lparr>hs_chunks = [d], hs_type = hs_type ?s\<rparr>"
    using restrict_found(1) [OF l, of 0 w ?s] assms(2) v w d(1) by (cases ?s) simp
  obtain pos where c: "copy_type p \<lparr>hs_chunks = [d], hs_type = hs_type ?s\<rparr> v' None =
      (write_mem p (h_addr d) (h_first d) v', Inr pos)"
    using copy_into_field [OF d(3), of v' "hs_type ?s"] d(2) w assms(1,3) by (auto simp: node_props_def)
  have mem: "(t, name) \<in> set (property_infos n)" using assms(1) by (simp add: node_props_def)
  have "set_property_value p t n name v' = (write_mem p (h_addr d) (h_first d) v', Inr ())"
    using walk_node [OF assms(1), of False] mem r c assms(2) by (simp add: set_property_value_def)
  moreover have "laid_out (write_mem p (h_addr d) (h_first d) v') ?cs (xs @ ((t, name), v') # ys)"
    using l b v assms(2,3) d(3) by (auto simp: laid_out_def chunk_wf_write chunk_wf_def [of p d])
  ultimately show ?thesis using assms(1) by (simp add: node_props_def)
qed

text \<open>
  Writing a variable-size property gives a node with the new bytes under that name, of any
  length, and every other property as before.
\<close>

theorem set_property_value_span_writes:
  assumes "node_props p n (xs @ ((t, name), v) # ys)" and "fixed_size t = None"
    and "\<forall>d \<in> set (hs_chunks data). chunk_wf p d"
    and "separate (hs_chunks (property_data n) @ hs_chunks data)"
    and "length (layout xs) + length (layout ys) + span_size data + 8 < 2 ^ 64"
  shows "\<exists>q n'. set_property_value_span p n name data = (q, Inr n') \<and>
    node_props q n' (xs @ ((t, name), span_bytes p data) # ys)"
proof -
  let ?s = "property_data n" let ?cs = "hs_chunks ?s" and ?x = "length (layout xs)" and ?y = "length (layout ys)"
  let ?v' = "span_bytes p data" and ?ds = "nonempties (hs_chunks data)"
  have l: "laid_out p ?cs (xs @ ((t, name), v) # ys)" using assms(1) by (simp add: node_props_def)
  note parts = laid_out_parts [OF l]
  have sz: "chunks_size ?cs = ?x + (8 + length v) + ?y" using parts(5) assms(2) by simp
  obtain d where d: "carve ?cs ?x 8 = [d]" "h_len d = 8" "chunk_wf p d" "\<exists>c \<in> set ?cs. sub_chunk d c"
    and b: "\<And>u. length u = 8 \<Longrightarrow> chunks_bytes (write_mem p (h_addr d) (h_first d) u) ?cs = layout xs @ u @ v @ layout ys"
    using field_chunk [OF l] assms(2) by auto
  define q where "q = write_mem p (h_addr d) (h_first d) (le_bytes 8 (span_size data))"
  note bq = b [of "le_bytes 8 (span_size data)", folded q_def, simplified]
  have wf: "chunk_wf q c" if "chunk_wf p c" for c
    using d(3) that by (simp add: q_def chunk_wf_write chunk_wf_def [of p d])
  have dd: "disjoint_chunks c d" if "c \<in> set (hs_chunks data)" for c
  proof -
    obtain c' where "c' \<in> set ?cs" "sub_chunk d c'" using d(4) by blast
    with assms(4) that have "disjoint_chunks d c"
      by (intro disjoint_sub [of c' c d c]) (auto simp: sorted_wrt_append sub_chunk_def)
    then show ?thesis by (rule disjoint_chunks_sym)
  qed
  have bytes: "chunks_bytes q ?ds = ?v'"
  proof -
    have "chunks_bytes q (hs_chunks data) = ?v'"
      using chunks_bytes_write_disjoint [of "hs_chunks data" d] dd d(2) by (simp add: q_def span_bytes_def)
    moreover have "chunks_bytes q (nonempties cs) = chunks_bytes q cs" for cs
      by (induction cs) (auto simp: nonempties_def chunk_bytes_def read_mem_def)
    ultimately show ?thesis by simp
  qed
  let ?prior = "carve ?cs 0 (?x + 8)" and ?foll = "nonempties (carve ?cs (?x + 8 + length v) ?y)"
  have vsz: "length ?v' = span_size data" by simp
  have small: "chunks_size ?cs < 2 ^ 64" by (rule parts(6))
  have psz: "chunks_size ?prior = ?x + 8" by (rule chunks_size_carve) (use sz in simp)
  have dsz: "chunks_size ?ds = span_size data" using bytes by (metis length_chunks_bytes vsz)
  have lys: "laid_out p ?foll ys"
    using laid_out_carve [of p ?cs "xs @ [((t, name), v)]" ys "[]"] l assms(2) by (simp add: add.assoc)
  have fbytes: "chunks_bytes q ?foll = layout ys"
  proof (cases "?y = 0")
    case False
    then show ?thesis using bq parts(1) by (simp add: nonempties_carve carve_bytes)
  qed (simp add: nonempties_carve_0)
  have pbytes: "chunks_bytes q ?prior = layout xs @ le_bytes 8 (span_size data)"
    using bq by (simp add: carve_bytes)
  have hx: "heads_ok ?prior 0 xs"
    using l sz heads_ok_carve [OF parts(1), of 0 "?x + 8" xs 0] by (simp add: laid_out_def)
  have he: "field_ok ?prior ?x 8"
    using parts(1,2) sz assms(2) by (subst field_ok_carve) simp_all
  have sep: "separate (?prior @ ?ds @ ?foll)"
  proof -
    have "separate (?prior @ carve ?cs (?x + 8 + length v) ?y)"
      using l by (intro separate_carve_carve) (simp_all add: laid_out_def)
    moreover have "disjoint_chunks c e" if "c \<in> set (carve ?cs k m)" "e \<in> set (hs_chunks data)" for c e k m
      using carve_sub [OF that(1)] assms(4) that(2) disjoint_sub [of _ e c e]
      by (auto simp: sorted_wrt_append sub_chunk_def)
    moreover from this have "disjoint_chunks e c" if "c \<in> set (carve ?cs k m)" "e \<in> set (hs_chunks data)" for c e k m
      using that disjoint_chunks_sym by blast
    ultimately show ?thesis
      using assms(4) by (auto simp: sorted_wrt_append nonempties_def sorted_wrt_filter)
  qed
  have new: "laid_out q (?prior @ ?ds @ ?foll) (xs @ ((t, name), ?v') # ys)"
    unfolding laid_out_def
  proof (intro conjI)
    show "no_empty_chunk (?prior @ ?ds @ ?foll)"
      using parts(1) lys by (simp add: laid_out_def) (simp add: no_empty_chunk_def nonempties_def)
    show "\<forall>c \<in> set (?prior @ ?ds @ ?foll). chunk_wf q c"
    proof -
      have "\<forall>c \<in> set ?foll. chunk_wf p c" and "\<forall>c \<in> set ?cs. chunk_wf p c"
        using lys l by (simp_all add: laid_out_def)
      moreover have "chunk_wf p c" if "c \<in> set ?prior" for c
        using carve_sub [OF that] chunk_wf_sub calculation(2) by blast
      moreover have "set ?ds \<subseteq> set (hs_chunks data)" by (simp add: nonempties_def)
      ultimately show ?thesis using assms(3) wf by auto
    qed
    show "chunks_size (?prior @ ?ds @ ?foll) < 2 ^ 64"
      using psz dsz laid_out_size [OF lys] assms(5) by simp
    show "chunks_bytes q (?prior @ ?ds @ ?foll) = layout (xs @ ((t, name), ?v') # ys)"
      using pbytes bytes fbytes vsz assms(2) by simp
    have "heads_ok (?ds @ ?foll) (span_size data) ys"
      using lys dsz by (simp add: heads_ok_append2 laid_out_def)
    then have "heads_ok (?prior @ ?ds @ ?foll) (?x + 8 + span_size data) ys"
      using psz by (simp add: heads_ok_append2)
    then show "heads_ok (?prior @ ?ds @ ?foll) 0 (xs @ ((t, name), ?v') # ys)"
      using hx he psz assms(2) vsz l
      by (simp add: heads_ok_append1 field_ok_append1 laid_out_def add.assoc)
    show "\<forall>e \<in> set (xs @ ((t, name), ?v') # ys). prop_wf e"
      using l assms(2,5) vsz by (auto simp: laid_out_def)
  qed (rule sep)
  have adds: "sz_add ?x 8 = ?x + 8" "sz_add ?x (8 + length v) = ?x + 8 + length v"
    "sz_sub (sz_sub (span_size ?s) ?x) (8 + length v) = ?y"
    using sz small by (simp_all add: span_size_def)
  have p1: "span_restrict ?s 0 (?x + 8) = ?s\<lparr>hs_chunks := ?prior\<rparr>"
    using span_restrict_carve [OF parts(1), of 0 "?x + 8"] sz small by simp
  have p2: "span_restrict ?s (?x + 8 + length v) ?y = ?s\<lparr>hs_chunks := carve ?cs (?x + 8 + length v) ?y\<rparr>"
    using span_restrict_carve [OF parts(1), of "?x + 8 + length v" ?y] sz small by simp
  have p3: "span_restrict (?s\<lparr>hs_chunks := carve ?cs ?x (chunks_size ?cs - ?x)\<rparr>) 0 8 = ?s\<lparr>hs_chunks := [d]\<rparr>"
    using restrict_found(1) [OF l, of 0 8 ?s] assms(2) d(1) by simp
  have set: "iter_set p [d] (iter_begin [d]) (le_bytes 8 (span_size data)) = (q, Inr ())"
    unfolding q_def by (rule iter_set_field [OF d(3)]) (use d(2) in \<open>simp_all del: le_bytes.simps\<close>)
  have w: "walk p False (t, name) (property_infos n) ?s 0 0 =
      Inr (?s\<lparr>hs_chunks := carve ?cs ?x (chunks_size ?cs - ?x)\<rparr>, 8 + length v, ?x)"
    using walk_node [OF assms(1), of False] assms(2) by simp
  have f: "find_name name (property_infos n) = Some (t, name)"
    using find_name_node [OF assms(1)] by simp
  have np: "nonempties ?prior = ?prior" using parts(1) by (simp add: nonempties_carve)
  have "set_property_value_span p n name data =
      (q, Inr (n\<lparr>property_data := ?s\<lparr>hs_chunks := ?prior @ ?ds @ ?foll\<rparr>\<rparr>))"
    unfolding set_property_value_span_def f option.case w sum.case prod.case Let_def p3 adds p1 p2
    using set np by (simp add: span_concat_Cons span_compress_def nonempties_def)
  then show ?thesis using new assms(1) by (simp add: node_props_def)
qed

section \<open>Copies share their memory\<close>

text \<open>
  C39: writing a string property through one copy of a node rewrites the length field in the memory
  the other copies still use: reading the property from another copy then reports the new length
  with the old bytes behind it (here the property is the node's first, its old value at least as
  long as the new one).
\<close>

theorem set_span_corrupts_copies:
  assumes "node_props p n (((t, name), v) # ys)" and "fixed_size t = None"
    and "\<forall>d \<in> set (hs_chunks data). chunk_wf p d"
    and "separate (hs_chunks (property_data n) @ hs_chunks data)"
    and "length (layout ys) + span_size data + 8 < 2 ^ 64" and "span_size data \<le> length v"
  shows "\<exists>q n'. set_property_value_span p n name data = (q, Inr n') \<and>
    get_property_string q n name = Inr (span_size data, take (span_size data) v)"
proof -
  let ?s = "property_data n" let ?cs = "hs_chunks ?s"
  have l: "laid_out p ?cs ([] @ ((t, name), v) # ys)" using assms(1) by (simp add: node_props_def)
  note parts = laid_out_parts [OF l]
  have infos: "property_infos n = (t, name) # map fst ys" using node_infos [OF assms(1)] by simp
  have all: "carve ?cs 0 (chunks_size ?cs) = ?cs" using parts(1) by (rule carve_all)
  obtain d where d: "carve ?cs 0 8 = [d]" "h_len d = 8" "chunk_wf p d"
    and b: "\<And>u. length u = 8 \<Longrightarrow> chunks_bytes (write_mem p (h_addr d) (h_first d) u) ?cs = u @ v @ layout ys"
    using field_chunk [OF l] assms(2) by auto
  have w: "walk p False (t, name) (property_infos n) ?s 0 0 = Inr (?s, 8 + length v, 0)"
    using walk_node [of p n "[]" "((t, name), v)" ys False] assms(1,2) all by simp
  have f: "find_name name (property_infos n) = Some (t, name)"
    by (simp add: infos find_name_def)
  have p3: "span_restrict ?s 0 8 = ?s\<lparr>hs_chunks := [d]\<rparr>"
    using span_restrict_carve [OF parts(1), of 0 8] d(1) by simp
  have set: "iter_set p [d] (iter_begin [d]) (le_bytes 8 (span_size data)) =
      (write_mem p (h_addr d) (h_first d) (le_bytes 8 (span_size data)), Inr ())"
    by (rule iter_set_field [OF d(3)]) (use d(2) in \<open>simp_all del: le_bytes.simps\<close>)
  define q where "q = write_mem p (h_addr d) (h_first d) (le_bytes 8 (span_size data))"
  have written: "\<exists>n'. set_property_value_span p n name data = (q, Inr n')"
    using set unfolding set_property_value_span_def f option.case w sum.case prod.case Let_def p3 q_def
    by simp
  have bytes: "chunks_bytes q ?cs = le_bytes 8 (span_size data) @ v @ layout ys"
    using b by (simp add: q_def del: le_bytes.simps)
  have sz: "chunks_size ?cs = 8 + length v + length (layout ys)" using parts(5) assms(2) by simp
  have "iter_deref q ?cs 8 (iter_begin ?cs) = Inr (le_bytes 8 (span_size data))"
    using deref_field [of ?cs 0 8 "chunks_size ?cs" q] parts(2) assms(2) sz all bytes by simp
  then have "walk q True (t, name) (property_infos n) ?s 0 0 = Inr (?s, span_size data + 8, 0)"
    using assms(2,5) by (simp add: infos entry_size_def un_le_length del: le_bytes.simps)
  then have get: "get_property_value_span q n name =
      Inr (span_size data, span_restrict ?s 0 8, span_restrict ?s 8 (span_size data))"
    by (simp add: get_property_value_span_def f)
  have "span_restrict ?s 8 (span_size data) = ?s\<lparr>hs_chunks := carve ?cs 8 (span_size data)\<rparr>"
    using span_restrict_carve [OF parts(1), of 8 "span_size data"] assms(5) by simp
  then have "span_bytes q (span_restrict ?s 8 (span_size data)) = take (span_size data) v"
    using bytes assms(6) by (simp add: span_bytes_def carve_bytes del: le_bytes.simps)
  then have "get_property_string q n name = Inr (span_size data, take (span_size data) v)"
    using iter_collect_span [of q "span_restrict ?s 8 (span_size data)"]
    by (simp add: get_property_string_def get)
  with written show ?thesis by blast
qed

section \<open>A concrete node\<close>

definition lion_props :: "prop_value list" where
  "lion_props = [((''string'', ''name''), ''leo''), ((''bool'', ''tame''), [CHR 0x01])]"

definition lion_bytes :: "byte list" where
  "lion_bytes = header_bytes (Payload_Header 0 0 12) @ layout lion_props"

definition lion_pool :: pool where
  "lion_pool = \<lparr>mem = (\<lambda>a i. if a = 0 \<and> i < 18 then lion_bytes ! i else CHR 0x00), next_addr = 2\<rparr>"

definition lion_node :: "hspan node" where
  "lion_node = (node_default \<lparr>hs_chunks = [\<lparr>h_addr = 0, h_first = 6, h_len = 12\<rparr>], hs_type = 2\<rparr>)
     \<lparr>label_rule := ''lion'', property_infos := map fst lion_props\<rparr>"

definition spare_span :: hspan where
  "spare_span = \<lparr>hs_chunks = [\<lparr>h_addr = 1, h_first = 6, h_len = 2\<rparr>], hs_type = 2\<rparr>"

lemma lion_layout: "layout lion_props = le_bytes 8 3 @ ''leo'' @ [CHR 0x01]"
  by (simp add: lion_props_def fixed_size_def numeral_3_eq_3 del: le_bytes.simps)

lemma lion_node_props: "node_props lion_pool lion_node lion_props"
proof -
  have len: "length lion_bytes = 18" by (simp add: lion_bytes_def lion_layout)
  have "chunk_bytes lion_pool \<lparr>h_addr = 0, h_first = 6, h_len = 12\<rparr> = map (mem lion_pool 0) [6..<18]"
    by (simp add: chunk_bytes_def read_mem_def)
  also have "\<dots> = map ((!) lion_bytes) [6..<18]"
    by (rule map_cong [OF refl]) (auto simp: lion_pool_def)
  also have "\<dots> = drop 6 (map ((!) lion_bytes) [0..<length lion_bytes])"
    unfolding drop_map drop_upt len by simp
  also have "\<dots> = drop 6 lion_bytes" by (simp only: map_nth)
  finally have b: "chunk_bytes lion_pool \<lparr>h_addr = 0, h_first = 6, h_len = 12\<rparr> = layout lion_props"
    by (simp add: lion_bytes_def del: le_bytes.simps)
  have "heads_ok [\<lparr>h_addr = 0, h_first = 6, h_len = 12\<rparr>] 0 lion_props"
    by (simp add: lion_props_def fixed_size_def field_ok_single)
  moreover have "\<forall>e \<in> set lion_props. prop_wf e"
    by (simp add: lion_props_def fixed_size_def)
  moreover have "chunk_wf lion_pool \<lparr>h_addr = 0, h_first = 6, h_len = 12\<rparr>"
    by (simp add: chunk_wf_def chunk_ok_def chunk_size_def lion_pool_def lion_bytes_def)
  ultimately show ?thesis
    using b by (simp add: node_props_def laid_out_def lion_node_def node_default_def) (simp add: lion_props_def)
qed

lemma spare_ok:
  "\<forall>d \<in> set (hs_chunks spare_span). chunk_wf lion_pool d"
  "separate (hs_chunks (property_data lion_node) @ hs_chunks spare_span)"
  "span_size spare_span = 2"
  by (simp_all add: spare_span_def chunk_wf_def chunk_ok_def chunk_size_def lion_pool_def lion_node_def
      node_default_def disjoint_chunks_def span_size_def)

lemma lion_types: "fixed_size ''bool'' = Some 1" "fixed_size ''string'' = None" "fixed_size ''int64'' = Some 8"
  by (simp_all add: fixed_size_def)

lemma spare_bytes: "span_bytes lion_pool spare_span = [CHR 0x00, CHR 0x00]"
  by (simp add: span_bytes_def chunk_bytes_def read_mem_def spare_span_def lion_pool_def upt_rec)

theorem get_property_value_reads_witness:
  "\<exists>sp. get_property_value lion_pool ''bool'' lion_node ''tame'' = Inr (1, [CHR 0x01], sp) \<and>
     span_bytes lion_pool sp = [CHR 0x01]"
  by (rule get_property_value_reads [of _ _ "[hd lion_props]" _ _ _ "[]"])
    (use lion_node_props in \<open>simp_all add: lion_props_def lion_types\<close>)

theorem get_property_string_reads_witness:
  "get_property_string lion_pool lion_node ''name'' = Inr (3, ''leo'')"
  using get_property_string_reads [of lion_pool lion_node "[]" "''string''" "''name''" "''leo''" "tl lion_props"]
    lion_node_props
  by (simp add: lion_props_def lion_types)

theorem delete_property_removes_witness:
  "\<exists>n'. delete_property lion_pool lion_node ''name'' = Inr n' \<and>
     node_props lion_pool n' [((''bool'', ''tame''), [CHR 0x01])]"
  using delete_property_removes [OF lion_node_props, of "''name''"]
  by (simp add: lion_props_def find_name_def)

theorem insert_property_inserts_witness:
  "\<exists>q n'. insert_property lion_pool ''int64'' lion_node 9 ''age'' (le_bytes 8 7) = (q, Inr n') \<and>
     node_props q n' [((''string'', ''name''), ''leo''), ((''int64'', ''age''), le_bytes 8 7),
       ((''bool'', ''tame''), [CHR 0x01])]"
  using insert_property_inserts [OF lion_node_props, of "''int64''" 8 "le_bytes 8 7" "''age''" 9]
  by (simp add: lion_layout lion_types del: le_bytes.simps) (simp add: lion_props_def del: le_bytes.simps)

theorem insert_property_span_inserts_witness:
  "\<exists>q n'. insert_property_span lion_pool lion_node 9 ''note'' ''text'' spare_span = (q, Inr n') \<and>
     node_props q n' (lion_props @ [((''text'', ''note''), [CHR 0x00, CHR 0x00])])"
  using insert_property_span_inserts [OF lion_node_props _ _ _ spare_ok(1,2), of "''text''" "''note''" 9]
  by (simp add: lion_layout spare_ok(3) spare_bytes fixed_size_def del: le_bytes.simps)
    (simp add: lion_props_def)

theorem set_property_value_writes_witness:
  "\<exists>q. set_property_value lion_pool ''bool'' lion_node ''tame'' [CHR 0x00] = (q, Inr ()) \<and>
     node_props q lion_node [((''string'', ''name''), ''leo''), ((''bool'', ''tame''), [CHR 0x00])]"
  using set_property_value_writes [of lion_pool lion_node "[hd lion_props]" "''bool''" "''tame''" "[CHR 0x01]" "[]"
      1 "[CHR 0x00]"] lion_node_props
  by (simp add: lion_props_def lion_types)

theorem set_property_value_span_writes_witness:
  "\<exists>q n'. set_property_value_span lion_pool lion_node ''name'' spare_span = (q, Inr n') \<and>
     node_props q n' [((''string'', ''name''), [CHR 0x00, CHR 0x00]), ((''bool'', ''tame''), [CHR 0x01])]"
  using set_property_value_span_writes [of lion_pool lion_node "[]" "''string''" "''name''" "''leo''"
      "tl lion_props" spare_span] lion_node_props spare_ok
  by (simp add: lion_props_def lion_types spare_bytes)

theorem set_span_corrupts_copies_witness:
  "\<exists>q n'. set_property_value_span lion_pool lion_node ''name'' spare_span = (q, Inr n') \<and>
     get_property_string q lion_node ''name'' = Inr (2, ''le'')"
  using set_span_corrupts_copies [of lion_pool lion_node "''string''" "''name''" "''leo''" "tl lion_props"
      spare_span] lion_node_props spare_ok
  by (simp add: lion_props_def lion_types)

end
