(* ===== verification/Memory_Tree.thy ===== *)
theory Memory_Tree
  imports Tree_Node
begin

text \<open>
  The in-memory tree (\<open>memory/include/memory_tree.h\<close>, \<open>memory/src/memory_tree.cpp\<close>): a \<open>std::map\<close>
  from labels to nodes with lookup, upsert, deletion along child links, and all-or-nothing
  transactions checked against the versions in the tree.
  Nodes carry the contents of their property data; storing a node goes through the copy assignment
  of \<open>TreeNode\<close>. The stream form of a tree and its \<open>operator==\<close> are not modelled.
\<close>

type_synonym vnode = "vspan node"
type_synonym tree = "(string \<times> vnode) list"

definition tree_get_node :: "tree \<Rightarrow> string \<Rightarrow> vnode option" where
  "tree_get_node t l = map_of t l"

fun tree_get_nodes :: "tree \<Rightarrow> string list \<Rightarrow> vnode list" where
  "tree_get_nodes t [] = []"
| "tree_get_nodes t (l # ls) =
     (case map_of t l of Some n \<Rightarrow> n # tree_get_nodes t ls | None \<Rightarrow> tree_get_nodes t ls)"

text \<open>\<open>tree_[label] = node\<close>.\<close>

definition tree_store :: "string \<Rightarrow> vnode \<Rightarrow> tree \<Rightarrow> tree" where
  "tree_store l n t = omap_insert l (node_assign n) t"

definition tree_upsert :: "vnode list \<Rightarrow> tree \<Rightarrow> tree" where
  "tree_upsert ns t = fold (\<lambda>n. tree_store (label_rule n) n) ns t"

lemma omap_erase_shorter: "map_of t k = Some n \<Longrightarrow> length (omap_erase k t) < length t"
proof (induction t)
  case (Cons p t)
  then show ?case
    using length_filter_le [of "\<lambda>p. fst p \<noteq> k" t]
    by (auto simp: omap_erase_def le_imp_less_Suc split: if_splits)
qed simp

text \<open>The work list of \<open>deleteNode\<close>; the last element is taken first.\<close>

function delete_loop :: "string \<Rightarrow> tree \<Rightarrow> string list \<Rightarrow> tree" where
  "delete_loop root t todo =
     (if todo = [] then t
      else
        let current = last todo; rest = butlast todo in
        (case map_of t current of
           None \<Rightarrow> delete_loop root t rest
         | Some n \<Rightarrow>
             delete_loop root (omap_erase current t)
               (rest @ filter (\<lambda>c. str_find c root \<noteq> None) (get_absolute_child_names n))))"
  by pat_completeness auto

termination delete_loop
  by (relation "measures [\<lambda>(root, t, todo). length t, \<lambda>(root, t, todo). length todo]")
    (auto simp: omap_erase_shorter)

declare delete_loop.simps [simp del]

definition tree_delete :: "string \<Rightarrow> tree \<Rightarrow> tree \<times> bool" where
  "tree_delete l t =
     (case map_of t l of
        None \<Rightarrow> (t, False)
      | Some n \<Rightarrow> (delete_loop l (omap_erase l t) (get_absolute_child_names n), True))"

definition tree_query :: "tree \<Rightarrow> string \<Rightarrow> vnode list" where
  "tree_query t l = map snd (filter (\<lambda>(k, n). str_find k l \<noteq> None) t)"

definition tree_full :: "tree \<Rightarrow> vnode list" where
  "tree_full t = map snd t"

section \<open>Transactions\<close>

text \<open>The check of one changed child against the tree.\<close>

fun child_ok :: "tree \<Rightarrow> vspan new_node_version \<Rightarrow> bool" where
  "child_ok t (ov, l, m) =
     (case map_of t l of
        Some old \<Rightarrow>
          (case ov of None \<Rightarrow> m = None | Some v \<Rightarrow> version_number (node_version old) = v)
      | None \<Rightarrow> ov = None)"

fun can_perform :: "tree \<Rightarrow> vspan sub_transaction \<Rightarrow> bool result" where
  "can_perform t ((ov, l, m), children) =
     (case map_of t l of
        None \<Rightarrow> Inr (ov = None)
      | Some old \<Rightarrow>
          let v = node_version old in
          if Some (version_number v) \<noteq> ov then Inr False
          else if max_version_sequence v = 0 then Inl Undefined_Behaviour
          else if Some (of_nat ((unat (version_number v) + 1) mod unat (max_version_sequence v))) \<noteq>
                  map_option (\<lambda>n. version_number (node_version n)) m then Inr False
          else Inr (\<forall>c \<in> set children. child_ok t c))"

fun perform_child :: "vspan new_node_version \<Rightarrow> tree \<Rightarrow> tree" where
  "perform_child (ov, l, m) t = (case m of Some n \<Rightarrow> tree_store l n t | None \<Rightarrow> omap_erase l t)"

fun perform_sub :: "vspan sub_transaction \<Rightarrow> tree \<Rightarrow> tree" where
  "perform_sub ((ov, l, m), children) t =
     fold perform_child children
       (case m of Some n \<Rightarrow> tree_store (label_rule n) n t | None \<Rightarrow> omap_erase l t)"

definition invalid_transaction :: "vspan sub_transaction \<Rightarrow> err" where
  "invalid_transaction s =
     Runtime_Error (''Transaction is not valid: '' @ fst (snd (fst s)) @ '' with '' @
       to_dec (length (snd s)) @ '' modified children.'')"

fun check_subs :: "tree \<Rightarrow> vspan transaction \<Rightarrow> unit result" where
  "check_subs t [] = Inr ()"
| "check_subs t (s # ss) =
     rbind (can_perform t s) (\<lambda>ok. if ok then check_subs t ss else Inl (invalid_transaction s))"

text \<open>All checks come first, every one of them against the tree before the transaction.\<close>

definition tree_apply :: "vspan transaction \<Rightarrow> tree \<Rightarrow> tree \<times> bool result" where
  "tree_apply tr t =
     (case check_subs t tr of
        Inl e \<Rightarrow> (t, Inl e)
      | Inr _ \<Rightarrow> (fold perform_sub tr t, Inr True))"

section \<open>Invariant\<close>

text \<open>A map in order, whose keys are the labels of the nodes stored under them.\<close>

definition keyed :: "tree \<Rightarrow> bool" where
  "keyed t \<longleftrightarrow> omap_ok t \<and> (\<forall>(k, n) \<in> set t. label_rule n = k)"

lemma label_node_assign [simp]: "label_rule (node_assign n) = label_rule n"
  by (simp add: node_assign_def)

lemma child_names_node_assign [simp]: "child_names (node_assign n) = child_names n"
  by (simp add: node_assign_def)

lemma version_node_assign [simp]: "node_version (node_assign n) = node_version n"
  by (simp add: node_assign_def)

lemma map_of_store [simp]: "map_of (tree_store l n t) = (map_of t)(l \<mapsto> node_assign n)"
  by (simp add: tree_store_def)

lemma keyed_map_of: "keyed t \<Longrightarrow> map_of t l = Some n \<Longrightarrow> label_rule n = l"
  by (auto simp: keyed_def dest: map_of_SomeD)

lemma keyed_omap: "keyed t \<Longrightarrow> omap_ok t"
  by (simp add: keyed_def)

lemma keyedI: "omap_ok t \<Longrightarrow> (\<And>l n. map_of t l = Some n \<Longrightarrow> label_rule n = l) \<Longrightarrow> keyed t"
  by (auto simp: keyed_def omap_map_of_mem)

lemma omap_ok_store [simp]: "omap_ok t \<Longrightarrow> omap_ok (tree_store l n t)"
  by (simp add: tree_store_def)

lemma keyed_store: "keyed t \<Longrightarrow> label_rule n = l \<Longrightarrow> keyed (tree_store l n t)"
  by (rule keyedI) (auto simp: keyed_map_of keyed_omap split: if_splits)

lemma keyed_erase: "keyed t \<Longrightarrow> keyed (omap_erase l t)"
  by (auto simp: keyed_def omap_erase_def omap_ok_def sorted_wrt_map intro: sorted_wrt_filter)

lemma keyed_Nil [simp]: "keyed []"
  by (simp add: keyed_def)

text \<open>The labels a transaction stores nodes under are the labels of those nodes.\<close>

fun child_keyed :: "vspan new_node_version \<Rightarrow> bool" where
  "child_keyed (ov, l, m) = (case m of None \<Rightarrow> True | Some n \<Rightarrow> label_rule n = l)"

lemma keyed_upsert: "keyed t \<Longrightarrow> keyed (tree_upsert ns t)"
  unfolding tree_upsert_def by (induction ns arbitrary: t) (auto simp: keyed_store)

lemma keyed_delete_loop: "keyed t \<Longrightarrow> keyed (delete_loop root t todo)"
proof (induction root t todo rule: delete_loop.induct)
  case (1 root t todo)
  then show ?case
    by (subst delete_loop.simps) (auto simp: Let_def keyed_erase split: option.split)
qed

lemma keyed_perform_children:
  "keyed t \<Longrightarrow> \<forall>c \<in> set cs. child_keyed c \<Longrightarrow> keyed (fold perform_child cs t)"
proof (induction cs arbitrary: t)
  case (Cons c cs)
  obtain ov l m where c: "c = (ov, l, m)" by (cases c)
  have "keyed (perform_child c t)"
    using Cons.prems by (auto simp: c keyed_store keyed_erase split: option.splits)
  then show ?case using Cons by simp
qed simp

lemma keyed_perform_sub:
  assumes "keyed t" and "\<forall>c \<in> set (snd s). child_keyed c"
  shows "keyed (perform_sub s t)"
proof -
  obtain ov l m cs where s: "s = ((ov, l, m), cs)" by (metis prod.collapse)
  show ?thesis
    using assms by (auto simp: s keyed_store keyed_erase split: option.split intro!: keyed_perform_children)
qed

lemma keyed_perform:
  "keyed t \<Longrightarrow> \<forall>s \<in> set tr. \<forall>c \<in> set (snd s). child_keyed c \<Longrightarrow> keyed (fold perform_sub tr t)"
  by (induction tr arbitrary: t) (auto simp: keyed_perform_sub)

section \<open>Lookup after each operation\<close>

text \<open>The node an upsert leaves under a label: the last of the list that carries it.\<close>

definition last_with :: "vnode list \<Rightarrow> string \<Rightarrow> vnode option" where
  "last_with ns l = List.find (\<lambda>n. label_rule n = l) (rev ns)"

lemma last_with_simps [simp]:
  "last_with [] l = None"
  "last_with (ns @ [n]) l = (if label_rule n = l then Some n else last_with ns l)"
  by (simp_all add: last_with_def)

lemma map_of_upsert:
  "map_of (tree_upsert ns t) l =
     (case last_with ns l of Some n \<Rightarrow> Some (node_assign n) | None \<Rightarrow> map_of t l)"
  by (induction ns rule: rev_induct) (auto simp: tree_upsert_def)

text \<open>
  After an upsert, looking up a label gives the copy-assigned last node of the list with that
  label, and what was there before for every other label.
\<close>

theorem upsert_lookup:
  "tree_get_node (tree_upsert ns t) l =
     (case last_with ns l of Some n \<Rightarrow> Some (node_assign n) | None \<Rightarrow> tree_get_node t l)"
  by (simp add: tree_get_node_def map_of_upsert split: option.split)

text \<open>
  The labels deletion reaches from a set of labels: links between existing nodes lead to them,
  through absolute child names.
\<close>

inductive reach :: "tree \<Rightarrow> string set \<Rightarrow> string \<Rightarrow> bool" for t S where
  start: "l \<in> S \<Longrightarrow> reach t S l"
| link: "reach t S m \<Longrightarrow> map_of t m = Some n \<Longrightarrow> c \<in> set (get_absolute_child_names n) \<Longrightarrow> reach t S c"

lemma reach_mono: "reach t S l \<Longrightarrow> S \<subseteq> T \<Longrightarrow> reach t T l"
  by (induction rule: reach.induct) (auto intro: reach.intros)

lemma reach_sub_tree: "reach (omap_erase k t) S l \<Longrightarrow> reach t S l"
  by (induction rule: reach.induct) (auto intro: reach.intros split: if_splits)

lemma reach_below:
  "reach t S l \<Longrightarrow> keyed t \<Longrightarrow> \<exists>r \<in> S. l = r \<or> prefix (r @ ''/'') l"
proof (induction rule: reach.induct)
  case (link m n c)
  then obtain r where "r \<in> S" "m = r \<or> prefix (r @ ''/'') m" by blast
  moreover have "prefix (m @ ''/'') c"
    using link keyed_map_of [of t m n] by (auto simp: get_absolute_child_names_def)
  ultimately show ?case by (intro bexI [of _ r]) (auto simp: prefix_def)
qed auto

text \<open>Taking one label from the work list and pushing its children.\<close>

lemma reach_step:
  assumes "map_of t k = Some n"
  shows "reach t (insert k S) l \<longleftrightarrow>
    l = k \<or> reach (omap_erase k t) (S \<union> set (get_absolute_child_names n)) l"
proof
  assume "reach t (insert k S) l"
  then show "l = k \<or> reach (omap_erase k t) (S \<union> set (get_absolute_child_names n)) l"
  proof (induction rule: reach.induct)
    case (start l)
    then show ?case by (auto intro: reach.start)
  next
    case (link m n' c)
    then show ?case
      using assms by (cases "m = k") (auto intro: reach.start reach.link)
  qed
next
  have k: "reach t (insert k S) k" by (simp add: reach.start)
  assume "l = k \<or> reach (omap_erase k t) (S \<union> set (get_absolute_child_names n)) l"
  then show "reach t (insert k S) l"
  proof
    assume "reach (omap_erase k t) (S \<union> set (get_absolute_child_names n)) l"
    then have "reach t (S \<union> set (get_absolute_child_names n)) l" by (rule reach_sub_tree)
    then show ?thesis
      by (induction rule: reach.induct) (auto intro: reach.start reach.link k assms)
  qed (simp add: k)
qed

lemma reach_missing:
  assumes "map_of t k = None" and "map_of t l \<noteq> None"
  shows "reach t (insert k S) l \<longleftrightarrow> reach t S l"
proof
  have "reach t (insert k S) l \<Longrightarrow> l = k \<or> reach t S l" for l
  proof (induction rule: reach.induct)
    case (link m n c)
    then show ?case using assms(1) by (auto intro: reach.link)
  qed (auto intro: reach.start)
  moreover assume "reach t (insert k S) l"
  ultimately show "reach t S l" using assms by metis
qed (auto elim: reach_mono)

lemma absolute_child_find:
  assumes "keyed t" and "map_of t k = Some n" and "prefix root k" and "c \<in> set (get_absolute_child_names n)"
  shows "prefix root c"
  using assms keyed_map_of [OF assms(1,2)] by (auto simp: get_absolute_child_names_def prefix_def)

lemma prefix_str_find: "prefix p s \<Longrightarrow> str_find s p \<noteq> None"
  by (simp add: str_find_zero [symmetric])

text \<open>What the loop leaves: exactly the nodes the work list does not reach.\<close>

lemma map_of_delete_loop:
  assumes "keyed t" and "\<forall>c \<in> set todo. prefix root c"
  shows "map_of (delete_loop root t todo) l = (if reach t (set todo) l then None else map_of t l)"
  using assms
proof (induction root t todo rule: delete_loop.induct)
  case (1 root t todo)
  show ?case
  proof (cases "todo = []")
    case True
    have "\<not> reach t {} l"
      by (rule notI, induct rule: reach.induct) auto
    with True show ?thesis by (subst delete_loop.simps) simp
  next
    case False
    define k where "k = last todo"
    define rest where "rest = butlast todo"
    have todo: "todo = rest @ [k]" using False by (simp add: k_def rest_def)
    have st: "set todo = insert k (set rest)" by (auto simp: todo)
    show ?thesis
    proof (cases "map_of t k")
      case None
      have loop: "delete_loop root t todo = delete_loop root t rest"
        using False None by (subst delete_loop.simps) (simp add: Let_def k_def rest_def)
      have "map_of (delete_loop root t rest) l = (if reach t (set rest) l then None else map_of t l)"
        using "1.IH"(1) [OF False k_def rest_def None] "1.prems" st by simp
      then show ?thesis
        using reach_missing [OF None, of l "set rest"] by (cases "map_of t l") (auto simp: loop st)
    next
      case (Some n)
      define kids where "kids = get_absolute_child_names n"
      have pre: "prefix root k" using "1.prems"(2) st by simp
      have kids: "prefix root c" if "c \<in> set kids" for c
        using absolute_child_find [OF "1.prems"(1) Some pre] that by (simp add: kids_def)
      then have flt: "filter (\<lambda>c. str_find c root \<noteq> None) kids = kids"
        using prefix_str_find by (simp add: filter_id_conv)
      have loop: "delete_loop root t todo = delete_loop root (omap_erase k t) (rest @ kids)"
        using False Some flt by (subst delete_loop.simps) (simp add: Let_def k_def rest_def kids_def)
      have "\<forall>c \<in> set (rest @ kids). prefix root c" using "1.prems"(2) kids st by auto
      then have ih: "map_of (delete_loop root (omap_erase k t) (rest @ kids)) l =
          (if reach (omap_erase k t) (set (rest @ kids)) l then None else map_of (omap_erase k t) l)"
        using "1.IH"(2) [OF False k_def rest_def Some, folded kids_def, unfolded flt]
          keyed_erase [OF "1.prems"(1)] by blast
      show ?thesis
        using reach_step [OF Some, of "set rest" l, folded kids_def] by (auto simp: loop ih st)
    qed
  qed
qed

lemma delete_removes_core:
  assumes "keyed t"
  shows "(snd (tree_delete l t) \<longleftrightarrow> tree_get_node t l \<noteq> None) \<and>
    tree_get_node (fst (tree_delete l t)) m =
      (if reach t {l} m \<and> tree_get_node t l \<noteq> None then None else tree_get_node t m)"
proof
  show "snd (tree_delete l t) \<longleftrightarrow> tree_get_node t l \<noteq> None"
    by (simp add: tree_delete_def tree_get_node_def split: option.split)
  show "tree_get_node (fst (tree_delete l t)) m =
      (if reach t {l} m \<and> tree_get_node t l \<noteq> None then None else tree_get_node t m)"
  proof (cases "map_of t l")
    case None
    then show ?thesis by (simp add: tree_delete_def tree_get_node_def)
  next
    case (Some n)
    have "\<forall>c \<in> set (get_absolute_child_names n). prefix l c"
      using absolute_child_find [OF assms Some] by simp
    then show ?thesis
      using map_of_delete_loop [OF keyed_erase [OF assms]] reach_step [OF Some, of "{}" m] Some
      by (auto simp: tree_delete_def tree_get_node_def)
  qed
qed

text \<open>
  C10: deleting a label removes its node and exactly the nodes that child links between existing
  nodes lead to from it, and reports whether the label was there; the loop always ends, also when
  the links form a cycle.
\<close>

theorem delete_removes_below:
  assumes "keyed t"
  shows "(snd (tree_delete l t) \<longleftrightarrow> tree_get_node t l \<noteq> None) \<and>
    tree_get_node (fst (tree_delete l t)) m =
      (if reach t {l} m \<and> tree_get_node t l \<noteq> None then None else tree_get_node t m)"
  using assms by (rule delete_removes_core)

definition pond_tree :: tree where
  "pond_tree = tree_upsert [(node_default vs_empty)\<lparr>label_rule := ''pond'', child_names := [''duck'']\<rparr>,
     (node_default vs_empty)\<lparr>label_rule := ''pond/duck''\<rparr>, (node_default vs_empty)\<lparr>label_rule := ''oak''\<rparr>] []"

lemma keyed_pond: "keyed pond_tree"
  by (simp add: pond_tree_def keyed_upsert)

theorem delete_removes_below_witness:
  "tree_get_node (fst (tree_delete ''pond'' pond_tree)) ''pond/duck'' = None \<and>
   tree_get_node (fst (tree_delete ''pond'' pond_tree)) ''oak'' \<noteq> None"
proof -
  have pond: "map_of pond_tree ''pond'' =
      Some (node_assign ((node_default vs_empty)\<lparr>label_rule := ''pond'', child_names := [''duck'']\<rparr>))"
    and duck: "map_of pond_tree ''pond/duck'' = Some (node_assign ((node_default vs_empty)\<lparr>label_rule := ''pond/duck''\<rparr>))"
    and oak: "map_of pond_tree ''oak'' \<noteq> None"
    by (simp_all add: pond_tree_def tree_upsert_def)
  have kids: "get_absolute_child_names (node_assign ((node_default vs_empty)\<lparr>label_rule := ''pond'', child_names := [''duck'']\<rparr>))
      = [''pond/duck'']"
    "get_absolute_child_names (node_assign ((node_default vs_empty)\<lparr>label_rule := ''pond/duck''\<rparr>)) = []"
    by (simp_all add: get_absolute_child_names_def node_default_def)
  have "reach pond_tree {''pond''} ''pond/duck''"
    by (rule reach.link [OF reach.start pond]) (simp_all add: kids)
  moreover have "reach pond_tree {''pond''} l \<Longrightarrow> l = ''pond'' \<or> l = ''pond/duck''" for l
  proof (induction rule: reach.induct)
    case (link m n c)
    then show ?case using pond duck kids by auto
  qed simp
  then have "\<not> reach pond_tree {''pond''} ''oak''" by fastforce
  ultimately show ?thesis
    using delete_removes_below [OF keyed_pond, of "''pond''" "''pond/duck''"]
      delete_removes_below [OF keyed_pond, of "''pond''" "''oak''"] pond oak
    by (simp add: tree_get_node_def)
qed

section \<open>Transactions are all or nothing\<close>

text \<open>When a sub-transaction may be performed, as the check of the code decides it.\<close>

definition admissible :: "tree \<Rightarrow> vspan sub_transaction \<Rightarrow> bool" where
  "admissible t s \<longleftrightarrow> can_perform t s = Inr True"

lemma check_subs_ok: "check_subs t tr = Inr () \<longleftrightarrow> (\<forall>s \<in> set tr. admissible t s)"
  by (induction tr) (auto simp: admissible_def rbind_def split: sum.splits if_splits)

text \<open>
  C3: a transaction is applied completely, one sub-transaction after the other in the given order,
  when every sub-transaction is admissible in the tree as it was before; otherwise it throws and
  the tree is unchanged.
\<close>

theorem transaction_all_or_nothing:
  "tree_apply tr t =
     (if \<forall>s \<in> set tr. admissible t s then (fold perform_sub tr t, Inr True)
      else (t, snd (tree_apply tr t))) \<and>
   ((\<exists>e. snd (tree_apply tr t) = Inl e) \<longleftrightarrow> \<not> (\<forall>s \<in> set tr. admissible t s))"
proof (cases "check_subs t tr")
  case (Inl e)
  then have "\<not> (\<forall>s \<in> set tr. admissible t s)" using check_subs_ok [of t tr] by simp
  with Inl show ?thesis by (simp add: tree_apply_def)
next
  case (Inr u)
  then have "\<forall>s \<in> set tr. admissible t s" using check_subs_ok [of t tr] by simp
  with Inr show ?thesis by (simp add: tree_apply_def)
qed

text \<open>
  Optimistic concurrency on one node: with the parent in the tree, a sub-transaction passes only
  if it names the parent's current version number and carries a new parent whose number is its
  successor in the cycle; with the parent absent it must expect no version. Every changed child
  must be at the version expected, absent if none is (unless the change is a deletion).
\<close>

theorem admissible_iff:
  assumes "\<forall>n. map_of t l = Some n \<longrightarrow> max_version_sequence (node_version n) \<noteq> 0"
  shows "admissible t ((ov, l, m), children) \<longleftrightarrow>
    (case tree_get_node t l of
       None \<Rightarrow> ov = None
     | Some old \<Rightarrow> ov = Some (version_number (node_version old)) \<and>
         (\<exists>new v. m = Some new \<and> version_incr (node_version old) = Inr v \<and>
            version_number (node_version new) = version_number v) \<and>
         (\<forall>(cv, cl, cm) \<in> set children.
            case tree_get_node t cl of
              None \<Rightarrow> cv = None
            | Some c \<Rightarrow> cv = Some (version_number (node_version c)) \<or> (cv = None \<and> cm = None)))"
proof (cases "map_of t l")
  case None
  then show ?thesis by (simp add: admissible_def tree_get_node_def)
next
  case (Some old)
  have "child_ok t (cv, cl, cm) \<longleftrightarrow>
      (case map_of t cl of None \<Rightarrow> cv = None
       | Some c \<Rightarrow> cv = Some (version_number (node_version c)) \<or> (cv = None \<and> cm = None))" for cv cl cm
    by (auto split: option.split)
  with Some assms show ?thesis
    by (cases m) (auto simp: admissible_def tree_get_node_def version_incr_def Let_def
        simp del: child_ok.simps split: prod.splits)
qed

text \<open>
  C16: after a successful sub-transaction the parent is at the new version, so a second transaction
  prepared against the same old version is rejected and changes nothing.
\<close>

theorem stale_transaction_rejected:
  assumes "max_version_sequence (node_version old) \<noteq> 0" and "max_version_sequence (node_version old) \<noteq> 1"
    and "tree_get_node t l = Some old"
    and "unat (version_number (node_version old)) < unat (max_version_sequence (node_version old))"
    and "admissible t ((ov, l, Some new), children)" and "label_rule new = l"
    and "\<forall>(cv, cl, cm) \<in> set children. cl \<noteq> l" and "set tr \<inter> {s. fst (fst s) = ov \<and> fst (snd (fst s)) = l} \<noteq> {}"
  shows "\<exists>e. tree_apply tr (perform_sub ((ov, l, Some new), children) t) =
    (perform_sub ((ov, l, Some new), children) t, Inl e)"
proof -
  let ?t' = "perform_sub ((ov, l, Some new), children) t"
  have mt: "map_of t l = Some old" using assms(3) by (simp add: tree_get_node_def)
  have ov: "ov = Some (version_number (node_version old))"
    and nv: "version_number (node_version new) =
      of_nat ((unat (version_number (node_version old)) + 1) mod unat (max_version_sequence (node_version old)))"
    using assms(1,5) mt by (auto simp: admissible_def Let_def split: if_splits)
  let ?a = "unat (version_number (node_version old))" and ?m = "unat (max_version_sequence (node_version old))"
  have "?m \<noteq> unat (0 :: u16)" "?m \<noteq> unat (1 :: u16)"
    using assms(1,2) by (metis unsigned_word_eqI)+
  then have m: "1 < ?m" by simp
  have "(?a + 1) mod ?m \<noteq> ?a" using assms(4) m by (simp add: mod_if)
  moreover have "unat (version_number (node_version new)) = (?a + 1) mod ?m"
  proof -
    have "(?a + 1) mod ?m < ?m" using m by simp
    also have "?m < 2 ^ 16" using unsigned_less [of "max_version_sequence (node_version old)"] by simp
    finally show ?thesis by (simp add: nv unat_of_nat)
  qed
  ultimately have ne: "version_number (node_version new) \<noteq> version_number (node_version old)"
    by auto
  have keep: "map_of (fold perform_child cs s) l = map_of s l"
    if "\<forall>(cv, cl, cm) \<in> set cs. cl \<noteq> l" for cs s
    using that by (induction cs arbitrary: s) (auto split: option.splits)
  have "map_of ?t' l = Some (node_assign new)"
    using keep [OF assms(7)] assms(6) by simp
  then have "\<not> admissible ?t' s" if "fst (fst s) = ov" "fst (snd (fst s)) = l" for s
    using that ne ov by (cases s; cases "fst s") (auto simp: admissible_def Let_def)
  then have "\<not> (\<forall>s \<in> set tr. admissible ?t' s)" using assms(8) by blast
  then have "check_subs ?t' tr \<noteq> Inr ()" using check_subs_ok by blast
  then show ?thesis by (cases "check_subs ?t' tr") (auto simp: tree_apply_def)
qed

definition old_oak :: vnode where
  "old_oak = (node_default vs_empty)\<lparr>label_rule := ''oak''\<rparr>"

definition new_oak :: vnode where
  "new_oak = old_oak\<lparr>node_version := default_version\<lparr>version_number := 1\<rparr>\<rparr>"

lemma old_oak_simps [simp]:
  "label_rule old_oak = ''oak''" "node_version old_oak = default_version"
  "label_rule new_oak = ''oak''" "node_version new_oak = default_version\<lparr>version_number := 1\<rparr>"
  by (simp_all add: old_oak_def new_oak_def node_default_def)

lemma default_version_simps [simp]:
  "version_number default_version = 0" "max_version_sequence default_version = 256"
  by (simp_all add: default_version_def)

lemma admissible_oak: "admissible [(''oak'', old_oak)] ((Some 0, ''oak'', Some new_oak), [])"
  by (simp add: admissible_def Let_def)

theorem admissible_iff_witness:
  "\<not> admissible [(''oak'', old_oak)] ((Some 3, ''oak'', Some new_oak), [])"
  by (subst admissible_iff) (simp_all add: tree_get_node_def)

theorem stale_transaction_rejected_witness:
  "\<exists>e. tree_apply [((Some 0, ''oak'', None), [])]
       (perform_sub ((Some 0, ''oak'', Some new_oak), []) [(''oak'', old_oak)]) =
    (perform_sub ((Some 0, ''oak'', Some new_oak), []) [(''oak'', old_oak)], Inl e)"
  by (rule stale_transaction_rejected [where old = old_oak and l = "''oak''"])
    (simp_all add: tree_get_node_def admissible_oak)

theorem transaction_all_or_nothing_witness:
  "tree_apply [((Some 0, ''oak'', Some new_oak), [])] [(''oak'', old_oak)] =
    ([(''oak'', node_assign new_oak)], Inr True)"
  using transaction_all_or_nothing [of "[((Some 0, ''oak'', Some new_oak), [])]" "[(''oak'', old_oak)]"]
  by (simp add: admissible_oak tree_store_def)



end
