(* ===== verification/Backend_Interface.thy ===== *)
theory Backend_Interface
  imports Memory_Tree
begin

text \<open>
  The interface every backend implements (\<open>interface/backend.h\<close>): a record of operations over the
  state of the backend, which is how a \<open>Backend&\<close> is passed around in the model, and the contract a
  client may rely on, as a locale over such a record.
  Mutating operations are actions: they return the new state, the callbacks they invoked in order,
  and a result that may be an exception; the state is returned also when they throw.
  The callbacks the backends build around a listener's callback are constructors of one datatype;
  \<open>run_callback\<close> is what invoking one does.
\<close>

section \<open>Callbacks\<close>

text \<open>
  A listener's own callback has a number. A wrapper of a \<open>ThreadsafeBackend\<close> carries the identity of
  that backend, since it pushes on its stack.
\<close>

datatype callback =
    User nat
  | Transactional_Wrap callback
  | Threadsafe_Wrap nat callback
  | Redirected_Wrap string callback
  | Composite_Wrap string callback

datatype event =
    Called nat string "vnode option"
  | Queued nat callback string "vnode option"

fun run_callback :: "callback \<Rightarrow> string \<Rightarrow> vnode option \<Rightarrow> event result" where
  "run_callback (User i) l m = Inr (Called i l m)"
| "run_callback (Transactional_Wrap cb) l m = run_callback cb l m"
| "run_callback (Threadsafe_Wrap i cb) l m = Inr (Queued i cb l m)"
| "run_callback (Redirected_Wrap pre cb) l m =
     rbind (substr_from l (length pre)) (\<lambda>l'. run_callback cb l' (map_option (shorten_labels pre) m))"
| "run_callback (Composite_Wrap pre cb) l m =
     (case m of
        None \<Rightarrow> run_callback cb (pre @ l) None
      | Some n \<Rightarrow> rbind (prefix_labels pre n) (\<lambda>n'. run_callback cb (pre @ l) (Some n')))"

section \<open>Actions\<close>

type_synonym ('s, 'a) act = "'s \<Rightarrow> 's \<times> event list \<times> 'a result"

definition act_return :: "'a \<Rightarrow> ('s, 'a) act" where
  "act_return x s = (s, [], Inr x)"

definition act_throw :: "err \<Rightarrow> ('s, 'a) act" where
  "act_throw e s = (s, [], Inl e)"

definition act_bind :: "('s, 'a) act \<Rightarrow> ('a \<Rightarrow> ('s, 'b) act) \<Rightarrow> ('s, 'b) act" where
  "act_bind m f s =
     (case m s of
        (s1, es, Inl e) \<Rightarrow> (s1, es, Inl e)
      | (s1, es, Inr x) \<Rightarrow> (case f x s1 of (s2, fs, r) \<Rightarrow> (s2, es @ fs, r)))"

text \<open>A value that may be an exception, as an action that changes nothing.\<close>

definition act_lift :: "'a result \<Rightarrow> ('s, 'a) act" where
  "act_lift r s = (s, [], r)"

text \<open>An action for every element, in order; the first exception ends it.\<close>

fun act_each :: "('a \<Rightarrow> ('s, 'b) act) \<Rightarrow> 'a list \<Rightarrow> ('s, unit) act" where
  "act_each f [] = act_return ()"
| "act_each f (x # xs) = act_bind (f x) (\<lambda>_. act_each f xs)"

text \<open>Run an action on a part of the state.\<close>

definition act_zoom :: "('t \<Rightarrow> 's) \<Rightarrow> ('s \<Rightarrow> 't \<Rightarrow> 't) \<Rightarrow> ('s, 'a) act \<Rightarrow> ('t, 'a) act" where
  "act_zoom get put m t = (case m (get t) of (s, es, r) \<Rightarrow> (put s t, es, r))"

lemma act_bind_return [simp]: "act_bind (act_return x) f = f x"
  by (rule ext) (simp add: act_bind_def act_return_def split: prod.split)

lemma act_bind_assoc: "act_bind (act_bind m f) g = act_bind m (\<lambda>x. act_bind (f x) g)"
  by (rule ext) (auto simp: act_bind_def split: prod.splits sum.splits)

lemma act_bind_Inr:
  "m s = (s1, es, Inr x) \<Longrightarrow> act_bind m f s = (let (s2, fs, r) = f x s1 in (s2, es @ fs, r))"
  by (simp add: act_bind_def Let_def split: prod.split)

lemma act_bind_Inl: "m s = (s1, es, Inl e) \<Longrightarrow> act_bind m f s = (s1, es, Inl e)"
  by (simp add: act_bind_def)

section \<open>The interface\<close>

record 's backend_ops =
  b_get_node :: "string \<Rightarrow> 's \<Rightarrow> vnode option result"
  b_upsert :: "vnode list \<Rightarrow> ('s, bool) act"
  b_delete :: "string \<Rightarrow> ('s, bool) act"
  b_page_tree :: "string \<Rightarrow> 's \<Rightarrow> vnode list result"
  b_relative_page_tree :: "vnode \<Rightarrow> string \<Rightarrow> 's \<Rightarrow> vnode list result"
  b_query :: "string \<Rightarrow> 's \<Rightarrow> vnode list result"
  b_relative_query :: "vnode \<Rightarrow> string \<Rightarrow> 's \<Rightarrow> vnode list result"
  b_open_layer :: "vnode \<Rightarrow> ('s, bool) act"
  b_close_layers :: "('s, bool) act"
  b_apply :: "vspan transaction \<Rightarrow> ('s, bool) act"
  b_full_tree :: "'s \<Rightarrow> vnode list result"
  b_register :: "string \<Rightarrow> string \<Rightarrow> bool \<Rightarrow> callback \<Rightarrow> ('s, unit) act"
  b_deregister :: "string \<Rightarrow> string \<Rightarrow> ('s, unit) act"
  b_notify :: "string \<Rightarrow> vnode option \<Rightarrow> ('s, unit) act"
  b_process :: "('s, unit) act"

section \<open>The contract\<close>

text \<open>
  The abstract state of a backend: what it holds under each label. Storing a list of nodes keeps the
  last one for each label; a stored node is the copy-assigned one.
\<close>

type_synonym view = "string \<Rightarrow> vnode option"

definition view_store :: "vnode list \<Rightarrow> view \<Rightarrow> view" where
  "view_store ns w l =
     (case last_with ns l of Some n \<Rightarrow> Some (node_assign n) | None \<Rightarrow> w l)"

lemma view_store_Nil [simp]: "view_store [] w = w"
  by (simp add: view_store_def fun_eq_iff)

lemma view_store_single [simp]: "view_store [n] w = w(label_rule n \<mapsto> node_assign n)"
  by (simp add: view_store_def fun_eq_iff last_with_def)

lemma view_store_append: "view_store (ms @ ns) w = view_store ns (view_store ms w)"
  by (rule ext, induction ns rule: rev_induct)
    (auto simp: view_store_def simp flip: append_assoc split: option.split)

text \<open>Deleting a label may take the labels below it along, and no other.\<close>

definition at_or_below :: "string \<Rightarrow> string \<Rightarrow> bool" where
  "at_or_below l m \<longleftrightarrow> m = l \<or> prefix (l @ ''/'') m"

locale tree_backend =
  fixes ops :: "'s backend_ops"
    and inv :: "'s \<Rightarrow> bool"
    and view :: "'s \<Rightarrow> view"
    and accepts :: "vnode \<Rightarrow> bool"
  assumes get_node: "inv s \<Longrightarrow> b_get_node ops l s = Inr (view s l)"
    and upsert: "inv s \<Longrightarrow> \<forall>n \<in> set ns. accepts n \<Longrightarrow>
      \<exists>s' es. b_upsert ops ns s = (s', es, Inr True) \<and> inv s' \<and> view s' = view_store ns (view s)"
    and delete: "inv s \<Longrightarrow> \<exists>s' es r. b_delete ops l s = (s', es, Inr r) \<and> inv s' \<and>
      view s' l = None \<and> view s' \<subseteq>\<^sub>m view s \<and> (\<forall>m. \<not> at_or_below l m \<longrightarrow> view s' m = view s m)"
begin

lemma upsert_single:
  assumes "inv s" and "accepts n"
  obtains s' es where "b_upsert ops [n] s = (s', es, Inr True)" and "inv s'"
    and "view s' = (view s)(label_rule n \<mapsto> node_assign n)"
  using upsert [OF assms(1), of "[n]"] assms(2) by auto

text \<open>A node written is the node read, whatever the backend keeps in between.\<close>

lemma upsert_get:
  assumes "inv s" and "accepts n" and "b_upsert ops [n] s = (s', es, r)"
  shows "r = Inr True" and "b_get_node ops (label_rule n) s' = Inr (Some (node_assign n))"
    and "l \<noteq> label_rule n \<Longrightarrow> b_get_node ops l s' = b_get_node ops l s"
proof -
  obtain s1 fs where s1: "b_upsert ops [n] s = (s1, fs, Inr True)" "inv s1"
      "view s1 = (view s)(label_rule n \<mapsto> node_assign n)"
    by (rule upsert_single [OF assms(1,2)])
  then have eq: "s1 = s'" "r = Inr True" using assms(3) by auto
  show "r = Inr True" by (rule eq(2))
  show "b_get_node ops (label_rule n) s' = Inr (Some (node_assign n))"
    using get_node [OF s1(2)] s1(3) eq(1) by simp
  show "l \<noteq> label_rule n \<Longrightarrow> b_get_node ops l s' = b_get_node ops l s"
    using get_node [OF s1(2)] get_node [OF assms(1)] s1(3) eq(1) by simp
qed

lemma delete_get:
  assumes "inv s" and "b_delete ops l s = (s', es, r)"
  shows "\<exists>b. r = Inr b" and "b_get_node ops l s' = Inr None"
    and "b_get_node ops m s' = Inr None \<or> b_get_node ops m s' = b_get_node ops m s"
    and "\<not> at_or_below l m \<Longrightarrow> b_get_node ops m s' = b_get_node ops m s"
proof -
  obtain s1 fs b where s1: "b_delete ops l s = (s1, fs, Inr b)" "inv s1" "view s1 l = None" "view s1 \<subseteq>\<^sub>m view s"
      "\<not> at_or_below l m \<Longrightarrow> view s1 m = view s m"
    using delete [OF assms(1), of l] by blast
  then have eq: "s1 = s'" "r = Inr b" using assms(2) by auto
  show "\<exists>b. r = Inr b" using eq(2) by blast
  show "\<not> at_or_below l m \<Longrightarrow> b_get_node ops m s' = b_get_node ops m s"
    using get_node [OF s1(2)] get_node [OF assms(1)] s1(5) eq(1) by simp
  show "b_get_node ops l s' = Inr None" using get_node [OF s1(2)] s1(3) eq(1) by simp
  show "b_get_node ops m s' = Inr None \<or> b_get_node ops m s' = b_get_node ops m s"
  proof -
    have "view s1 m = None \<or> view s1 m = view s m"
      using s1(4) by (metis domI map_le_def not_None_eq)
    then show ?thesis
      using get_node [OF s1(2)] get_node [OF assms(1)] eq(1) by auto
  qed
qed

end

section \<open>Backends on a part of the state\<close>

text \<open>A backend over a component of a larger state, as an object the program holds beside others.\<close>

definition zoom_ops :: "('t \<Rightarrow> 's) \<Rightarrow> ('s \<Rightarrow> 't \<Rightarrow> 't) \<Rightarrow> 's backend_ops \<Rightarrow> 't backend_ops" where
  "zoom_ops get put ops = \<lparr>
     b_get_node = (\<lambda>l t. b_get_node ops l (get t)),
     b_upsert = (\<lambda>ns. act_zoom get put (b_upsert ops ns)),
     b_delete = (\<lambda>l. act_zoom get put (b_delete ops l)),
     b_page_tree = (\<lambda>l t. b_page_tree ops l (get t)),
     b_relative_page_tree = (\<lambda>n l t. b_relative_page_tree ops n l (get t)),
     b_query = (\<lambda>l t. b_query ops l (get t)),
     b_relative_query = (\<lambda>n l t. b_relative_query ops n l (get t)),
     b_open_layer = (\<lambda>n. act_zoom get put (b_open_layer ops n)),
     b_close_layers = act_zoom get put (b_close_layers ops),
     b_apply = (\<lambda>tr. act_zoom get put (b_apply ops tr)),
     b_full_tree = (\<lambda>t. b_full_tree ops (get t)),
     b_register = (\<lambda>name rule cn cb. act_zoom get put (b_register ops name rule cn cb)),
     b_deregister = (\<lambda>name rule. act_zoom get put (b_deregister ops name rule)),
     b_notify = (\<lambda>l m. act_zoom get put (b_notify ops l m)),
     b_process = act_zoom get put (b_process ops)\<rparr>"

context tree_backend
begin

lemma under_zoom:
  fixes get :: "'t \<Rightarrow> 's"
  assumes "\<And>s t. get (put s t) = s"
  shows "tree_backend (zoom_ops get put ops) (\<lambda>t. inv (get t)) (\<lambda>t. view (get t)) accepts"
proof
  fix t :: 't and l assume "inv (get t)"
  then show "b_get_node (zoom_ops get put ops) l t = Inr (view (get t) l)"
    by (simp add: zoom_ops_def get_node)
next
  fix t :: 't and ns assume t: "inv (get t)" and ns: "\<forall>n \<in> set ns. accepts n"
  show "\<exists>t' es. b_upsert (zoom_ops get put ops) ns t = (t', es, Inr True) \<and> inv (get t') \<and>
      view (get t') = view_store ns (view (get t))"
    using upsert [OF t ns] by (auto simp: zoom_ops_def act_zoom_def assms)
next
  fix t :: 't and l assume t: "inv (get t)"
  show "\<exists>t' es r. b_delete (zoom_ops get put ops) l t = (t', es, Inr r) \<and> inv (get t') \<and>
      view (get t') l = None \<and> view (get t') \<subseteq>\<^sub>m view (get t) \<and>
      (\<forall>m. \<not> at_or_below l m \<longrightarrow> view (get t') m = view (get t) m)"
    using delete [OF t, of l] by (auto simp: zoom_ops_def act_zoom_def assms)
qed

end

end
