(* ===== verification/Simple_Backend.thy ===== *)
theory Simple_Backend
  imports Backend_Interface
begin

text \<open>
  The in-memory backend (\<open>memory/include/simple_backend.h\<close>, \<open>memory/src/simple_backend.cpp\<close>): the
  memory tree, the listeners registered on labels, and the two label tests that decide who is
  notified.
  The callbacks an operation invokes are part of its result, in order. A callback that calls back
  into the backend while it runs is not modelled.
\<close>

section \<open>Label tests\<close>

definition strip_query :: "string \<Rightarrow> string" where
  "strip_query l = (case find_char (CHR ''?'') l of None \<Rightarrow> l | Some i \<Rightarrow> take i l)"

text \<open>
  \<open>std::min\<close> of two positions, \<open>npos\<close> being the largest; \<open>s[npos]\<close> is out of range.
\<close>

fun min_pos :: "nat option \<Rightarrow> nat option \<Rightarrow> nat option" where
  "min_pos None j = j"
| "min_pos i None = i"
| "min_pos (Some i) (Some j) = Some (min i j)"

definition check_overlap :: "string \<Rightarrow> string \<Rightarrow> bool result" where
  "check_overlap l1 l2 =
     (let s1 = strip_query l1; s2 = strip_query l2 in
      if s1 = '''' \<or> s2 = '''' then Inr True
      else if s1 = s2 then Inr True
      else
        (case min_pos (rfind_char (CHR ''/'') s1) (rfind_char (CHR ''/'') s2) of
           None \<Rightarrow> Inl Undefined_Behaviour
         | Some i \<Rightarrow>
             rbind (str_at s1 i) (\<lambda>c1.
               if c1 \<noteq> CHR ''/'' then Inr False
               else rbind (str_at s2 i) (\<lambda>c2.
                 if c2 \<noteq> CHR ''/'' then Inr False
                 else if take i s1 \<noteq> take i s2 then Inr False
                 else
                   let e1 = drop (i + 1) s1; e2 = drop (i + 1) s2 in
                   (case (find_char (CHR ''/'') e1, find_char (CHR ''/'') e2) of
                      (None, None) \<Rightarrow> Inr False
                    | (None, Some j) \<Rightarrow> Inr (j = length e1)
                    | (Some j, None) \<Rightarrow> Inr (j = length e2)
                    | (Some _, Some _) \<Rightarrow> Inr False)))))"

definition partial_match :: "string \<Rightarrow> string \<Rightarrow> bool" where
  "partial_match l rule =
     (let s = strip_query l in
      if s = rule then True
      else if length s < length rule then False
      else str_find s rule = Some 0)"

section \<open>The backend\<close>

type_synonym listener = "string \<times> (bool \<times> callback)"

record simple_backend =
  memory_tree :: tree
  node_listeners :: "(string \<times> listener list) list"

definition simple_new :: "tree \<Rightarrow> simple_backend" where
  "simple_new t = \<lparr>memory_tree = t, node_listeners = []\<rparr>"

text \<open>The calls made for one entry of the listener map.\<close>

fun call_listeners :: "string \<Rightarrow> vnode option \<Rightarrow> string \<Rightarrow> listener list \<Rightarrow> event list \<times> unit result" where
  "call_listeners l m key [] = ([], Inr ())"
| "call_listeners l m key ((name, child_notify, cb) # ls) =
     (case (if key = l then Inr True
            else if child_notify then check_overlap l key else Inr False) of
        Inl e \<Rightarrow> ([], Inl e)
      | Inr False \<Rightarrow> call_listeners l m key ls
      | Inr True \<Rightarrow>
          (case run_callback cb l m of
             Inl e \<Rightarrow> ([], Inl e)
           | Inr ev \<Rightarrow> (case call_listeners l m key ls of (evs, r) \<Rightarrow> (ev # evs, r))))"

text \<open>The backward walk from \<open>upper_bound(label)\<close>; it stops at the first key that is no prefix.\<close>

fun notify_walk :: "string \<Rightarrow> vnode option \<Rightarrow> (string \<times> listener list) list \<Rightarrow> event list \<times> unit result" where
  "notify_walk l m [] = ([], Inr ())"
| "notify_walk l m ((key, ls) # rest) =
     (if partial_match l key
      then (case call_listeners l m key ls of
              (evs, Inl e) \<Rightarrow> (evs, Inl e)
            | (evs, Inr _) \<Rightarrow> (case notify_walk l m rest of (evs', r) \<Rightarrow> (evs @ evs', r)))
      else ([], Inr ()))"

definition notify_listeners :: "string \<Rightarrow> vnode option \<Rightarrow> (simple_backend, unit) act" where
  "notify_listeners l m b = (b, notify_walk l m (omap_upto l (node_listeners b)))"

definition simple_get_node :: "string \<Rightarrow> simple_backend \<Rightarrow> vnode option" where
  "simple_get_node l b = tree_get_node (memory_tree b) l"

definition simple_upsert :: "vnode list \<Rightarrow> (simple_backend, bool) act" where
  "simple_upsert ns b =
     act_bind (act_each (\<lambda>n. notify_listeners (label_rule n) (Some n)) ns) (\<lambda>_. act_return True)
       (b\<lparr>memory_tree := tree_upsert ns (memory_tree b)\<rparr>)"

definition simple_delete :: "string \<Rightarrow> (simple_backend, bool) act" where
  "simple_delete l b =
     act_bind (notify_listeners l None) (\<lambda>_. act_return True)
       (b\<lparr>memory_tree := fst (tree_delete l (memory_tree b))\<rparr>)"

definition simple_get_page_tree :: "string \<Rightarrow> simple_backend \<Rightarrow> vnode list" where
  "simple_get_page_tree l b =
     (case tree_get_node (memory_tree b) l of
        None \<Rightarrow> []
      | Some n \<Rightarrow> tree_get_nodes (memory_tree b) (child_names n))"

definition simple_relative_get_page_tree :: "vnode \<Rightarrow> string \<Rightarrow> simple_backend \<Rightarrow> vnode list result" where
  "simple_relative_get_page_tree n l b =
     (let full = label_rule n @ ''/'' @ l in
      case tree_get_node (memory_tree b) full of
        None \<Rightarrow> Inl (Runtime_Error (''Page node not found: '' @ full))
      | Some _ \<Rightarrow> Inr (simple_get_page_tree full b))"

definition simple_query_nodes :: "string \<Rightarrow> simple_backend \<Rightarrow> vnode list" where
  "simple_query_nodes l b = tree_query (memory_tree b) l"

definition simple_relative_query_nodes :: "vnode \<Rightarrow> string \<Rightarrow> simple_backend \<Rightarrow> vnode list" where
  "simple_relative_query_nodes n l b = simple_query_nodes (label_rule n @ ''/'' @ l) b"

definition simple_open_layer :: "vnode \<Rightarrow> (simple_backend, bool) act" where
  "simple_open_layer n =
     act_throw (Runtime_Error ''SimpleBackend does not support opening transaction layers'')"

definition simple_close_layers :: "(simple_backend, bool) act" where
  "simple_close_layers =
     act_throw (Runtime_Error ''SimpleBackend does not support closing transaction layers'')"

text \<open>The labels and nodes a transaction announces, in order.\<close>

fun announced :: "vspan sub_transaction \<Rightarrow> (string \<times> vnode option) list" where
  "announced ((ov, l, m), children) = (l, m) # map snd children"

definition simple_apply :: "vspan transaction \<Rightarrow> (simple_backend, bool) act" where
  "simple_apply tr b =
     (case tree_apply tr (memory_tree b) of
        (t, Inl e) \<Rightarrow> (b\<lparr>memory_tree := t\<rparr>, [], Inl e)
      | (t, Inr ok) \<Rightarrow>
          act_bind (act_each (\<lambda>(l, m). notify_listeners l m) (if ok then concat (map announced tr) else []))
            (\<lambda>_. act_return ok) (b\<lparr>memory_tree := t\<rparr>))"

definition simple_full_tree :: "simple_backend \<Rightarrow> vnode list" where
  "simple_full_tree b = tree_full (memory_tree b)"

definition simple_deregister :: "string \<Rightarrow> string \<Rightarrow> simple_backend \<Rightarrow> simple_backend" where
  "simple_deregister name rule b =
     (case map_of (node_listeners b) rule of
        None \<Rightarrow> b
      | Some ls \<Rightarrow>
          let ls' = filter (\<lambda>x. fst x \<noteq> name) ls in
          b\<lparr>node_listeners := (if ls' = [] then omap_erase rule (node_listeners b)
                              else omap_insert rule ls' (node_listeners b))\<rparr>)"

definition simple_register :: "string \<Rightarrow> string \<Rightarrow> bool \<Rightarrow> callback \<Rightarrow> simple_backend \<Rightarrow> simple_backend" where
  "simple_register name rule child_notify cb b =
     (let b' = simple_deregister name rule b in
      case map_of (node_listeners b') rule of
        Some ls \<Rightarrow> b'\<lparr>node_listeners := omap_insert rule (ls @ [(name, child_notify, cb)]) (node_listeners b')\<rparr>
      | None \<Rightarrow> b'\<lparr>node_listeners := omap_insert rule [(name, child_notify, cb)] (node_listeners b')\<rparr>)"

text \<open>The virtual functions of \<open>SimpleBackend\<close>.\<close>

definition simple_ops :: "simple_backend backend_ops" where
  "simple_ops = \<lparr>
     b_get_node = (\<lambda>l b. Inr (simple_get_node l b)),
     b_upsert = simple_upsert,
     b_delete = simple_delete,
     b_page_tree = (\<lambda>l b. Inr (simple_get_page_tree l b)),
     b_relative_page_tree = simple_relative_get_page_tree,
     b_query = (\<lambda>l b. Inr (simple_query_nodes l b)),
     b_relative_query = (\<lambda>n l b. Inr (simple_relative_query_nodes n l b)),
     b_open_layer = simple_open_layer,
     b_close_layers = simple_close_layers,
     b_apply = simple_apply,
     b_full_tree = (\<lambda>b. Inr (simple_full_tree b)),
     b_register = (\<lambda>name rule cn cb b. (simple_register name rule cn cb b, [], Inr ())),
     b_deregister = (\<lambda>name rule b. (simple_deregister name rule b, [], Inr ())),
     b_notify = notify_listeners,
     b_process = act_return ()\<rparr>"

section \<open>What the label tests decide\<close>

lemma strip_query_no_mark: "CHR ''?'' \<notin> set (strip_query l)"
proof (cases "find_char (CHR ''?'') l")
  case None
  then have "CHR ''?'' \<notin> set l" by (simp only: find_char_None not_False_eq_True)
  with None show ?thesis by (simp add: strip_query_def)
next
  case (Some i)
  then show ?thesis
    using Some by (simp add: strip_query_def) (simp add: find_char_Some)
qed

lemma strip_query_id: "CHR ''?'' \<notin> set l \<Longrightarrow> strip_query l = l"
  by (simp add: strip_query_def find_char_None [symmetric])

lemma partial_match_iff: "partial_match l rule \<longleftrightarrow> prefix rule (strip_query l)"
  by (auto simp: partial_match_def Let_def str_find_zero dest: prefix_length_le)

lemma partial_match_prefix: "partial_match l rule \<Longrightarrow> prefix rule l"
  unfolding partial_match_iff strip_query_def
  by (auto split: option.splits intro: prefix_order.trans take_is_prefix)

lemma partial_match_no_mark: "partial_match l rule \<Longrightarrow> CHR ''?'' \<notin> set rule"
  unfolding partial_match_iff using strip_query_no_mark set_mono_prefix by blast

lemma overlap_prefix_core:
  assumes "prefix k (strip_query l)" and "k \<noteq> strip_query l" and "CHR ''/'' \<in> set k"
  shows "check_overlap l k = Inr (\<exists>r. strip_query l = k @ ''/'' @ r)"
proof -
  let ?c = "CHR ''/''"
  define s where "s = strip_query l"
  obtain t where s: "s = k @ t" and t: "t \<noteq> ''''" using assms(1,2) by (auto simp: s_def prefix_def)
  have k: "strip_query k = k"
    using strip_query_no_mark [of l] s by (intro strip_query_id) (simp add: s_def)
  obtain i where i: "rfind_char ?c k = Some i"
    using assms(3) rfind_char_None [of ?c k] by auto
  have ik: "i < length k" "k ! i = ?c" "?c \<notin> set (drop (Suc i) k)"
    using i by (auto simp: rfind_char_Some)
  obtain j where j: "rfind_char ?c s = Some j" "i \<le> j"
    by (cases "rfind_char ?c t") (use ik i in \<open>auto simp: s rfind_char_append\<close>)
  have m: "min_pos (rfind_char ?c s) (rfind_char ?c k) = Some i"
    using i j by simp
  have e: "drop (Suc i) s = drop (Suc i) k @ t" "take i s = take i k" "s ! i = ?c" "i < length s"
    using ik by (simp_all add: s nth_append)
  have ne: "s \<noteq> ''''" "k \<noteq> ''''" "s \<noteq> k" using ik t s by auto
  have none: "find_char ?c (drop (Suc i) k) = None" using ik(3) by (simp add: find_char_None)
  have "check_overlap l k =
      (case find_char ?c (drop (Suc i) k @ t) of None \<Rightarrow> Inr False | Some n \<Rightarrow> Inr (n = length (drop (Suc i) k)))"
    unfolding check_overlap_def s_def [symmetric] k Let_def m
    using ne e ik none by (auto simp: str_at_def split: option.split)
  moreover have "(\<exists>r. s = k @ ''/'' @ r) \<longleftrightarrow> (\<exists>r. t = ?c # r)" by (simp add: s)
  ultimately show ?thesis
    using none t ik(3) by (cases t) (auto simp: s_def [symmetric] find_char_append split: option.splits)
qed

text \<open>
  For a label and a proper prefix of it that contains a slash, \<open>checkLabelRuleOverlap\<close> is exact:
  it accepts precisely the labels below the prefix in the tree, not those that merely continue its
  last component.
\<close>

theorem overlap_of_prefix:
  assumes "prefix k (strip_query l)" and "k \<noteq> strip_query l" and "CHR ''/'' \<in> set k"
  shows "check_overlap l k = Inr (\<exists>r. strip_query l = k @ ''/'' @ r)"
  using assms by (rule overlap_prefix_core)

theorem overlap_of_prefix_witness:
  "check_overlap ''zoo/lion/paw'' ''zoo/lion'' = Inr True \<and> check_overlap ''zoo/lioness'' ''zoo/lion'' = Inr False"
  using overlap_of_prefix [of "''zoo/lion''" "''zoo/lion/paw''"]
    overlap_of_prefix [of "''zoo/lion''" "''zoo/lioness''"]
  by (simp add: strip_query_def prefix_def)

text \<open>
  A label without a slash is outside what the function handles: it never counts as an ancestor
  of its children, and comparing it with a deeper label or with another such label reads the
  string out of range.
\<close>

theorem overlap_without_slash:
  assumes "CHR ''/'' \<notin> set a" and "CHR ''?'' \<notin> set a" and "a \<noteq> ''''"
    and "CHR ''/'' \<notin> set b" and "CHR ''?'' \<notin> set b" and "b \<noteq> ''''" and "CHR ''?'' \<notin> set r"
  shows "check_overlap (a @ ''/'' @ r) a =
      (if CHR ''/'' \<in> set r then Inl Undefined_Behaviour else Inr False) \<and>
    (a \<noteq> b \<longrightarrow> check_overlap a b = Inl Undefined_Behaviour)"
proof
  let ?c = "CHR ''/''" and ?l = "a @ ''/'' @ r"
  have a: "rfind_char ?c a = None" "rfind_char ?c b = None"
    using assms(1,4) by (simp_all add: rfind_char_None)
  have str: "strip_query ?l = ?l" "strip_query a = a" "strip_query b = b"
    using assms by (auto intro!: strip_query_id)
  obtain i where i: "rfind_char ?c ?l = Some i" "length a \<le> i" "i = length a \<longleftrightarrow> ?c \<notin> set r"
    by (cases "rfind_char ?c r") (auto simp: rfind_char_append rfind_char_None [symmetric])
  have "i < length ?l" "?l ! i = ?c" using i(1) by (auto simp: rfind_char_Some)
  then show "check_overlap ?l a = (if ?c \<in> set r then Inl Undefined_Behaviour else Inr False)"
    unfolding check_overlap_def str Let_def i(1) a
    using assms(3) i(2,3) by (auto simp: str_at_def)
  show "a \<noteq> b \<longrightarrow> check_overlap a b = Inl Undefined_Behaviour"
    unfolding check_overlap_def str Let_def a using assms(3,6) by simp
qed

theorem overlap_without_slash_witness:
  "check_overlap ''zoo/lion'' ''zoo'' = Inr False \<and> check_overlap ''zoo'' ''farm'' = Inl Undefined_Behaviour"
  using overlap_without_slash [of "''zoo''" "''farm''" "''lion''"] by simp

section \<open>Who is notified\<close>

text \<open>
  The listeners the code can serve: a child listener sits on the empty label or on one with a slash,
  and a wrapped callback fits the label it is registered on.
\<close>

fun cb_fits :: "string \<Rightarrow> callback \<Rightarrow> bool" where
  "cb_fits key (User i) = True"
| "cb_fits key (Threadsafe_Wrap i cb) = True"
| "cb_fits key (Transactional_Wrap cb) = cb_fits key cb"
| "cb_fits key (Redirected_Wrap pre cb) \<longleftrightarrow> prefix pre key \<and> cb_fits (drop (length pre) key) cb"
| "cb_fits key (Composite_Wrap pre cb) \<longleftrightarrow>
     (pre = '''' \<or> last pre = CHR ''/'') \<and> cb_fits (pre @ key) cb"

fun listener_fits :: "string \<Rightarrow> listener \<Rightarrow> bool" where
  "listener_fits key (name, child_notify, cb) \<longleftrightarrow>
     (child_notify \<longrightarrow> key = '''' \<or> CHR ''/'' \<in> set key) \<and> cb_fits key cb"

definition listeners_ok :: "(string \<times> listener list) list \<Rightarrow> bool" where
  "listeners_ok ls \<longleftrightarrow> omap_ok ls \<and> (\<forall>(key, xs) \<in> set ls. \<forall>x \<in> set xs. listener_fits key x)"

lemma run_callback_fits: "cb_fits key cb \<Longrightarrow> prefix key l \<Longrightarrow> \<exists>e. run_callback cb l m = Inr e"
proof (induction cb arbitrary: key l m)
  case (Redirected_Wrap pre cb)
  then have "prefix pre l" by (auto intro: prefix_order.trans)
  moreover from this have "prefix (drop (length pre) key) (drop (length pre) l)"
    using Redirected_Wrap.prems by (auto simp: prefix_def)
  ultimately show ?case
    using Redirected_Wrap by (auto simp: substr_from_def dest: prefix_length_le)
next
  case (Composite_Wrap pre cb)
  have "prefix (pre @ key) (pre @ l)" using Composite_Wrap.prems(2) by simp
  then show ?case
    using Composite_Wrap by (auto simp: prefix_labels_def split: option.split)
qed auto

text \<open>A listener on a key is called for a label when the key is the label, or an ancestor and the
  listener asked for children.\<close>

definition hears :: "string \<Rightarrow> string \<Rightarrow> bool \<Rightarrow> bool" where
  "hears l key child_notify \<longleftrightarrow> key = l \<or>
     (child_notify \<and> (key = '''' \<or> key = strip_query l \<or> (\<exists>r. strip_query l = key @ ''/'' @ r)))"

lemma check_overlap_fits:
  assumes "partial_match l key" and "key = '''' \<or> CHR ''/'' \<in> set key"
  shows "check_overlap l key = Inr (key = '''' \<or> key = strip_query l \<or> (\<exists>r. strip_query l = key @ ''/'' @ r))"
proof (cases "key = '''' \<or> key = strip_query l")
  case True
  have "strip_query key = key"
    by (rule strip_query_id [OF partial_match_no_mark [OF assms(1)]])
  with True show ?thesis by (auto simp: check_overlap_def Let_def)
next
  case False
  then show ?thesis
    using assms overlap_prefix_core [of key l] by (auto simp: partial_match_iff)
qed

text \<open>What one key of the map contributes, and what the walk does in all.\<close>

definition called :: "string \<Rightarrow> vnode option \<Rightarrow> string \<times> listener list \<Rightarrow> event list" where
  "called l m kv = map (\<lambda>(name, cn, cb). projr (run_callback cb l m))
     (filter (\<lambda>(name, cn, cb). hears l (fst kv) cn) (snd kv))"

lemma call_listeners_called:
  assumes "partial_match l key" and "\<forall>x \<in> set ls. listener_fits key x"
  shows "call_listeners l m key ls = (called l m (key, ls), Inr ())"
  using assms(2)
proof (induction ls)
  case Nil
  then show ?case by (simp add: called_def)
next
  case (Cons x ls)
  obtain name cn cb where x: "x = (name, cn, cb)" by (cases x)
  have key: "prefix key l" using assms(1) by (rule partial_match_prefix)
  obtain ev where ev: "run_callback cb l m = Inr ev"
    using run_callback_fits [OF _ key, of cb m] Cons.prems by (auto simp: x)
  have hit: "(if key = l then Inr True else if cn then check_overlap l key else Inr False) = Inr (hears l key cn)"
    using check_overlap_fits [OF assms(1)] Cons.prems by (auto simp: x hears_def)
  show ?case
    using Cons ev by (cases "hears l key cn") (simp_all add: x hit called_def del: hears_def)
qed

lemma notify_walk_called:
  assumes "\<forall>(key, xs) \<in> set ks. \<forall>x \<in> set xs. listener_fits key x"
  shows "notify_walk l m ks = (concat (map (called l m) (takeWhile (\<lambda>kv. partial_match l (fst kv)) ks)), Inr ())"
  using assms by (induction ks) (auto simp: call_listeners_called)

lemma notify_total:
  assumes "listeners_ok (node_listeners b)"
  shows "notify_listeners l m b =
    (b, concat (map (called l m) (takeWhile (\<lambda>kv. partial_match l (fst kv)) (omap_upto l (node_listeners b)))), Inr ())"
proof -
  have "set (omap_upto l (node_listeners b)) \<subseteq> set (node_listeners b)"
    using assms set_omap_upto [of "node_listeners b" l] by (auto simp: listeners_ok_def)
  then have "\<forall>(key, xs) \<in> set (omap_upto l (node_listeners b)). \<forall>x \<in> set xs. listener_fits key x"
    using assms unfolding listeners_ok_def by blast
  then show ?thesis by (simp add: notify_listeners_def notify_walk_called)
qed


lemma listeners_ok_new [simp]: "listeners_ok (node_listeners (simple_new t))"
  by (simp add: listeners_ok_def simple_new_def)

lemma listeners_ok_map:
  "listeners_ok ls \<longleftrightarrow> omap_ok ls \<and> (\<forall>key xs. map_of ls key = Some xs \<longrightarrow> (\<forall>x \<in> set xs. listener_fits key x))"
  by (fastforce simp: listeners_ok_def omap_map_of_mem simp del: listener_fits.simps)

lemma listeners_of_deregister:
  "map_of (node_listeners (simple_deregister name rule b)) k =
     (if k = rule then
        (case map_of (node_listeners b) rule of None \<Rightarrow> None
         | Some xs \<Rightarrow> if filter (\<lambda>x. fst x \<noteq> name) xs = [] then None else Some (filter (\<lambda>x. fst x \<noteq> name) xs))
      else map_of (node_listeners b) k)"
  by (simp add: simple_deregister_def Let_def split: option.split)

lemma omap_ok_deregister:
  "omap_ok (node_listeners b) \<Longrightarrow> omap_ok (node_listeners (simple_deregister name rule b))"
  by (simp add: simple_deregister_def Let_def split: option.split)

lemma listeners_ok_deregister:
  assumes "listeners_ok (node_listeners b)"
  shows "listeners_ok (node_listeners (simple_deregister name rule b))"
  using assms unfolding listeners_ok_map
  by (auto simp: omap_ok_deregister listeners_of_deregister split: option.splits if_splits)

lemma listeners_of_register:
  "map_of (node_listeners (simple_register name rule cn cb b)) k =
     (if k = rule then Some (filter (\<lambda>x. fst x \<noteq> name)
          (case map_of (node_listeners b) rule of None \<Rightarrow> [] | Some xs \<Rightarrow> xs) @ [(name, cn, cb)])
      else map_of (node_listeners b) k)"
  by (auto simp: simple_register_def Let_def listeners_of_deregister split: option.splits)

lemma listeners_ok_register:
  assumes "listeners_ok (node_listeners b)" and "listener_fits rule (name, cn, cb)"
  shows "listeners_ok (node_listeners (simple_register name rule cn cb b))"
proof -
  have "omap_ok (node_listeners (simple_register name rule cn cb b))"
    using assms(1) by (auto simp: simple_register_def Let_def listeners_ok_def omap_ok_deregister split: option.split)
  moreover have "listener_fits key x"
    if "map_of (node_listeners (simple_register name rule cn cb b)) key = Some xs" "x \<in> set xs" for key xs x
    using that assms unfolding listeners_ok_map listeners_of_register
    by (cases "map_of (node_listeners b) rule") (auto split: if_splits simp del: listener_fits.simps)
  ultimately show ?thesis unfolding listeners_ok_map by blast
qed

text \<open>The key equal to the label is the first the walk visits.\<close>

lemma omap_upto_first:
  assumes "omap_ok m" and "map_of m l = Some xs"
  shows "\<exists>rest. omap_upto l m = (l, xs) # rest"
  using assms
proof (induction m)
  case (Cons p m)
  obtain k v where p: "p = (k, v)" by (cases p)
  show ?case
  proof (cases "k = l")
    case True
    have "takeWhile (\<lambda>q. fst q \<le> l) m = []"
    proof (cases m)
      case (Cons q m')
      then show ?thesis using Cons.prems(1) True p by (cases q) (auto simp: omap_ok_Cons)
    qed simp
    then show ?thesis using Cons.prems(2) True by (simp add: omap_upto_def p)
  next
    case False
    then have mem: "map_of m l = Some xs" using Cons.prems(2) by (simp add: p)
    then have "(l, xs) \<in> set m" by (rule map_of_SomeD)
    then have "k \<le> l" using Cons.prems(1) by (force simp: p omap_ok_Cons)
    then show ?thesis
      using Cons.IH mem Cons.prems(1) by (auto simp: p omap_ok_Cons omap_upto_def)
  qed
qed simp

lemma register_notify_core:
  assumes "listeners_ok (node_listeners b)" and "listener_fits l (name, cn, cb)" and "CHR ''?'' \<notin> set l"
    and "run_callback cb l m = Inr ev"
  shows "(\<exists>before evs. notify_listeners l m (simple_register name l cn cb b) =
      (simple_register name l cn cb b, before @ ev # evs, Inr ()) \<and>
      before = called l m (l, filter (\<lambda>x. fst x \<noteq> name)
        (case map_of (node_listeners b) l of None \<Rightarrow> [] | Some xs \<Rightarrow> xs))) \<and>
    (\<forall>xs. map_of (node_listeners (simple_deregister name l (simple_register name l cn cb b))) l = Some xs \<longrightarrow>
       name \<notin> fst ` set xs)"
proof
  let ?b = "simple_register name l cn cb b"
  let ?others = "filter (\<lambda>x. fst x \<noteq> name) (case map_of (node_listeners b) l of None \<Rightarrow> [] | Some xs \<Rightarrow> xs)"
  have ok: "listeners_ok (node_listeners ?b)" by (rule listeners_ok_register [OF assms(1,2)])
  then obtain rest where "omap_upto l (node_listeners ?b) = (l, ?others @ [(name, cn, cb)]) # rest"
    using omap_upto_first [of "node_listeners ?b" l] by (auto simp: listeners_ok_map listeners_of_register)
  moreover have "partial_match l l" by (simp add: partial_match_iff strip_query_id [OF assms(3)])
  moreover have "called l m (l, ?others @ [(name, cn, cb)]) = called l m (l, ?others) @ [ev]"
    using assms(4) by (simp add: called_def hears_def)
  ultimately show "\<exists>before evs. notify_listeners l m ?b = (?b, before @ ev # evs, Inr ()) \<and>
      before = called l m (l, ?others)"
    using notify_total [OF ok, of l m] by simp
  show "\<forall>xs. map_of (node_listeners (simple_deregister name l ?b)) l = Some xs \<longrightarrow> name \<notin> fst ` set xs"
    by (auto simp: listeners_of_deregister split: option.splits if_splits)
qed

text \<open>
  After registering a listener on a label without a query part, every notification of that label
  invokes its callback, exactly once for that name however often it was registered, with the
  label and the node; after deregistering it, the name has no listener on the label.
\<close>

theorem register_notify:
  assumes "listeners_ok (node_listeners b)" and "listener_fits l (name, cn, cb)" and "CHR ''?'' \<notin> set l"
    and "run_callback cb l m = Inr ev"
  shows "(\<exists>before evs. notify_listeners l m (simple_register name l cn cb b) =
      (simple_register name l cn cb b, before @ ev # evs, Inr ()) \<and>
      before = called l m (l, filter (\<lambda>x. fst x \<noteq> name)
        (case map_of (node_listeners b) l of None \<Rightarrow> [] | Some xs \<Rightarrow> xs))) \<and>
    (\<forall>xs. map_of (node_listeners (simple_deregister name l (simple_register name l cn cb b))) l = Some xs \<longrightarrow>
       name \<notin> fst ` set xs)"
  using assms by (rule register_notify_core)

text \<open>
  The walk stops at the first key that is no prefix of the label: a listener on an ancestor is
  not called when some key between the ancestor and the label in the map's order is not itself
  an ancestor.
\<close>

theorem sibling_hides_ancestor:
  assumes "listeners_ok (node_listeners b)" and "(key, ls) \<in> set (node_listeners b)"
    and "(other, ls') \<in> set (node_listeners b)" and "key < other" and "other \<le> l" and "\<not> prefix other l"
  shows "\<exists>evs. notify_listeners l m b = (b, evs, Inr ()) \<and>
    evs = concat (map (called l m) (takeWhile (\<lambda>kv. partial_match l (fst kv)) (omap_upto l (node_listeners b)))) \<and>
    key \<notin> fst ` set (takeWhile (\<lambda>kv. partial_match l (fst kv)) (omap_upto l (node_listeners b)))"
proof -
  let ?ks = "omap_upto l (node_listeners b)"
  have desc: "sorted_wrt (\<lambda>p q. fst q < fst p) ?ks"
  proof -
    have "sorted_wrt (\<lambda>p q. fst p < fst q) (node_listeners b)"
      using assms(1) by (simp add: listeners_ok_def omap_ok_def sorted_wrt_map)
    then have "sorted_wrt (\<lambda>p q. fst p < fst q) (takeWhile (\<lambda>p. fst p \<le> l) (node_listeners b))"
      by (metis sorted_wrt_append takeWhile_dropWhile_id)
    then show ?thesis by (simp add: omap_upto_def sorted_wrt_rev)
  qed
  have "(other, ls') \<in> set ?ks"
    using assms by (simp add: listeners_ok_def set_omap_upto)
  then obtain xs ys where ks: "?ks = xs @ (other, ls') # ys" by (auto simp: in_set_conv_decomp)
  have stop: "\<not> partial_match l other" using assms(6) partial_match_prefix by blast
  have "set (takeWhile (\<lambda>kv. partial_match l (fst kv)) ?ks) \<subseteq> set xs"
    using stop by (auto simp: ks takeWhile_append dest: set_takeWhileD)
  moreover have "key \<notin> fst ` set xs"
    using desc assms(4) by (auto simp: ks sorted_wrt_append)
  ultimately show ?thesis using notify_total [OF assms(1), of l m] by blast
qed

section \<open>The backend as a whole\<close>

text \<open>All the callbacks a notification invokes, and what the mutating operations do in sum.\<close>

definition notified :: "simple_backend \<Rightarrow> string \<Rightarrow> vnode option \<Rightarrow> event list" where
  "notified b l m =
     concat (map (called l m) (takeWhile (\<lambda>kv. partial_match l (fst kv)) (omap_upto l (node_listeners b))))"

definition simple_inv :: "simple_backend \<Rightarrow> bool" where
  "simple_inv b \<longleftrightarrow> keyed (memory_tree b) \<and> listeners_ok (node_listeners b)"

lemma notify_notified:
  "listeners_ok (node_listeners b) \<Longrightarrow> notify_listeners l m b = (b, notified b l m, Inr ())"
  by (simp add: notify_total notified_def)

lemma notified_tree [simp]: "notified (b\<lparr>memory_tree := t\<rparr>) l m = notified b l m"
  by (simp add: notified_def)

lemma notify_each:
  "listeners_ok (node_listeners b) \<Longrightarrow>
     act_each (\<lambda>x. notify_listeners (f x) (g x)) xs b = (b, concat (map (\<lambda>x. notified b (f x) (g x)) xs), Inr ())"
proof (induction xs)
  case Nil
  then show ?case by (simp add: act_return_def)
next
  case (Cons x xs)
  then show ?case
    by (simp add: act_bind_Inr [OF notify_notified])
qed

lemma simple_upsert_eq:
  assumes "listeners_ok (node_listeners b)"
  shows "simple_upsert ns b = (b\<lparr>memory_tree := tree_upsert ns (memory_tree b)\<rparr>,
    concat (map (\<lambda>n. notified b (label_rule n) (Some n)) ns), Inr True)"
  using notify_each [of "b\<lparr>memory_tree := tree_upsert ns (memory_tree b)\<rparr>" label_rule Some ns] assms
  by (simp add: simple_upsert_def act_bind_def act_return_def)

lemma simple_delete_eq:
  assumes "listeners_ok (node_listeners b)"
  shows "simple_delete l b = (b\<lparr>memory_tree := fst (tree_delete l (memory_tree b))\<rparr>, notified b l None, Inr True)"
  using assms notify_notified [of "b\<lparr>memory_tree := fst (tree_delete l (memory_tree b))\<rparr>"]
  by (simp add: simple_delete_def act_bind_def act_return_def)

lemma keyed_tree_delete: "keyed t \<Longrightarrow> keyed (fst (tree_delete l t))"
  by (simp add: tree_delete_def keyed_delete_loop keyed_erase split: option.split)

lemma tree_delete_view:
  assumes "keyed t"
  shows "map_of (fst (tree_delete l t)) l = None" and "map_of (fst (tree_delete l t)) \<subseteq>\<^sub>m map_of t"
    and "\<not> at_or_below l m \<Longrightarrow> map_of (fst (tree_delete l t)) m = map_of t m"
proof -
  have *: "map_of (fst (tree_delete l t)) m = (if reach t {l} m \<and> map_of t l \<noteq> None then None else map_of t m)" for m
    using delete_removes_core [OF assms, of l m, unfolded tree_get_node_def] by blast
  show "map_of (fst (tree_delete l t)) l = None" by (auto simp: * intro: reach.start)
  show "map_of (fst (tree_delete l t)) \<subseteq>\<^sub>m map_of t" by (auto simp: map_le_def * split: if_splits)
  show "\<not> at_or_below l m \<Longrightarrow> map_of (fst (tree_delete l t)) m = map_of t m"
    using reach_below [OF _ assms, of "{l}" m] by (auto simp: * at_or_below_def)
qed

text \<open>The in-memory backend satisfies the contract, with what its map holds as the abstract state.\<close>

interpretation simple: tree_backend simple_ops simple_inv "\<lambda>b. map_of (memory_tree b)" "\<lambda>_. True"
proof
  fix s l assume "simple_inv s"
  then show "b_get_node simple_ops l s = Inr (map_of (memory_tree s) l)"
    by (simp add: simple_ops_def simple_get_node_def tree_get_node_def)
next
  fix s ns assume "simple_inv s"
  then show "\<exists>s' es. b_upsert simple_ops ns s = (s', es, Inr True) \<and> simple_inv s' \<and>
      map_of (memory_tree s') = view_store ns (map_of (memory_tree s))"
    by (simp add: simple_ops_def simple_upsert_eq simple_inv_def keyed_upsert fun_eq_iff map_of_upsert
        view_store_def)
next
  fix s l assume "simple_inv s"
  then show "\<exists>s' es r. b_delete simple_ops l s = (s', es, Inr r) \<and> simple_inv s' \<and>
      map_of (memory_tree s') l = None \<and> map_of (memory_tree s') \<subseteq>\<^sub>m map_of (memory_tree s) \<and>
      (\<forall>m. \<not> at_or_below l m \<longrightarrow> map_of (memory_tree s') m = map_of (memory_tree s) m)"
    by (intro exI [of _ "s\<lparr>memory_tree := fst (tree_delete l (memory_tree s))\<rparr>"] exI [of _ True] exI)
      (simp add: simple_ops_def simple_delete_eq simple_inv_def keyed_tree_delete tree_delete_view)
qed

text \<open>
  C33: on the in-memory backend, a node written is the node read back (up to the restriction its copy
  assignment applies to the property data), and no other label changes.
\<close>

theorem simple_upsert_get:
  assumes "simple_inv b"
  shows "\<exists>b' es. simple_upsert [n] b = (b', es, Inr True) \<and> simple_inv b' \<and>
    simple_get_node (label_rule n) b' = Some (node_assign n) \<and>
    (\<forall>l. l \<noteq> label_rule n \<longrightarrow> simple_get_node l b' = simple_get_node l b)"
proof -
  obtain b' es where "simple_upsert [n] b = (b', es, Inr True)" and "simple_inv b'"
      and "map_of (memory_tree b') = (map_of (memory_tree b))(label_rule n \<mapsto> node_assign n)"
    by (rule simple.upsert_single [OF assms, of n]) (simp_all add: simple_ops_def)
  then show ?thesis by (auto simp: simple_get_node_def tree_get_node_def)
qed

text \<open>
  A rejected transaction leaves the backend as it was and notifies nobody; an applied one
  performs every sub-transaction and then announces each parent and each child, in order, to
  whom it concerns.
\<close>

theorem simple_apply_notifies:
  assumes "simple_inv b"
  shows "simple_apply tr b =
    (if \<forall>s \<in> set tr. admissible (memory_tree b) s
     then (b\<lparr>memory_tree := fold perform_sub tr (memory_tree b)\<rparr>,
           concat (map (\<lambda>(l, m). notified b l m) (concat (map announced tr))), Inr True)
     else (b, [], snd (tree_apply tr (memory_tree b))))"
proof -
  have each: "act_each (\<lambda>(l, m). notify_listeners l m) xs (b\<lparr>memory_tree := t\<rparr>) =
      (b\<lparr>memory_tree := t\<rparr>, concat (map (\<lambda>(l, m). notified b l m) xs), Inr ())" for xs t
    using notify_each [of "b\<lparr>memory_tree := t\<rparr>" fst snd xs] assms
    by (simp add: simple_inv_def case_prod_unfold)
  show ?thesis
  proof (cases "check_subs (memory_tree b) tr")
    case (Inl e)
    then have "\<not> (\<forall>s \<in> set tr. admissible (memory_tree b) s)" using check_subs_ok [of "memory_tree b" tr] by simp
    with Inl show ?thesis by (simp add: simple_apply_def tree_apply_def)
  next
    case (Inr u)
    then have "\<forall>s \<in> set tr. admissible (memory_tree b) s" using check_subs_ok [of "memory_tree b" tr] by simp
    with Inr show ?thesis
      by (simp add: simple_apply_def tree_apply_def act_bind_def each act_return_def)
  qed
qed

text \<open>A backend with one tree and two listeners, for the concrete instances.\<close>

definition zoo_backend :: simple_backend where
  "zoo_backend = simple_register ''b'' ''zoo/cat'' True (User 2)
     (simple_register ''a'' ''zoo/'' True (User 1) (simple_new pond_tree))"

lemma zoo_listeners: "node_listeners zoo_backend =
    [(''zoo/'', [(''a'', True, User 1)]), (''zoo/cat'', [(''b'', True, User 2)])]"
  by (simp add: zoo_backend_def simple_register_def simple_deregister_def simple_new_def less_char_def)

lemma simple_inv_zoo: "simple_inv zoo_backend"
proof -
  have "memory_tree zoo_backend = pond_tree"
    by (simp add: zoo_backend_def simple_register_def simple_deregister_def simple_new_def Let_def)
  then show ?thesis
    by (simp add: simple_inv_def keyed_pond zoo_listeners listeners_ok_def omap_ok_def less_char_def)
qed

theorem simple_upsert_get_witness:
  "\<exists>b' es. simple_upsert [old_oak] zoo_backend = (b', es, Inr True) \<and>
     simple_get_node ''oak'' b' = Some (node_assign old_oak)"
  using simple_upsert_get [OF simple_inv_zoo, of old_oak] by auto

theorem simple_apply_notifies_witness:
  "\<exists>e. simple_apply [((Some 9, ''oak'', Some new_oak), [])] zoo_backend = (zoo_backend, [], e)"
proof -
  have "\<not> admissible (memory_tree zoo_backend) ((Some 9, ''oak'', Some new_oak), [])"
    by (simp add: admissible_def zoo_backend_def simple_register_def simple_deregister_def simple_new_def
        Let_def pond_tree_def tree_upsert_def node_default_def)
  with simple_apply_notifies [OF simple_inv_zoo, of "[((Some 9, ''oak'', Some new_oak), [])]"]
  show ?thesis by simp
qed


theorem register_notify_witness:
  "\<exists>before evs. notify_listeners ''zoo/cat'' None (simple_register ''c'' ''zoo/cat'' False (User 3) zoo_backend) =
     (simple_register ''c'' ''zoo/cat'' False (User 3) zoo_backend, before @ Called 3 ''zoo/cat'' None # evs, Inr ())"
  using register_notify [of zoo_backend "''zoo/cat''" "''c''" False "User 3" None] simple_inv_zoo
  by (auto simp: simple_inv_def)

theorem sibling_hides_ancestor_witness:
  "''zoo/'' \<notin> fst ` set (takeWhile (\<lambda>kv. partial_match ''zoo/dog'' (fst kv)) (omap_upto ''zoo/dog'' (node_listeners zoo_backend)))"
  using sibling_hides_ancestor [of zoo_backend "''zoo/''" "[(''a'', True, User 1)]" "''zoo/cat''" "[(''b'', True, User 2)]"
      "''zoo/dog''" None] simple_inv_zoo
  by (auto simp: simple_inv_def zoo_listeners less_char_def)

text \<open>
  A label with a query part is never heard: a listener registered on such a label ends the walk
  before it starts, for itself and for every listener on an ancestor.
\<close>

theorem query_label_unheard:
  assumes "omap_ok (node_listeners b)" and "map_of (node_listeners b) l = Some xs" and "CHR ''?'' \<in> set l"
  shows "notify_listeners l m b = (b, [], Inr ())"
proof -
  obtain rest where "omap_upto l (node_listeners b) = (l, xs) # rest"
    using omap_upto_first [OF assms(1,2)] by blast
  moreover have "\<not> partial_match l l" using partial_match_no_mark assms(3) by blast
  ultimately show ?thesis by (simp add: notify_listeners_def)
qed

theorem query_label_unheard_witness:
  "notify_listeners ''zoo?x'' None (simple_register ''q'' ''zoo?x'' True (User 1) (simple_new [])) =
    (simple_register ''q'' ''zoo?x'' True (User 1) (simple_new []), [], Inr ())"
  by (rule query_label_unheard [where xs = "[(''q'', True, User 1)]"])
    (simp_all add: simple_register_def simple_deregister_def simple_new_def omap_ok_def)

end
