(* ===== verification/Transactional_Backend.thy ===== *)
theory Transactional_Backend
  imports Simple_Backend
begin

text \<open>
  Transaction layers over any backend (\<open>memory/include/transactional_backend.h\<close>,
  \<open>memory/src/transactional_backend.cpp\<close>): a stack of sub-transactions collects the changes while
  layers are open, reads look into the stack first, and closing applies the whole stack to the
  backend below.
\<close>

record 's transactional =
  t_tree :: 's
  t_stack :: "vspan transaction"

definition transactional_new :: "'s \<Rightarrow> 's transactional" where
  "transactional_new s = \<lparr>t_tree = s, t_stack = []\<rparr>"

abbreviation on_tree :: "('s, 'a) act \<Rightarrow> ('s transactional, 'a) act" where
  "on_tree \<equiv> act_zoom t_tree (\<lambda>s t. t\<lparr>t_tree := s\<rparr>)"

text \<open>The parent of a layer concerns a label: present, and overlapping by the label test.\<close>

definition parent_overlaps :: "string \<Rightarrow> vnode option \<Rightarrow> bool result" where
  "parent_overlaps l m =
     (case m of None \<Rightarrow> Inr False | Some p \<Rightarrow> check_overlap l (label_rule p))"

definition node_is :: "string \<Rightarrow> vnode option \<Rightarrow> bool" where
  "node_is l m = (case m of None \<Rightarrow> False | Some n \<Rightarrow> l = label_rule n)"

fun find_child :: "string \<Rightarrow> vspan new_node_version list \<Rightarrow> vnode option option" where
  "find_child l [] = None"
| "find_child l ((ov, cl, m) # cs) = (if node_is l m then Some m else find_child l cs)"

text \<open>The search of \<open>getNode\<close> in the stack: \<open>Some\<close> what it returns, \<open>None\<close> when it asks the tree.\<close>

fun stack_get :: "string \<Rightarrow> vspan transaction \<Rightarrow> vnode option option result" where
  "stack_get l [] = Inr None"
| "stack_get l (((ov, pl, m), cs) # st) =
     rbind (parent_overlaps l m) (\<lambda>hit.
       if hit then
         (if node_is l m then Inr (Some m)
          else (case find_child l cs of Some c \<Rightarrow> Inr (Some c) | None \<Rightarrow> stack_get l st))
       else stack_get l st)"

definition transactional_get_node ::
  "'s backend_ops \<Rightarrow> string \<Rightarrow> 's transactional \<Rightarrow> vnode option result" where
  "transactional_get_node ops l t =
     rbind (stack_get l (t_stack t)) (\<lambda>r.
       case r of Some m \<Rightarrow> Inr m | None \<Rightarrow> b_get_node ops l (t_tree t))"

text \<open>Replace the first child that is the node; \<open>None\<close> when there is none.\<close>

fun set_child :: "string \<Rightarrow> vnode option \<Rightarrow> vspan new_node_version list \<Rightarrow>
    vspan new_node_version list option" where
  "set_child l new [] = None"
| "set_child l new ((ov, cl, m) # cs) =
     (if node_is l m then Some ((ov, cl, new) # cs)
      else map_option ((#) (ov, cl, m)) (set_child l new cs))"

text \<open>\<open>upsertNode\<close> of one node in the stack: \<open>Some\<close> the new stack when it returned.\<close>

fun stack_upsert :: "vnode \<Rightarrow> vspan transaction \<Rightarrow> vspan transaction option result" where
  "stack_upsert n [] = Inr None"
| "stack_upsert n (((ov, pl, m), cs) # st) =
     (let pass = rbind (stack_upsert n st) (\<lambda>r. Inr (map_option ((#) ((ov, pl, m), cs)) r)) in
      rbind (parent_overlaps (label_rule n) m) (\<lambda>hit.
        if hit then
          (if node_is (label_rule n) m then Inr (Some (((ov, pl, Some n), cs) # st))
           else (case set_child (label_rule n) (Some n) cs of
                   Some cs' \<Rightarrow> Inr (Some (((ov, pl, m), cs') # st))
                 | None \<Rightarrow> pass))
        else pass))"

text \<open>The first node that is found ends the whole call.\<close>

fun stack_upsert_nodes :: "vnode list \<Rightarrow> vspan transaction \<Rightarrow> vspan transaction result" where
  "stack_upsert_nodes [] st = Inr st"
| "stack_upsert_nodes (n # ns) st =
     rbind (stack_upsert n st) (\<lambda>r. case r of Some st' \<Rightarrow> Inr st' | None \<Rightarrow> stack_upsert_nodes ns st)"

definition transactional_upsert :: "'s backend_ops \<Rightarrow> vnode list \<Rightarrow> ('s transactional, bool) act" where
  "transactional_upsert ops ns t =
     (if t_stack t = [] then act_bind (on_tree (b_upsert ops ns)) (\<lambda>_. act_return True) t
      else (case stack_upsert_nodes ns (t_stack t) of
              Inl e \<Rightarrow> (t, [], Inl e)
            | Inr st \<Rightarrow> (t\<lparr>t_stack := st\<rparr>, [], Inr True)))"

text \<open>
  \<open>deleteNode\<close> in the stack: a child of an overlapping layer that is not tracked becomes a new
  deletion entry without an expected version.
\<close>

fun stack_delete :: "string \<Rightarrow> vspan transaction \<Rightarrow> vspan transaction result" where
  "stack_delete l [] =
     Inl (Runtime_Error ''Trying to delete a node in a transaction that is not tracked in the transaction stack'')"
| "stack_delete l (((ov, pl, m), cs) # st) =
     rbind (parent_overlaps l m) (\<lambda>hit.
       if hit then
         (if node_is l m then Inr (((ov, pl, None), cs) # st)
          else (case set_child l None cs of
                  Some cs' \<Rightarrow> Inr (((ov, pl, m), cs') # st)
                | None \<Rightarrow> Inr (((ov, pl, m), cs @ [(None, l, None)]) # st)))
       else rbind (stack_delete l st) (\<lambda>st'. Inr (((ov, pl, m), cs) # st')))"

definition transactional_delete :: "'s backend_ops \<Rightarrow> string \<Rightarrow> ('s transactional, bool) act" where
  "transactional_delete ops l t =
     (if t_stack t = [] then act_bind (on_tree (b_delete ops l)) (\<lambda>_. act_return True) t
      else (case stack_delete l (t_stack t) of
              Inl e \<Rightarrow> (t, [], Inl e)
            | Inr st \<Rightarrow> (t\<lparr>t_stack := st\<rparr>, [], Inr True)))"

fun collect_nodes :: "(string \<Rightarrow> vnode option result) \<Rightarrow> string list \<Rightarrow> vnode list result" where
  "collect_nodes f [] = Inr []"
| "collect_nodes f (l # ls) =
     rbind (f l) (\<lambda>m. rbind (collect_nodes f ls) (\<lambda>ns.
       Inr (case m of None \<Rightarrow> ns | Some n \<Rightarrow> n # ns)))"

definition transactional_page_tree ::
  "'s backend_ops \<Rightarrow> string \<Rightarrow> 's transactional \<Rightarrow> vnode list result" where
  "transactional_page_tree ops l t =
     (if t_stack t = [] then b_page_tree ops l (t_tree t)
      else rbind (transactional_get_node ops l t) (\<lambda>m.
        case m of
          None \<Rightarrow> Inl (Runtime_Error (''Page node not found: '' @ l))
        | Some n \<Rightarrow> collect_nodes (\<lambda>c. transactional_get_node ops c t) (child_names n)))"

definition transactional_relative_page_tree ::
  "'s backend_ops \<Rightarrow> vnode \<Rightarrow> string \<Rightarrow> 's transactional \<Rightarrow> vnode list result" where
  "transactional_relative_page_tree ops n l t =
     transactional_page_tree ops (label_rule n @ ''/'' @ l) t"

text \<open>
  The replacements \<open>queryNodes\<close> makes for one found node: it compares the layers with the query, not
  with the node found; the \<open>break\<close> at a child leaves the inner loop only.
\<close>

fun query_replacements :: "string \<Rightarrow> vspan transaction \<Rightarrow> vnode list result" where
  "query_replacements l [] = Inr []"
| "query_replacements l (((ov, pl, m), cs) # st) =
     rbind (parent_overlaps l m) (\<lambda>hit.
       if hit \<and> node_is l m then Inr [the m]
       else if hit then
         rbind (query_replacements l st) (\<lambda>ns.
           Inr (case find_child l cs of Some (Some c) \<Rightarrow> c # ns | _ \<Rightarrow> ns))
       else query_replacements l st)"

fun query_each :: "string \<Rightarrow> vspan transaction \<Rightarrow> vnode list \<Rightarrow> vnode list result" where
  "query_each l st [] = Inr []"
| "query_each l st (n # ns) =
     rbind (query_replacements l st) (\<lambda>rs. rbind (query_each l st ns) (\<lambda>out.
       Inr ((if rs = [] then [n] else rs) @ out)))"

definition transactional_query ::
  "'s backend_ops \<Rightarrow> string \<Rightarrow> 's transactional \<Rightarrow> vnode list result" where
  "transactional_query ops l t =
     (if t_stack t = [] then b_query ops l (t_tree t)
      else rbind (b_query ops l (t_tree t)) (query_each l (t_stack t)))"

definition transactional_relative_query ::
  "'s backend_ops \<Rightarrow> vnode \<Rightarrow> string \<Rightarrow> 's transactional \<Rightarrow> vnode list result" where
  "transactional_relative_query ops n l t = transactional_query ops (label_rule n @ ''/'' @ l) t"

definition transactional_full_tree :: "'s backend_ops \<Rightarrow> 's transactional \<Rightarrow> vnode list result" where
  "transactional_full_tree ops t =
     (if t_stack t = [] then b_full_tree ops (t_tree t)
      else Inl (Runtime_Error ''getFullTree() is not supported in transaction mode''))"

fun any_overlap :: "string \<Rightarrow> vspan transaction \<Rightarrow> bool result" where
  "any_overlap l [] = Inr False"
| "any_overlap l (((ov, pl, m), cs) # st) =
     rbind (parent_overlaps l m) (\<lambda>hit. if hit then Inr True else any_overlap l st)"

text \<open>
  \<open>openTransactionLayer\<close>: the version it records as the old one is the successor of the version in
  the tree.
\<close>

definition transactional_open :: "'s backend_ops \<Rightarrow> vnode \<Rightarrow> ('s transactional, bool) act" where
  "transactional_open ops n t =
     (case any_overlap (label_rule n) (t_stack t) of
        Inl e \<Rightarrow> (t, [], Inl e)
      | Inr True \<Rightarrow> (t, [], Inl (Runtime_Error ''Label rule overlap detected in transaction stack''))
      | Inr False \<Rightarrow>
          (case b_get_node ops (label_rule n) (t_tree t) of
             Inl e \<Rightarrow> (t, [], Inl e)
           | Inr None \<Rightarrow>
               (t\<lparr>t_stack := t_stack t @ [((None, label_rule n, Some n), [])]\<rparr>, [], Inr True)
           | Inr (Some p) \<Rightarrow>
               let v = node_version p in
               if max_version_sequence v = 0 then (t, [], Inl Undefined_Behaviour)
               else
                 let next = of_nat ((unat (version_number v) + 1) mod unat (max_version_sequence v)) in
                 (t\<lparr>t_stack := t_stack t @ [((Some next, label_rule n, Some n), [])]\<rparr>, [], Inr True)))"

definition transactional_close :: "'s backend_ops \<Rightarrow> ('s transactional, bool) act" where
  "transactional_close ops t =
     (if t_stack t = [] then (t, [], Inr True)
      else act_bind (on_tree (b_apply ops (t_stack t)))
             (\<lambda>_ t'. (t'\<lparr>t_stack := []\<rparr>, [], Inr True)) t)"

text \<open>The virtual functions of \<open>TransactionalBackend\<close> over the backend it was given.\<close>

definition transactional_ops :: "'s backend_ops \<Rightarrow> 's transactional backend_ops" where
  "transactional_ops ops = \<lparr>
     b_get_node = transactional_get_node ops,
     b_upsert = transactional_upsert ops,
     b_delete = transactional_delete ops,
     b_page_tree = transactional_page_tree ops,
     b_relative_page_tree = transactional_relative_page_tree ops,
     b_query = transactional_query ops,
     b_relative_query = transactional_relative_query ops,
     b_open_layer = transactional_open ops,
     b_close_layers = transactional_close ops,
     b_apply = (\<lambda>tr. on_tree (b_apply ops tr)),
     b_full_tree = transactional_full_tree ops,
     b_register = (\<lambda>name rule cn cb. on_tree (b_register ops name rule cn (Transactional_Wrap cb))),
     b_deregister = (\<lambda>name rule. on_tree (b_deregister ops name rule)),
     b_notify = (\<lambda>l m. on_tree (b_notify ops l m)),
     b_process = on_tree (b_process ops)\<rparr>"

section \<open>With no layer open, the backend is the one below\<close>

lemma on_tree_bind_True:
  "m (t_tree t) = (s', es, Inr x) \<Longrightarrow>
     act_bind (on_tree m) (\<lambda>_. act_return y) t = (t\<lparr>t_tree := s'\<rparr>, es, Inr y)"
  by (simp add: act_bind_def act_zoom_def act_return_def)

text \<open>A backend that satisfies the contract satisfies it under a transaction wrapper without layers.\<close>

context tree_backend
begin

lemma under_transactions:
  "tree_backend (transactional_ops ops) (\<lambda>t. inv (t_tree t) \<and> t_stack t = []) (\<lambda>t. view (t_tree t)) accepts"
proof
  fix s :: "'s transactional" and l assume "inv (t_tree s) \<and> t_stack s = []"
  then show "b_get_node (transactional_ops ops) l s = Inr (view (t_tree s) l)"
    by (simp add: transactional_ops_def transactional_get_node_def get_node)
next
  fix s :: "'s transactional" and ns assume s: "inv (t_tree s) \<and> t_stack s = []" and ns: "\<forall>n \<in> set ns. accepts n"
  obtain s' es where s': "b_upsert ops ns (t_tree s) = (s', es, Inr True)" "inv s'"
      "view s' = view_store ns (view (t_tree s))"
    using upsert [OF _ ns, of "t_tree s"] s by blast
  then show "\<exists>s' es. b_upsert (transactional_ops ops) ns s = (s', es, Inr True) \<and>
      (inv (t_tree s') \<and> t_stack s' = []) \<and> view (t_tree s') = view_store ns (view (t_tree s))"
    using s by (simp add: transactional_ops_def transactional_upsert_def on_tree_bind_True)
next
  fix s :: "'s transactional" and l assume s: "inv (t_tree s) \<and> t_stack s = []"
  obtain s' es r where s': "b_delete ops l (t_tree s) = (s', es, Inr r)" "inv s'"
      "view s' l = None" "view s' \<subseteq>\<^sub>m view (t_tree s)"
      "\<forall>m. \<not> at_or_below l m \<longrightarrow> view s' m = view (t_tree s) m"
    using delete [of "t_tree s" l] s by blast
  have "b_delete (transactional_ops ops) l s = (s\<lparr>t_tree := s'\<rparr>, es, Inr True)"
    using s s'(1) by (simp add: transactional_ops_def transactional_delete_def on_tree_bind_True)
  then show "\<exists>s' es r. b_delete (transactional_ops ops) l s = (s', es, Inr r) \<and>
      (inv (t_tree s') \<and> t_stack s' = []) \<and> view (t_tree s') l = None \<and>
      view (t_tree s') \<subseteq>\<^sub>m view (t_tree s) \<and>
      (\<forall>m. \<not> at_or_below l m \<longrightarrow> view (t_tree s') m = view (t_tree s) m)"
    using s s' by (intro exI [of _ "s\<lparr>t_tree := s'\<rparr>"] exI [of _ es] exI [of _ True]) simp
qed

end

interpretation layered: tree_backend "transactional_ops simple_ops"
  "\<lambda>t. simple_inv (t_tree t) \<and> t_stack t = []" "\<lambda>t. map_of (memory_tree (t_tree t))" "\<lambda>_. True"
  by (rule simple.under_transactions)

section \<open>Layers\<close>

text \<open>
  C35: while a layer is open, upserts, deletes and further layers change the stack only: the tree
  below is untouched and no listener is called, whether the call succeeds or throws.
\<close>

theorem open_layers_isolate:
  assumes "t_stack t \<noteq> []"
  shows "(\<exists>st r. transactional_upsert ops ns t = (t\<lparr>t_stack := st\<rparr>, [], r)) \<and>
    (\<exists>st r. transactional_delete ops l t = (t\<lparr>t_stack := st\<rparr>, [], r)) \<and>
    (\<exists>st r. transactional_open ops n t = (t\<lparr>t_stack := st\<rparr>, [], r))"
proof (intro conjI)
  show "\<exists>st r. transactional_upsert ops ns t = (t\<lparr>t_stack := st\<rparr>, [], r)"
    using assms unfolding transactional_upsert_def
    by (auto intro: exI [of _ "t_stack t"] split: sum.split)
  show "\<exists>st r. transactional_delete ops l t = (t\<lparr>t_stack := st\<rparr>, [], r)"
    using assms unfolding transactional_delete_def
    by (auto intro: exI [of _ "t_stack t"] split: sum.split)
  show "\<exists>st r. transactional_open ops n t = (t\<lparr>t_stack := st\<rparr>, [], r)"
    unfolding transactional_open_def
    by (auto simp: Let_def intro: exI [of _ "t_stack t"] split: sum.split bool.split option.split)
qed

lemma overlap_self: "check_overlap l l = Inr True"
  by (simp add: check_overlap_def Let_def)

lemma any_overlap_stack_get:
  "any_overlap l st = Inr False \<Longrightarrow> stack_get l (st @ st') = stack_get l st'"
proof (induction l st rule: any_overlap.induct)
  case (2 l ov pl m cs st)
  then show ?case by (auto simp: rbind_def split: sum.splits if_splits)
qed simp

text \<open>
  Opening a layer makes the node visible at once under its label, in front of the tree, and
  the tree below is unchanged.
\<close>

theorem open_layer_reads_own_write:
  assumes "transactional_open ops n t = (t', es, Inr True)"
  shows "transactional_get_node ops (label_rule n) t' = Inr (Some n) \<and> t_tree t' = t_tree t \<and> es = []"
proof -
  obtain ov where t': "t' = t\<lparr>t_stack := t_stack t @ [((ov, label_rule n, Some n), [])]\<rparr>" "es = []"
    and free: "any_overlap (label_rule n) (t_stack t) = Inr False"
    using assms by (auto simp: transactional_open_def Let_def split: sum.splits bool.splits option.splits if_splits)
  have "stack_get (label_rule n) [((ov, label_rule n, Some n), [])] = Inr (Some (Some n))"
    by (simp add: parent_overlaps_def overlap_self node_is_def)
  then show ?thesis
    by (simp add: t' transactional_get_node_def any_overlap_stack_get [OF free])
qed

text \<open>The layer on an existing node carries an old version the tree does not have.\<close>

lemma next_version_differs:
  fixes a m :: u16
  assumes "m \<noteq> 0" and "m \<noteq> 1" and "unat a < unat m"
  shows "of_nat ((unat a + 1) mod unat m) \<noteq> a"
proof
  assume eq: "of_nat ((unat a + 1) mod unat m) = a"
  have "unat m \<noteq> unat (0 :: u16)" "unat m \<noteq> unat (1 :: u16)"
    using assms(1,2) by (metis unsigned_word_eqI)+
  then have m: "1 < unat m" by simp
  have "(unat a + 1) mod unat m < unat m" using m by simp
  also have "unat m < 2 ^ 16" using unsigned_less [of m] by simp
  finally have "unat (of_nat ((unat a + 1) mod unat m) :: u16) = (unat a + 1) mod unat m"
    by (simp add: unat_of_nat)
  with eq have "(unat a + 1) mod unat m = unat a" by simp
  then show False using assms(3) m by (auto simp: mod_if split: if_splits)
qed


text \<open>
  A layer opened on a new label commits: closing stores the node in the in-memory tree, empties
  the stack and announces it.
\<close>

theorem layer_on_new_node_commits:
  assumes "simple_inv (t_tree t)" and "t_stack t = []" and "simple_get_node (label_rule n) (t_tree t) = None"
  shows "\<exists>t1 t2. transactional_open simple_ops n t = (t1, [], Inr True) \<and>
    transactional_close simple_ops t1 = (t2, notified (t_tree t) (label_rule n) (Some n), Inr True) \<and>
    t_stack t2 = [] \<and> simple_inv (t_tree t2) \<and>
    map_of (memory_tree (t_tree t2)) = (map_of (memory_tree (t_tree t)))(label_rule n \<mapsto> node_assign n)"
proof -
  let ?st = "[((None, label_rule n, Some n), [])]"
  let ?t1 = "t\<lparr>t_stack := ?st\<rparr>"
  have open': "transactional_open simple_ops n t = (?t1, [], Inr True)"
    using assms(2,3) by (simp add: transactional_open_def simple_ops_def)
  have lk: "listeners_ok (node_listeners (t_tree t))" and kt: "keyed (memory_tree (t_tree t))"
    using assms(1) by (simp_all add: simple_inv_def)
  have absent: "map_of (memory_tree (t_tree t)) (label_rule n) = None"
    using assms(3) by (simp add: simple_get_node_def tree_get_node_def)
  let ?b = "(t_tree t)\<lparr>memory_tree := tree_store (label_rule n) n (memory_tree (t_tree t))\<rparr>"
  have "simple_apply ?st (t_tree t) = (?b, notified (t_tree t) (label_rule n) (Some n), Inr True)"
    using absent notify_notified [of ?b "label_rule n" "Some n"] lk
    by (simp add: simple_apply_def tree_apply_def act_bind_def act_return_def)
  then have "transactional_close simple_ops ?t1 = (?t1\<lparr>t_tree := ?b, t_stack := []\<rparr>,
      notified (t_tree t) (label_rule n) (Some n), Inr True)"
    by (simp add: transactional_close_def act_bind_def act_zoom_def simple_ops_def)
  with open' show ?thesis
    using lk kt by (intro exI [of _ ?t1] exI) (auto simp: simple_inv_def keyed_store)
qed

lemma zoo_tree: "memory_tree zoo_backend = pond_tree"
  by (simp add: zoo_backend_def simple_register_def simple_deregister_def simple_new_def Let_def)

lemma pond_tree_oak: "map_of pond_tree ''oak'' = Some (node_assign old_oak)"
  by (simp add: pond_tree_def tree_upsert_def old_oak_def)

theorem open_layers_isolate_witness:
  "\<exists>st r. transactional_delete simple_ops ''x''
     (transactional_new zoo_backend \<lparr>t_stack := [((None, ''oak'', Some new_oak), [])]\<rparr>) =
     (transactional_new zoo_backend \<lparr>t_stack := st\<rparr>, [], r)"
  using open_layers_isolate [of "transactional_new zoo_backend \<lparr>t_stack := [((None, ''oak'', Some new_oak), [])]\<rparr>"
      simple_ops "[]" "''x''" old_oak]
  by auto


theorem open_layer_reads_own_write_witness:
  "\<exists>t'. transactional_get_node simple_ops ''oak'' t' = Inr (Some new_oak)"
proof -
  have "transactional_open simple_ops new_oak (transactional_new (simple_new [])) =
      ((transactional_new (simple_new []))\<lparr>t_stack := [((None, ''oak'', Some new_oak), [])]\<rparr>, [], Inr True)"
    by (simp add: transactional_open_def transactional_new_def simple_ops_def simple_get_node_def
        simple_new_def tree_get_node_def)
  from open_layer_reads_own_write [OF this] show ?thesis by auto
qed

theorem layer_on_new_node_commits_witness:
  "\<exists>t1 t2 es. transactional_open simple_ops new_oak (transactional_new (simple_new [])) = (t1, [], Inr True) \<and>
    transactional_close simple_ops t1 = (t2, es, Inr True) \<and> t_stack t2 = []"
  using layer_on_new_node_commits [of "transactional_new (simple_new [])" new_oak]
  by (auto simp: transactional_new_def simple_inv_def simple_new_def listeners_ok_def simple_get_node_def tree_get_node_def)

end
