(* ===== verification/Threadsafe_Backend.thy ===== *)
theory Threadsafe_Backend
  imports Transactional_Backend
begin

text \<open>
  The thread-safe layer (\<open>memory/include/threadsafe_backend.h\<close>,
  \<open>memory/src/threadsafe_backend.cpp\<close>): every operation locks the tree and delegates; a callback
  invoked below only pushes its arguments on a stack, which \<open>processNotifications\<close> empties.
  The mutex around each operation makes it one step, so the model has an interleaving of threads as
  a sequence of operations. A second lock of a \<open>std::mutex\<close> by the thread that holds it is
  undefined behaviour, and modelled as such.
\<close>

record 's threadsafe =
  ts_tree :: 's
  ts_stack :: "(callback \<times> string \<times> vnode option) list"

definition threadsafe_new :: "'s \<Rightarrow> 's threadsafe" where
  "threadsafe_new s = \<lparr>ts_tree = s, ts_stack = []\<rparr>"

text \<open>
  The wrapper of backend number \<open>i\<close> pushes; every other callback invoked below is invoked.
\<close>

fun pushed :: "nat \<Rightarrow> event list \<Rightarrow> (callback \<times> string \<times> vnode option) list" where
  "pushed i [] = []"
| "pushed i (Queued j cb l m # es) = (if i = j then [(cb, l, m)] else []) @ pushed i es"
| "pushed i (Called k l m # es) = pushed i es"

fun passed :: "nat \<Rightarrow> event list \<Rightarrow> event list" where
  "passed i [] = []"
| "passed i (Queued j cb l m # es) = (if i = j then [] else [Queued j cb l m]) @ passed i es"
| "passed i (Called k l m # es) = Called k l m # passed i es"

definition locked :: "nat \<Rightarrow> ('s, 'a) act \<Rightarrow> ('s threadsafe, 'a) act" where
  "locked i m t =
     (case m (ts_tree t) of
        (s, es, r) \<Rightarrow> (\<lparr>ts_tree = s, ts_stack = ts_stack t @ pushed i es\<rparr>, passed i es, r))"

text \<open>
  \<open>notifyListeners\<close> holds the mutex of the stack, which the wrapper of a listener registered here
  locks again.
\<close>

fun before_own :: "nat \<Rightarrow> event list \<Rightarrow> event list" where
  "before_own i [] = []"
| "before_own i (e # es) =
     (case e of Queued j cb l m \<Rightarrow> if i = j then [] else e # before_own i es
      | Called k l m \<Rightarrow> e # before_own i es)"

definition threadsafe_notify :: "nat \<Rightarrow> 's backend_ops \<Rightarrow> string \<Rightarrow> vnode option \<Rightarrow> ('s threadsafe, unit) act" where
  "threadsafe_notify i ops l m t =
     (case b_notify ops l m (ts_tree t) of
        (s, es, r) \<Rightarrow>
          if pushed i es = [] then (t\<lparr>ts_tree := s\<rparr>, es, r)
          else (t\<lparr>ts_tree := s\<rparr>, before_own i es, Inl Undefined_Behaviour))"

text \<open>
  The loop of \<open>processNotifications\<close>: the last pushed is taken first; the mutex is free while the
  callback runs, and a callback may push again.
\<close>

lemma run_callback_smaller: "run_callback cb l m = Inr (Queued i cb' l' m') \<Longrightarrow> size cb' < size cb"
  by (induction cb l m rule: run_callback.induct)
    (fastforce simp: rbind_Inr_iff intro: less_SucI split: option.splits)+

definition stack_weight :: "(callback \<times> string \<times> vnode option) list \<Rightarrow> nat" where
  "stack_weight st = (\<Sum>e \<leftarrow> st. Suc (size (fst e)))"

lemma stack_weight_simps [simp]:
  "stack_weight (xs @ [e]) = stack_weight xs + Suc (size (fst e))"
  by (simp add: stack_weight_def)

lemma stack_weight_last:
  assumes "st \<noteq> []"
  shows "stack_weight st = stack_weight (butlast st) + Suc (size (fst (last st)))"
  using assms stack_weight_simps(1) [of "butlast st" "last st"] by simp

function process_stack :: "nat \<Rightarrow> (callback \<times> string \<times> vnode option) list \<Rightarrow>
    (callback \<times> string \<times> vnode option) list \<times> event list \<times> unit result" where
  "process_stack i st =
     (if st = [] then ([], [], Inr ())
      else
        let (cb, l, m) = last st; rest = butlast st in
        (case run_callback cb l m of
           Inl e \<Rightarrow> (rest, [], Inl e)
         | Inr (Queued j cb' l' m') \<Rightarrow>
             if i = j then process_stack i (rest @ [(cb', l', m')])
             else (case process_stack i rest of (st', es, r) \<Rightarrow> (st', Queued j cb' l' m' # es, r))
         | Inr (Called k l' m') \<Rightarrow>
             (case process_stack i rest of (st', es, r) \<Rightarrow> (st', Called k l' m' # es, r))))"
  by pat_completeness auto

termination process_stack
proof (relation "measure (\<lambda>(i, st). stack_weight st)")
qed (auto simp: stack_weight_last dest!: run_callback_smaller dest: sym [of "(_, _, _)"])

declare process_stack.simps [simp del]

definition threadsafe_process :: "nat \<Rightarrow> ('s threadsafe, unit) act" where
  "threadsafe_process i t =
     (case process_stack i (ts_stack t) of (st, es, r) \<Rightarrow> (t\<lparr>ts_stack := st\<rparr>, es, r))"

text \<open>The virtual functions of \<open>ThreadsafeBackend\<close> number \<open>i\<close>.\<close>

definition threadsafe_ops :: "nat \<Rightarrow> 's backend_ops \<Rightarrow> 's threadsafe backend_ops" where
  "threadsafe_ops i ops = \<lparr>
     b_get_node = (\<lambda>l t. b_get_node ops l (ts_tree t)),
     b_upsert = (\<lambda>ns. locked i (b_upsert ops ns)),
     b_delete = (\<lambda>l. locked i (b_delete ops l)),
     b_page_tree = (\<lambda>l t. b_page_tree ops l (ts_tree t)),
     b_relative_page_tree = (\<lambda>n l t. b_relative_page_tree ops n l (ts_tree t)),
     b_query = (\<lambda>l t. b_query ops l (ts_tree t)),
     b_relative_query = (\<lambda>n l t. b_relative_query ops n l (ts_tree t)),
     b_open_layer = (\<lambda>n. locked i (b_open_layer ops n)),
     b_close_layers = locked i (b_close_layers ops),
     b_apply = (\<lambda>tr. locked i (b_apply ops tr)),
     b_full_tree = (\<lambda>t. b_full_tree ops (ts_tree t)),
     b_register = (\<lambda>name rule cn cb. locked i (b_register ops name rule cn (Threadsafe_Wrap i cb))),
     b_deregister = (\<lambda>name rule. locked i (b_deregister ops name rule)),
     b_notify = threadsafe_notify i ops,
     b_process = threadsafe_process i\<rparr>"

section \<open>The tree is the one below\<close>

context tree_backend
begin

lemma under_lock:
  "tree_backend (threadsafe_ops i ops) (\<lambda>t. inv (ts_tree t)) (\<lambda>t. view (ts_tree t)) accepts"
proof
  fix s :: "'s threadsafe" and l assume "inv (ts_tree s)"
  then show "b_get_node (threadsafe_ops i ops) l s = Inr (view (ts_tree s) l)"
    by (simp add: threadsafe_ops_def get_node)
next
  fix s :: "'s threadsafe" and ns assume s: "inv (ts_tree s)" and ns: "\<forall>n \<in> set ns. accepts n"
  obtain s' es where "b_upsert ops ns (ts_tree s) = (s', es, Inr True)" "inv s'"
      "view s' = view_store ns (view (ts_tree s))"
    using upsert [OF s ns] by blast
  then show "\<exists>s' es. b_upsert (threadsafe_ops i ops) ns s = (s', es, Inr True) \<and>
      inv (ts_tree s') \<and> view (ts_tree s') = view_store ns (view (ts_tree s))"
    by (simp add: threadsafe_ops_def locked_def)
next
  fix s :: "'s threadsafe" and l assume s: "inv (ts_tree s)"
  obtain s' es r where "b_delete ops l (ts_tree s) = (s', es, Inr r)" "inv s'"
      "view s' l = None" "view s' \<subseteq>\<^sub>m view (ts_tree s)"
      "\<forall>m. \<not> at_or_below l m \<longrightarrow> view s' m = view (ts_tree s) m"
    using delete [OF s, of l] by blast
  then show "\<exists>s' es r. b_delete (threadsafe_ops i ops) l s = (s', es, Inr r) \<and>
      inv (ts_tree s') \<and> view (ts_tree s') l = None \<and> view (ts_tree s') \<subseteq>\<^sub>m view (ts_tree s) \<and>
      (\<forall>m. \<not> at_or_below l m \<longrightarrow> view (ts_tree s') m = view (ts_tree s) m)"
    by (simp add: threadsafe_ops_def locked_def)
qed

end

interpretation threadsafe: tree_backend "threadsafe_ops i simple_ops"
  "\<lambda>t. simple_inv (ts_tree t)" "\<lambda>t. map_of (memory_tree (ts_tree t))" "\<lambda>_. True" for i
  by (rule simple.under_lock)

section \<open>Notifications\<close>

text \<open>A stack of plain callbacks is emptied from its end.\<close>

fun plain :: "callback \<times> string \<times> vnode option \<Rightarrow> bool" where
  "plain (User k, l, m) = True"
| "plain (cb, l, m) = False"

fun invoked :: "callback \<times> string \<times> vnode option \<Rightarrow> event" where
  "invoked (User k, l, m) = Called k l m"
| "invoked (cb, l, m) = Queued 0 cb l m"

lemma process_plain:
  "\<forall>e \<in> set st. plain e \<Longrightarrow> process_stack i st = ([], map invoked (rev st), Inr ())"
proof (induction st rule: rev_induct)
  case Nil
  then show ?case by (simp add: process_stack.simps)
next
  case (snoc e st)
  then have e: "plain e" by simp
  obtain cb l m where cb: "e = (cb, l, m)" by (cases e)
  then obtain k where "e = (User k, l, m)"
    using e by (cases cb) auto
  then show ?case
    using snoc by (subst process_stack.simps) simp
qed

lemma pushed_append: "pushed i (es @ fs) = pushed i es @ pushed i fs"
  by (induction i es rule: pushed.induct) auto



text \<open>
  C36: nothing is lost and nothing is called early: an operation of the backend below whose callbacks
  are all registered through this backend calls nothing, and the next processing calls exactly
  those callbacks, with the labels and nodes they had, in the reverse order.
\<close>

theorem notifications_deferred:
  assumes "m (ts_tree t) = (s, map (\<lambda>(k, l, n). Queued i (User k) l n) calls, r)"
  shows "\<exists>t1. locked i m t = (t1, [], r) \<and> ts_tree t1 = s \<and>
    ((\<forall>e \<in> set (ts_stack t). plain e) \<longrightarrow>
      threadsafe_process i t1 = (\<lparr>ts_tree = s, ts_stack = []\<rparr>,
        rev (map invoked (ts_stack t) @ map (\<lambda>(k, l, n). Called k l n) calls), Inr ()))"
proof -
  have push: "pushed i (map (\<lambda>(k, l, n). Queued i (User k) l n) xs) = map (\<lambda>(k, l, n). (User k, l, n)) xs"
    and pass: "passed i (map (\<lambda>(k, l, n). Queued i (User k) l n) xs) = []" for xs
    by (induction xs) auto
  define q where "q = map (\<lambda>(k, l, n). (User k, l, n)) calls"
  have inv: "map (\<lambda>(k, l, n). Called k l n) calls = map invoked q" and plain: "\<forall>e \<in> set q. plain e"
    by (auto simp: q_def)
  let ?t = "\<lparr>ts_tree = s, ts_stack = ts_stack t @ q\<rparr>"
  have "threadsafe_process i ?t = (\<lparr>ts_tree = s, ts_stack = []\<rparr>,
        rev (map invoked (ts_stack t) @ map (\<lambda>(k, l, n). Called k l n) calls), Inr ())"
    if "\<forall>e \<in> set (ts_stack t). plain e"
  proof -
    have "\<forall>e \<in> set (ts_stack t @ q). plain e" using that plain by auto
    then show ?thesis
      using process_plain [of "ts_stack t @ q" i] by (simp add: threadsafe_process_def inv rev_map)
  qed
  then show ?thesis
    using assms by (intro exI [of _ ?t]) (simp add: locked_def push pass q_def)
qed

text \<open>A pond with one listener, registered through the thread-safe layer.\<close>

definition pond_threads :: "simple_backend threadsafe" where
  "pond_threads = fst (b_register (threadsafe_ops 7 simple_ops) ''w'' ''oak'' False (User 5)
     (threadsafe_new (simple_new pond_tree)))"

lemma pond_threads_simps:
  "ts_stack pond_threads = []"
  "memory_tree (ts_tree pond_threads) = pond_tree"
  "node_listeners (ts_tree pond_threads) = [(''oak'', [(''w'', False, Threadsafe_Wrap 7 (User 5))])]"
  by (simp_all add: pond_threads_def threadsafe_ops_def locked_def simple_ops_def simple_register_def
      simple_deregister_def threadsafe_new_def simple_new_def)

lemma pond_notify:
  "notify_listeners ''oak'' m (ts_tree pond_threads) = (ts_tree pond_threads, [Queued 7 (User 5) ''oak'' m], Inr ())"
  by (simp add: notify_listeners_def pond_threads_simps omap_upto_def partial_match_iff strip_query_def)

theorem notifications_deferred_witness:
  "\<exists>t1. locked 7 (b_notify simple_ops ''oak'' None) pond_threads = (t1, [], Inr ()) \<and>
     threadsafe_process 7 t1 = (\<lparr>ts_tree = ts_tree pond_threads, ts_stack = []\<rparr>, [Called 5 ''oak'' None], Inr ())"
  using notifications_deferred [of "b_notify simple_ops ''oak'' None" pond_threads "ts_tree pond_threads" 7
      "[(5, ''oak'', None)]" "Inr ()"]
  by (auto simp: simple_ops_def pond_notify pond_threads_simps)

text \<open>
  \<open>notifyListeners\<close> cannot be used on a backend whose listeners were registered through it: as
  soon as one of them is concerned, its wrapper locks the mutex the call already holds.
\<close>

theorem notify_locks_twice:
  assumes "b_notify ops l m (ts_tree t) = (s, es, r)" and "Queued i cb l' m' \<in> set es"
  shows "snd (snd (threadsafe_notify i ops l m t)) = Inl Undefined_Behaviour"
proof -
  have "pushed i es \<noteq> []"
    using assms(2)
  proof (induction es)
    case (Cons e es)
    then show ?case by (cases e) auto
  qed simp
  then show ?thesis using assms(1) by (simp add: threadsafe_notify_def)
qed

theorem notify_locks_twice_witness:
  "snd (snd (threadsafe_notify 7 simple_ops ''oak'' None pond_threads)) = Inl Undefined_Behaviour"
  by (rule notify_locks_twice [of simple_ops "''oak''" None pond_threads "ts_tree pond_threads"
      "[Queued 7 (User 5) ''oak'' None]" "Inr ()" 7 "User 5" "''oak''" None])
    (simp_all add: simple_ops_def pond_notify)

end
