(* ===== verification/Redirected_Backend.thy ===== *)
theory Redirected_Backend
  imports Threadsafe_Backend
begin

text \<open>
  The redirected backend (\<open>structure/redirected_backend.h\<close>, \<open>structure/redirected_backend.cpp\<close>): the
  part of a backend below a prefix, seen as a whole backend. It keeps no state of its own: its
  operations act on the state of the root backend, with every label prefixed on the way in and
  shortened on the way out.
\<close>

definition redirected_prefix :: "string \<Rightarrow> string result" where
  "redirected_prefix pre =
     (if pre = '''' then Inl (Invalid_Argument ''Prefix cannot be empty'')
      else Inr (if last pre \<noteq> CHR ''/'' then pre @ ''/'' else pre))"

definition redirected_get_node :: "string \<Rightarrow> 's backend_ops \<Rightarrow> string \<Rightarrow> 's \<Rightarrow> vnode option result" where
  "redirected_get_node pre ops l s =
     rbind (b_get_node ops (pre @ l) s) (\<lambda>m. Inr (map_option (shorten_labels pre) m))"

definition redirected_upsert :: "string \<Rightarrow> 's backend_ops \<Rightarrow> vnode list \<Rightarrow> ('s, bool) act" where
  "redirected_upsert pre ops ns =
     act_bind (act_each (\<lambda>n. act_bind (act_lift (prefix_labels pre n)) (\<lambda>n'. b_upsert ops [n'])) ns)
       (\<lambda>_. act_return True)"

definition redirected_delete :: "string \<Rightarrow> 's backend_ops \<Rightarrow> string \<Rightarrow> ('s, bool) act" where
  "redirected_delete pre ops l = b_delete ops (pre @ l)"

definition redirected_page_tree :: "string \<Rightarrow> 's backend_ops \<Rightarrow> string \<Rightarrow> 's \<Rightarrow> vnode list result" where
  "redirected_page_tree pre ops l s =
     rbind (b_page_tree ops (pre @ l) s) (\<lambda>ns. Inr (map (shorten_labels pre) ns))"

text \<open>The absolute label is computed and not used.\<close>

definition redirected_relative_page_tree ::
  "string \<Rightarrow> 's backend_ops \<Rightarrow> vnode \<Rightarrow> string \<Rightarrow> 's \<Rightarrow> vnode list result" where
  "redirected_relative_page_tree pre ops n l s = redirected_page_tree pre ops l s"

definition redirected_query :: "string \<Rightarrow> 's backend_ops \<Rightarrow> string \<Rightarrow> 's \<Rightarrow> vnode list result" where
  "redirected_query pre ops l s =
     rbind (b_query ops (pre @ l) s) (\<lambda>ns. Inr (map (shorten_labels pre) ns))"

definition redirected_relative_query ::
  "string \<Rightarrow> 's backend_ops \<Rightarrow> vnode \<Rightarrow> string \<Rightarrow> 's \<Rightarrow> vnode list result" where
  "redirected_relative_query pre ops n l s = redirected_query pre ops (label_rule n @ ''/'' @ l) s"

definition redirected_open_layer :: "string \<Rightarrow> 's backend_ops \<Rightarrow> vnode \<Rightarrow> ('s, bool) act" where
  "redirected_open_layer pre ops n = act_bind (act_lift (prefix_labels pre n)) (b_open_layer ops)"

definition redirected_apply :: "string \<Rightarrow> 's backend_ops \<Rightarrow> vspan transaction \<Rightarrow> ('s, bool) act" where
  "redirected_apply pre ops tr = act_bind (act_lift (rmap (prefix_sub pre) tr)) (b_apply ops)"

definition redirected_full_tree :: "string \<Rightarrow> 's backend_ops \<Rightarrow> 's \<Rightarrow> vnode list result" where
  "redirected_full_tree pre ops s =
     rbind (b_full_tree ops s) (\<lambda>ns.
       Inr (map (shorten_labels pre) (filter (\<lambda>n. str_find (label_rule n) pre = Some 0) ns)))"

definition redirected_notify :: "string \<Rightarrow> 's backend_ops \<Rightarrow> string \<Rightarrow> vnode option \<Rightarrow> ('s, unit) act" where
  "redirected_notify pre ops l m =
     (case m of
        None \<Rightarrow> b_notify ops (pre @ l) None
      | Some n \<Rightarrow> act_bind (act_lift (prefix_labels pre n)) (\<lambda>n'. b_notify ops (pre @ l) (Some n')))"

text \<open>The virtual functions of a \<open>RedirectedBackend\<close> with this prefix.\<close>

definition redirected_ops :: "string \<Rightarrow> 's backend_ops \<Rightarrow> 's backend_ops" where
  "redirected_ops pre ops = \<lparr>
     b_get_node = redirected_get_node pre ops,
     b_upsert = redirected_upsert pre ops,
     b_delete = redirected_delete pre ops,
     b_page_tree = redirected_page_tree pre ops,
     b_relative_page_tree = redirected_relative_page_tree pre ops,
     b_query = redirected_query pre ops,
     b_relative_query = redirected_relative_query pre ops,
     b_open_layer = redirected_open_layer pre ops,
     b_close_layers = b_close_layers ops,
     b_apply = redirected_apply pre ops,
     b_full_tree = redirected_full_tree pre ops,
     b_register = (\<lambda>name rule cn cb. b_register ops name (pre @ rule) cn (Redirected_Wrap pre cb)),
     b_deregister = (\<lambda>name rule. b_deregister ops name (pre @ rule)),
     b_notify = redirected_notify pre ops,
     b_process = b_process ops\<rparr>"

section \<open>The part below the prefix is a backend\<close>

text \<open>No label of the node carries the prefix already.\<close>

definition fresh_labels :: "string \<Rightarrow> vnode \<Rightarrow> bool" where
  "fresh_labels pre n \<longleftrightarrow> (\<forall>l \<in> set (label_rule n # child_names n). \<not> prefix pre l)"

definition prefixed :: "string \<Rightarrow> vnode \<Rightarrow> vnode" where
  "prefixed pre n = n\<lparr>label_rule := pre @ label_rule n, child_names := map ((@) pre) (child_names n)\<rparr>"

lemma prefix_labels_fresh:
  assumes "pre \<noteq> ''''" and "last pre = CHR ''/''" and "fresh_labels pre n"
  shows "prefix_labels pre n = Inr (prefixed pre n)"
proof -
  have "map (prefix_one pre) (child_names n) = map ((@) pre) (child_names n)"
    using assms(3) by (intro map_cong) (auto simp: fresh_labels_def label_simps)
  then show ?thesis
    using assms by (simp add: prefix_labels_def prefixed_def fresh_labels_def label_simps)
qed

lemma shorten_prefixed: "shorten_labels pre (node_assign (prefixed pre n)) = node_assign n"
  by (cases "pre = ''''")
    (simp_all add: shorten_labels_def prefixed_def node_assign_def label_simps comp_def append_Nil [abs_def])

lemma label_prefixed [simp]: "label_rule (prefixed pre n) = pre @ label_rule n"
  by (simp add: prefixed_def)

lemma at_or_below_prefix: "at_or_below (pre @ l) (pre @ m) \<longleftrightarrow> at_or_below l m"
  by (simp add: at_or_below_def)

lemma at_or_below_prefixD: "at_or_below (pre @ l) m \<Longrightarrow> prefix pre m"
  by (auto simp: at_or_below_def prefix_def)

context tree_backend
begin

text \<open>The loop of an upsert below the prefix, together with what it leaves alone.\<close>

lemma upsert_below:
  assumes pre: "pre \<noteq> ''''" "last pre = CHR ''/''"
    and "inv s" and "\<forall>n \<in> set ns. fresh_labels pre n \<and> accepts (prefixed pre n)"
  shows "\<exists>s' es. redirected_upsert pre ops ns s = (s', es, Inr True) \<and> inv s' \<and>
    view s' = view_store (map (prefixed pre) ns) (view s)"
proof -
  let ?up = "\<lambda>n. act_bind (act_lift (prefix_labels pre n)) (\<lambda>n'. b_upsert ops [n'])"
  have "\<exists>s' es. act_each ?up ns s = (s', es, Inr ()) \<and> inv s' \<and>
      view s' = view_store (map (prefixed pre) ns) (view s)"
    using assms(3,4)
  proof (induction ns arbitrary: s)
    case Nil
    then show ?case by (simp add: act_return_def)
  next
    case (Cons n ns)
    obtain s1 es where s1: "b_upsert ops [prefixed pre n] s = (s1, es, Inr True)" "inv s1"
        "view s1 = view_store [prefixed pre n] (view s)"
      using upsert [of s "[prefixed pre n]"] Cons.prems by auto
    have "?up n s = (s1, es, Inr True)"
      using prefix_labels_fresh [OF pre, of n] Cons.prems(2) s1(1) by (simp add: act_bind_def act_lift_def)
    moreover obtain s2 fs where "act_each ?up ns s1 = (s2, fs, Inr ())" "inv s2"
        "view s2 = view_store (map (prefixed pre) ns) (view s1)"
      using Cons.IH [OF s1(2)] Cons.prems(2) by auto
    ultimately show ?case
      using s1(3) view_store_append [of "[prefixed pre n]" "map (prefixed pre) ns" "view s"]
      by (simp add: act_bind_Inr)
  qed
  then obtain s' es where "act_each ?up ns s = (s', es, Inr ())" "inv s'"
      "view s' = view_store (map (prefixed pre) ns) (view s)" by blast
  then show ?thesis by (simp add: redirected_upsert_def act_bind_Inr act_return_def)
qed

lemma last_with_prefixed:
  "last_with (map (prefixed pre) ns) (pre @ l) = map_option (prefixed pre) (last_with ns l)"
  by (induction ns rule: rev_induct) auto

lemma last_with_outside: "\<not> prefix pre l \<Longrightarrow> last_with (map (prefixed pre) ns) l = None"
  by (induction ns rule: rev_induct) auto

lemma view_store_prefixed:
  "map_option (shorten_labels pre) (view_store (map (prefixed pre) ns) w (pre @ l)) =
     view_store ns (\<lambda>l. map_option (shorten_labels pre) (w (pre @ l))) l"
  by (auto simp: view_store_def last_with_prefixed shorten_prefixed split: option.split)

lemma under_prefix:
  assumes pre: "pre \<noteq> ''''" "last pre = CHR ''/''"
  shows "tree_backend (redirected_ops pre ops) inv
    (\<lambda>s l. map_option (shorten_labels pre) (view s (pre @ l)))
    (\<lambda>n. fresh_labels pre n \<and> accepts (prefixed pre n))"
proof
  fix s l assume "inv s"
  then show "b_get_node (redirected_ops pre ops) l s = Inr (map_option (shorten_labels pre) (view s (pre @ l)))"
    by (simp add: redirected_ops_def redirected_get_node_def get_node)
next
  fix s ns assume "inv s" and "\<forall>n \<in> set ns. fresh_labels pre n \<and> accepts (prefixed pre n)"
  from upsert_below [OF pre this]
  show "\<exists>s' es. b_upsert (redirected_ops pre ops) ns s = (s', es, Inr True) \<and> inv s' \<and>
      (\<lambda>l. map_option (shorten_labels pre) (view s' (pre @ l))) =
      view_store ns (\<lambda>l. map_option (shorten_labels pre) (view s (pre @ l)))"
    by (auto simp: redirected_ops_def view_store_prefixed fun_eq_iff)
next
  fix s l assume s: "inv s"
  obtain s' es r where s': "b_delete ops (pre @ l) s = (s', es, Inr r)" "inv s'" "view s' (pre @ l) = None"
      "view s' \<subseteq>\<^sub>m view s" "\<forall>m. \<not> at_or_below (pre @ l) m \<longrightarrow> view s' m = view s m"
    using delete [OF s, of "pre @ l"] by blast
  have "(\<lambda>l. map_option (shorten_labels pre) (view s' (pre @ l))) \<subseteq>\<^sub>m
      (\<lambda>l. map_option (shorten_labels pre) (view s (pre @ l)))"
    using s'(4) by (auto simp: map_le_def) (metis domI option.simps(9))
  with s' show "\<exists>s' es r. b_delete (redirected_ops pre ops) l s = (s', es, Inr r) \<and> inv s' \<and>
      map_option (shorten_labels pre) (view s' (pre @ l)) = None \<and>
      (\<lambda>l. map_option (shorten_labels pre) (view s' (pre @ l))) \<subseteq>\<^sub>m
      (\<lambda>l. map_option (shorten_labels pre) (view s (pre @ l))) \<and>
      (\<forall>m. \<not> at_or_below l m \<longrightarrow> map_option (shorten_labels pre) (view s' (pre @ m)) =
         map_option (shorten_labels pre) (view s (pre @ m)))"
    by (intro exI [of _ s'] exI [of _ es] exI [of _ r])
      (simp add: redirected_ops_def redirected_delete_def at_or_below_prefix)
qed

text \<open>Writing and deleting below the prefix leaves every label outside it as it was.\<close>

lemma isolated:
  assumes pre: "pre \<noteq> ''''" "last pre = CHR ''/''" and s: "inv s" and l: "\<not> prefix pre l"
  shows "\<forall>n \<in> set ns. fresh_labels pre n \<and> accepts (prefixed pre n) \<Longrightarrow>
      redirected_upsert pre ops ns s = (s', es, r) \<Longrightarrow> b_get_node ops l s' = b_get_node ops l s"
    and "redirected_delete pre ops m s = (s', es, r') \<Longrightarrow> b_get_node ops l s' = b_get_node ops l s"
proof -
  show "b_get_node ops l s' = b_get_node ops l s"
    if "\<forall>n \<in> set ns. fresh_labels pre n \<and> accepts (prefixed pre n)" "redirected_upsert pre ops ns s = (s', es, r)"
    using upsert_below [OF pre s that(1)] that(2) last_with_outside [OF l, of ns]
    by (auto simp: get_node s view_store_def)
  show "b_get_node ops l s' = b_get_node ops l s" if "redirected_delete pre ops m s = (s', es, r')"
    using delete_get(4) [OF s that [unfolded redirected_delete_def], of l] at_or_below_prefixD [of pre m l] l by blast
qed

end

interpretation zoo_part: tree_backend "redirected_ops ''zoo/'' simple_ops" simple_inv
  "\<lambda>b l. map_option (shorten_labels ''zoo/'') (map_of (memory_tree b) (''zoo/'' @ l))"
  "\<lambda>n. fresh_labels ''zoo/'' n \<and> True"
  by (rule simple.under_prefix) simp_all

text \<open>
  C19: through a redirected backend over the in-memory backend, the nodes written are the nodes read
  (the last one of each label, copy-assigned), they lie under the prefixed labels, and no label
  outside the prefix changes; deleting a label takes it away and again changes nothing outside.
\<close>

theorem redirected_subtree:
  assumes "redirected_prefix p = Inr pre" and "simple_inv b" and "\<forall>n \<in> set ns. fresh_labels pre n"
  shows "(\<exists>b' es. redirected_upsert pre simple_ops ns b = (b', es, Inr True) \<and> simple_inv b' \<and>
      (\<forall>l. redirected_get_node pre simple_ops l b' =
         (case last_with ns l of Some n \<Rightarrow> Inr (Some (node_assign n)) | None \<Rightarrow> redirected_get_node pre simple_ops l b)) \<and>
      (\<forall>l. \<not> prefix pre l \<longrightarrow> simple_get_node l b' = simple_get_node l b)) \<and>
    (\<exists>b' es r. redirected_delete pre simple_ops m b = (b', es, Inr r) \<and> simple_inv b' \<and>
      redirected_get_node pre simple_ops m b' = Inr None \<and>
      (\<forall>l. \<not> prefix pre l \<longrightarrow> simple_get_node l b' = simple_get_node l b))"
proof
  have pre: "pre \<noteq> ''''" "last pre = CHR ''/''"
    using assms(1) by (auto simp: redirected_prefix_def split: if_splits)
  have get: "redirected_get_node pre simple_ops l c =
      Inr (map_option (shorten_labels pre) (map_of (memory_tree c) (pre @ l)))" for l c
    by (simp add: redirected_get_node_def simple_ops_def simple_get_node_def tree_get_node_def)
  obtain b' es where b': "redirected_upsert pre simple_ops ns b = (b', es, Inr True)" "simple_inv b'"
      "map_of (memory_tree b') = view_store (map (prefixed pre) ns) (map_of (memory_tree b))"
    using simple.upsert_below [OF pre assms(2), of ns] assms(3) by blast
  have "redirected_get_node pre simple_ops l b' =
      (case last_with ns l of Some n \<Rightarrow> Inr (Some (node_assign n)) | None \<Rightarrow> redirected_get_node pre simple_ops l b)" for l
    by (simp add: get b'(3) simple.view_store_prefixed) (simp add: view_store_def get split: option.split)
  moreover have "simple_get_node l b' = simple_get_node l b" if "\<not> prefix pre l" for l
    using simple.last_with_outside [OF that, of ns] by (simp add: simple_get_node_def tree_get_node_def b'(3) view_store_def)
  ultimately show "\<exists>b' es. redirected_upsert pre simple_ops ns b = (b', es, Inr True) \<and> simple_inv b' \<and>
      (\<forall>l. redirected_get_node pre simple_ops l b' =
         (case last_with ns l of Some n \<Rightarrow> Inr (Some (node_assign n)) | None \<Rightarrow> redirected_get_node pre simple_ops l b)) \<and>
      (\<forall>l. \<not> prefix pre l \<longrightarrow> simple_get_node l b' = simple_get_node l b)"
    using b'(1,2) by blast
  obtain c fs r where c: "b_delete simple_ops (pre @ m) b = (c, fs, Inr r)" "simple_inv c"
      "map_of (memory_tree c) (pre @ m) = None"
      "\<forall>l. \<not> at_or_below (pre @ m) l \<longrightarrow> map_of (memory_tree c) l = map_of (memory_tree b) l"
    using simple.delete [OF assms(2), of "pre @ m"] by blast
  then show "\<exists>b' es r. redirected_delete pre simple_ops m b = (b', es, Inr r) \<and> simple_inv b' \<and>
      redirected_get_node pre simple_ops m b' = Inr None \<and>
      (\<forall>l. \<not> prefix pre l \<longrightarrow> simple_get_node l b' = simple_get_node l b)"
    using at_or_below_prefixD [of pre m]
    by (intro exI [of _ c] exI [of _ fs] exI [of _ r])
      (auto simp: redirected_delete_def get simple_get_node_def tree_get_node_def)
qed

theorem redirected_subtree_witness:
  "\<exists>b' es. redirected_upsert ''zoo/'' simple_ops [old_oak] zoo_backend = (b', es, Inr True) \<and>
     redirected_get_node ''zoo/'' simple_ops ''oak'' b' = Inr (Some (node_assign old_oak)) \<and>
     simple_get_node ''oak'' b' = simple_get_node ''oak'' zoo_backend"
proof -
  have "redirected_prefix ''zoo'' = Inr ''zoo/''" by (simp add: redirected_prefix_def)
  moreover have "\<forall>n \<in> set [old_oak]. fresh_labels ''zoo/'' n"
    by (simp add: fresh_labels_def old_oak_def node_default_def)
  ultimately obtain b' es where "redirected_upsert ''zoo/'' simple_ops [old_oak] zoo_backend = (b', es, Inr True)"
      "\<forall>l. redirected_get_node ''zoo/'' simple_ops l b' = (case last_with [old_oak] l of
         Some n \<Rightarrow> Inr (Some (node_assign n)) | None \<Rightarrow> redirected_get_node ''zoo/'' simple_ops l zoo_backend)"
      "\<forall>l. \<not> prefix ''zoo/'' l \<longrightarrow> simple_get_node l b' = simple_get_node l zoo_backend"
    using redirected_subtree [OF _ simple_inv_zoo, of "''zoo''" "''zoo/''" "[old_oak]"] by blast
  then show ?thesis by (auto simp: last_with_def old_oak_def)
qed

text \<open>
  A listener registered through a redirected backend hears a change made through the root, with
  the label and the node seen from below the prefix.
\<close>

theorem redirected_listener:
  assumes "listeners_ok (node_listeners b)" and "pre \<noteq> ''''" and "last pre = CHR ''/''"
    and "CHR ''?'' \<notin> set (pre @ l)"
  shows "\<exists>b1 before evs. b_register (redirected_ops pre simple_ops) name l cn (User k) b = (b1, [], Inr ()) \<and>
    b_notify simple_ops (pre @ l) m b1 =
      (b1, before @ Called k l (map_option (shorten_labels pre) m) # evs, Inr ())"
proof -
  have "CHR ''/'' \<in> set pre" using assms(2,3) last_in_set by metis
  then have fits: "listener_fits (pre @ l) (name, cn, Redirected_Wrap pre (User k))" by simp
  have "run_callback (Redirected_Wrap pre (User k)) (pre @ l) m =
      Inr (Called k l (map_option (shorten_labels pre) m))"
    by (simp add: substr_from_def)
  from register_notify_core [OF assms(1) fits assms(4) this]
  show ?thesis by (auto simp: redirected_ops_def simple_ops_def)
qed

theorem redirected_listener_witness:
  "\<exists>b1 before evs. b_register (redirected_ops ''zoo/'' simple_ops) ''r'' ''cat'' True (User 9) zoo_backend = (b1, [], Inr ()) \<and>
    b_notify simple_ops ''zoo/cat'' None b1 = (b1, before @ Called 9 ''cat'' None # evs, Inr ())"
  using redirected_listener [of zoo_backend "''zoo/''" "''cat''" "''r''" True 9 None] simple_inv_zoo
  by (simp add: simple_inv_def)

end
