(* ===== verification/Composite_Backend.thy ===== *)
theory Composite_Backend
  imports Redirected_Backend
begin

text \<open>
  The composite backend (\<open>structure/composite_backend.h\<close>, \<open>structure/composite_backend.cpp\<close>): a root
  backend and further backends mounted on labels of it.
  Backends are referred to by reference and may share state, so all of them are operations over one
  world \<open>'w\<close>; the composite backend holds the root and a sorted map from labels to backends.
\<close>

record 'w composite =
  c_root :: "'w backend_ops"
  c_mounts :: "(string \<times> 'w backend_ops) list"

definition composite_new :: "'w backend_ops \<Rightarrow> 'w composite" where
  "composite_new ops = \<lparr>c_root = ops, c_mounts = []\<rparr>"

text \<open>\<open>getRelevantBackend\<close>: the length of the part of the label to cut off, and the backend.\<close>

definition relevant :: "'w composite \<Rightarrow> string \<Rightarrow> nat \<times> 'w backend_ops" where
  "relevant c l =
     (case omap_upto l (c_mounts c) of
        [] \<Rightarrow> (0, c_root c)
      | (key, ops) # _ \<Rightarrow>
          if take (length key) l = key then
            (if length l = length key then (length key, ops)
             else if l ! length key = CHR ''/'' then (length key + 1, ops)
             else (0, c_root c))
          else (0, c_root c))"

definition composite_get_node :: "'w composite \<Rightarrow> string \<Rightarrow> 'w \<Rightarrow> vnode option result" where
  "composite_get_node c l w =
     (let (i, ops) = relevant c l in
      rbind (b_get_node ops (drop i l) w) (\<lambda>m.
        case m of
          None \<Rightarrow> Inr None
        | Some n \<Rightarrow> if i = 0 then Inr (Some n) else rbind (prefix_labels (take i l) n) (\<lambda>n'. Inr (Some n'))))"

definition composite_upsert :: "'w composite \<Rightarrow> vnode list \<Rightarrow> ('w, bool) act" where
  "composite_upsert c ns =
     act_bind
       (act_each (\<lambda>n.
          let (i, ops) = relevant c (label_rule n) in
          b_upsert ops [shorten_labels (take i (label_rule n)) n]) ns)
       (\<lambda>_. act_return True)"

definition composite_delete :: "'w composite \<Rightarrow> string \<Rightarrow> ('w, bool) act" where
  "composite_delete c l = (let (i, ops) = relevant c l in b_delete ops (drop i l))"

definition composite_page_tree :: "'w composite \<Rightarrow> string \<Rightarrow> 'w \<Rightarrow> vnode list result" where
  "composite_page_tree c l w =
     (let (i, ops) = relevant c l in
      rbind (b_page_tree ops (drop i l) w) (\<lambda>ns.
        if i = 0 then Inr ns else rmap (prefix_labels (take i l)) ns))"

text \<open>The absolute label is computed and not used.\<close>

definition composite_relative_page_tree :: "'w composite \<Rightarrow> vnode \<Rightarrow> string \<Rightarrow> 'w \<Rightarrow> vnode list result" where
  "composite_relative_page_tree c n l w = composite_page_tree c l w"

definition composite_query :: "'w composite \<Rightarrow> string \<Rightarrow> 'w \<Rightarrow> vnode list result" where
  "composite_query c l w =
     (let (i, ops) = relevant c l in
      rbind (b_query ops (drop i l) w) (\<lambda>ns.
        if i = 0 then Inr ns else rmap (prefix_labels (take i l)) ns))"

definition composite_relative_query :: "'w composite \<Rightarrow> vnode \<Rightarrow> string \<Rightarrow> 'w \<Rightarrow> vnode list result" where
  "composite_relative_query c n l w = composite_query c (label_rule n @ ''/'' @ l) w"

definition composite_open_layer :: "'w composite \<Rightarrow> vnode \<Rightarrow> ('w, bool) act" where
  "composite_open_layer c n =
     (let (i, ops) = relevant c (label_rule n) in
      b_open_layer ops (shorten_labels (take i (label_rule n)) n))"

definition composite_close_layers :: "'w composite \<Rightarrow> ('w, bool) act" where
  "composite_close_layers c =
     act_bind (act_each (\<lambda>(key, ops). b_close_layers ops) (c_mounts c)) (\<lambda>_. b_close_layers (c_root c))"

text \<open>All sub-transactions must lie in the backend of the first one.\<close>

fun mounted_transaction :: "'w composite \<Rightarrow> string \<Rightarrow> vspan transaction \<Rightarrow> vspan transaction result" where
  "mounted_transaction c pre [] = Inr []"
| "mounted_transaction c pre (((ov, l, m), cs) # tr) =
     (if take (fst (relevant c l)) l \<noteq> pre
      then Inl (Runtime_Error ''Transaction contains SubTransactions for different backends'')
      else rbind (mounted_transaction c pre tr) (\<lambda>tr'. Inr (shorten_sub pre ((ov, l, m), cs) # tr')))"

definition composite_apply :: "'w composite \<Rightarrow> vspan transaction \<Rightarrow> ('w, bool) act" where
  "composite_apply c tr =
     (case tr of
        [] \<Rightarrow> act_throw Undefined_Behaviour
      | ((ov, l, m), cs) # _ \<Rightarrow>
          let (i, ops) = relevant c l in
          act_bind (act_lift (mounted_transaction c (take i l) tr)) (b_apply ops))"

fun mounted_full_trees :: "(string \<times> 'w backend_ops) list \<Rightarrow> 'w \<Rightarrow> vnode list result" where
  "mounted_full_trees [] w = Inr []"
| "mounted_full_trees ((key, ops) # ms) w =
     rbind (b_full_tree ops w) (\<lambda>ns. rbind (rmap (prefix_labels (key @ ''/'')) ns) (\<lambda>ns'.
       rbind (mounted_full_trees ms w) (\<lambda>rest. Inr (ns' @ rest))))"

definition composite_full_tree :: "'w composite \<Rightarrow> 'w \<Rightarrow> vnode list result" where
  "composite_full_tree c w =
     rbind (b_full_tree (c_root c) w) (\<lambda>ns.
       rbind (mounted_full_trees (c_mounts c) w) (\<lambda>rest. Inr (ns @ rest)))"

definition composite_register :: "'w composite \<Rightarrow> string \<Rightarrow> string \<Rightarrow> bool \<Rightarrow> callback \<Rightarrow> ('w, unit) act" where
  "composite_register c name l cn cb =
     (let (i, ops) = relevant c l in b_register ops name (drop i l) cn (Composite_Wrap (take i l) cb))"

definition composite_deregister :: "'w composite \<Rightarrow> string \<Rightarrow> string \<Rightarrow> ('w, unit) act" where
  "composite_deregister c name l = (let (i, ops) = relevant c l in b_deregister ops name (drop i l))"

definition composite_notify :: "'w composite \<Rightarrow> string \<Rightarrow> vnode option \<Rightarrow> ('w, unit) act" where
  "composite_notify c l m =
     (let (i, ops) = relevant c l in
      case m of
        None \<Rightarrow> b_notify ops (drop i l) None
      | Some n \<Rightarrow> b_notify ops (drop i l) (Some (shorten_labels (take i (label_rule n)) n)))"

definition composite_process :: "'w composite \<Rightarrow> ('w, unit) act" where
  "composite_process c =
     act_bind (b_process (c_root c)) (\<lambda>_. act_each (\<lambda>(key, ops). b_process ops) (c_mounts c))"

fun overlaps_mount :: "string \<Rightarrow> (string \<times> 'w backend_ops) list \<Rightarrow> bool result" where
  "overlaps_mount l [] = Inr False"
| "overlaps_mount l ((key, ops) # ms) =
     rbind (check_overlap l key) (\<lambda>hit. if hit then Inr True else overlaps_mount l ms)"

definition mount_backend :: "string \<Rightarrow> 'w backend_ops \<Rightarrow> 'w \<Rightarrow> 'w composite \<Rightarrow> 'w composite result" where
  "mount_backend l ops w c =
     (if map_of (c_mounts c) l \<noteq> None
      then Inl (Runtime_Error ''Label rule already exists in the mounted backends'')
      else rbind (b_get_node (c_root c) l w) (\<lambda>m.
        if m \<noteq> None then Inl (Runtime_Error ''Label rule already exists in the root backend'')
        else rbind (overlaps_mount l (c_mounts c)) (\<lambda>hit.
          if hit then Inl (Runtime_Error ''Label rule overlaps with an existing mounted backend'')
          else Inr (c\<lparr>c_mounts := omap_insert l ops (c_mounts c)\<rparr>))))"

text \<open>The virtual functions of \<open>CompositeBackend\<close>.\<close>

definition composite_ops :: "'w composite \<Rightarrow> 'w backend_ops" where
  "composite_ops c = \<lparr>
     b_get_node = composite_get_node c,
     b_upsert = composite_upsert c,
     b_delete = composite_delete c,
     b_page_tree = composite_page_tree c,
     b_relative_page_tree = composite_relative_page_tree c,
     b_query = composite_query c,
     b_relative_query = composite_relative_query c,
     b_open_layer = composite_open_layer c,
     b_close_layers = composite_close_layers c,
     b_apply = composite_apply c,
     b_full_tree = composite_full_tree c,
     b_register = composite_register c,
     b_deregister = composite_deregister c,
     b_notify = composite_notify c,
     b_process = composite_process c\<rparr>"

section \<open>Routing\<close>

lemma omap_upto_nearest:
  assumes "omap_ok m" and "map_of m k = Some v" and "k \<le> l" and "\<And>k'. k' \<in> fst ` set m \<Longrightarrow> k < k' \<Longrightarrow> l < k'"
  shows "\<exists>rest. omap_upto l m = (k, v) # rest"
  using assms
proof (induction m)
  case (Cons p m)
  obtain k0 v0 where p: "p = (k0, v0)" by (cases p)
  show ?case
  proof (cases "k0 = k")
    case True
    have "takeWhile (\<lambda>q. fst q \<le> l) m = []"
    proof (cases m)
      case (Cons q qs)
      then have "k < fst q" using Cons.prems(1) True by (auto simp: p omap_ok_Cons)
      then have "l < fst q" using Cons.prems(4) [of "fst q"] Cons by simp
      then show ?thesis using Cons by simp
    qed simp
    then show ?thesis
      using True Cons.prems(2,3) by (simp add: p omap_upto_def)
  next
    case False
    then have k: "map_of m k = Some v" using Cons.prems(2) by (simp add: p)
    then have "k \<in> fst ` set m" by (metis domI dom_map_of_conv_image_fst)
    then have "k0 < k" using Cons.prems(1) by (auto simp: p omap_ok_Cons)
    moreover obtain rest where "omap_upto l m = (k, v) # rest"
      using Cons.IH [OF _ k Cons.prems(3)] Cons.prems(1,4) by (auto simp: p omap_ok_Cons)
    moreover have "omap_upto l (p # m) = omap_upto l m @ [p]"
      using \<open>k0 < k\<close> Cons.prems(3) by (simp add: p omap_upto_def)
    ultimately show ?thesis by simp
  qed
qed simp

lemma append_le: "k \<le> k @ (x :: string)"
  by (induction k) simp_all

lemma append_less: "x < y \<Longrightarrow> k @ x < k @ (y :: string)"
  by (induction k) simp_all

lemma relevant_mount:
  assumes "omap_ok (c_mounts c)" and "map_of (c_mounts c) k = Some ops"
    and "\<And>k'. k' \<in> fst ` set (c_mounts c) \<Longrightarrow> k < k' \<Longrightarrow> k @ ''/'' @ x < k'"
  shows "relevant c (k @ ''/'' @ x) = (length k + 1, ops)"
proof -
  have "k \<le> k @ ''/'' @ x" by (rule append_le)
  then obtain rest where "omap_upto (k @ ''/'' @ x) (c_mounts c) = (k, ops) # rest"
    using omap_upto_nearest [OF assms(1,2), of "k @ ''/'' @ x"] assms(3) by blast
  then show ?thesis by (simp add: relevant_def)
qed

text \<open>
  A label below a mount point goes to the backend mounted there, with the mount point and the
  slash cut off, as long as no other mount point lies between the two in the order of strings.
\<close>

theorem mounted_label_routed:
  assumes "omap_ok (c_mounts c)" and "map_of (c_mounts c) k = Some ops"
    and "\<forall>k' \<in> fst ` set (c_mounts c). k < k' \<longrightarrow> k @ ''/'' @ x < k'"
  shows "relevant c (k @ ''/'' @ x) = (length k + 1, ops) \<and>
    composite_delete c (k @ ''/'' @ x) = b_delete ops x"
proof -
  have "relevant c (k @ ''/'' @ x) = (length k + 1, ops)"
    using assms(3) by (intro relevant_mount [OF assms(1,2)]) blast
  then show ?thesis by (simp add: composite_delete_def)
qed

text \<open>
  A mount point that continues another one with a character before the slash in the character
  order takes every label below that other one, where it does not match and falls back to the root:
  the backend mounted at \<open>k\<close> is not reached at all any more.
\<close>

theorem sibling_mount_hides:
  assumes "omap_ok (c_mounts c)" and "map_of (c_mounts c) (k @ a # s) = Some ops" and "a < CHR ''/''"
    and "\<forall>k' \<in> fst ` set (c_mounts c). k @ a # s < k' \<longrightarrow> k @ ''/'' @ x < k'"
  shows "relevant c (k @ ''/'' @ x) = (0, c_root c)"
proof -
  have "k @ a # s \<le> k @ ''/'' @ x"
    using append_less [of "a # s" "''/'' @ x" k] assms(3) by simp
  then obtain rest where "omap_upto (k @ ''/'' @ x) (c_mounts c) = (k @ a # s, ops) # rest"
    using omap_upto_nearest [OF assms(1,2)] assms(4) by blast
  moreover have "take (length (k @ a # s)) (k @ ''/'' @ x) \<noteq> k @ a # s" using assms(3) by auto
  ultimately show ?thesis by (simp only: relevant_def) (simp only: list.case prod.case if_False)
qed

definition two_zoos :: "simple_backend composite" where
  "two_zoos = \<lparr>c_root = simple_ops, c_mounts = [(''zoo'', redirected_ops ''a/'' simple_ops),
     (''zoo-x'', redirected_ops ''b/'' simple_ops)]\<rparr>"

theorem sibling_mount_hides_witness:
  "relevant two_zoos ''zoo/lion'' = (0, simple_ops)"
  using sibling_mount_hides [of two_zoos "''zoo''" "CHR ''-''" "''x''" "redirected_ops ''b/'' simple_ops" "''lion''"]
  by (simp add: two_zoos_def omap_ok_def less_char_def)

theorem mounted_label_routed_witness:
  "relevant two_zoos ''zoo-x/lion'' = (6, redirected_ops ''b/'' simple_ops)"
  using mounted_label_routed [of two_zoos "''zoo-x''" "redirected_ops ''b/'' simple_ops" "''lion''"]
  by (simp add: two_zoos_def omap_ok_def less_char_def)

section \<open>One mount: the two parts are one backend\<close>

text \<open>
  A label either lies below the mount point, or is the mount point, or is none of its business.
  The view of the whole has the nodes of the mounted backend, prefixed, below the mount point.
\<close>

definition reprefix :: "string \<Rightarrow> vnode \<Rightarrow> vnode" where
  "reprefix k n = projr (prefix_labels (k @ ''/'') n)"

definition mounted_view :: "string \<Rightarrow> view \<Rightarrow> view \<Rightarrow> view" where
  "mounted_view k rv mv l =
     (if prefix (k @ ''/'') l then map_option (reprefix k) (mv (drop (length k + 1) l))
      else if l = k then None else rv l)"

lemma mount_cases [case_names below point outside]:
  obtains x where "l = k @ ''/'' @ x" | "l = k" | "\<not> prefix (k @ ''/'') l" "l \<noteq> k"
  by (cases "prefix (k @ ''/'') l") (auto simp: prefix_def)

lemma mounted_view_simps [simp]:
  "mounted_view k rv mv (k @ CHR ''/'' # x) = map_option (reprefix k) (mv x)"
  "mounted_view k rv mv k = None"
  "\<not> prefix (k @ ''/'') l \<Longrightarrow> l \<noteq> k \<Longrightarrow> mounted_view k rv mv l = rv l"
  by (simp_all add: mounted_view_def prefix_def)

lemma mounted_view_part: "mounted_view k rv (mv(x \<mapsto> n)) = (mounted_view k rv mv)(k @ ''/'' @ x \<mapsto> reprefix k n)"
proof
  fix l
  show "mounted_view k rv (mv(x \<mapsto> n)) l = ((mounted_view k rv mv)(k @ ''/'' @ x \<mapsto> reprefix k n)) l"
    by (cases l k rule: mount_cases) auto
qed

lemma mounted_view_root:
  assumes "\<not> prefix (k @ ''/'') m" and "m \<noteq> k"
  shows "mounted_view k (rv(m \<mapsto> n)) mv = (mounted_view k rv mv)(m \<mapsto> n)"
proof
  fix l
  show "mounted_view k (rv(m \<mapsto> n)) mv l = ((mounted_view k rv mv)(m \<mapsto> n)) l"
    using assms by (cases l k rule: mount_cases) auto
qed

lemma mounted_view_le:
  assumes "rv' \<subseteq>\<^sub>m rv" and "mv' \<subseteq>\<^sub>m mv"
  shows "mounted_view k rv' mv' \<subseteq>\<^sub>m mounted_view k rv mv"
  unfolding map_le_def
proof
  fix l assume l: "l \<in> dom (mounted_view k rv' mv')"
  show "mounted_view k rv' mv' l = mounted_view k rv mv l"
  proof (cases l k rule: mount_cases)
    case (below x)
    with l have "x \<in> dom mv'" by auto
    then have "mv' x = mv x" using assms(2) by (simp add: map_le_def)
    with below show ?thesis by simp
  next
    case point
    then show ?thesis by simp
  next
    case outside
    with l have "l \<in> dom rv'" by auto
    then have "rv' l = rv l" using assms(1) by (simp add: map_le_def)
    with outside show ?thesis by simp
  qed
qed

lemma prefix_labels_reprefix: "prefix_labels (k @ ''/'') n = Inr (reprefix k n)"
  by (simp add: reprefix_def prefix_labels_def)

text \<open>The nodes the whole can keep: below the mount point every label carries the prefix, once.\<close>

definition below_once :: "string \<Rightarrow> string \<Rightarrow> bool" where
  "below_once k l \<longleftrightarrow> (\<exists>x. l = k @ ''/'' @ x \<and> x \<noteq> '''' \<and> \<not> prefix (k @ ''/'') x)"

definition mountable :: "string \<Rightarrow> (vnode \<Rightarrow> bool) \<Rightarrow> (vnode \<Rightarrow> bool) \<Rightarrow> vnode \<Rightarrow> bool" where
  "mountable k racc macc n \<longleftrightarrow>
     (if prefix (k @ ''/'') (label_rule n)
      then (\<forall>l \<in> set (label_rule n # child_names n). below_once k l) \<and> macc (shorten_labels (k @ ''/'') n)
      else label_rule n \<noteq> k \<and> racc n)"

lemma reprefix_shortened:
  assumes "\<forall>l \<in> set (label_rule n # child_names n). below_once k l"
  shows "reprefix k (node_assign (shorten_labels (k @ ''/'') n)) = node_assign n"
proof -
  have one: "prefix_one (k @ ''/'') (shorten_one (k @ ''/'') l) = l"
    if "l \<in> set (label_rule n # child_names n)" for l
  proof -
    have "below_once k l" using assms that by blast
    then obtain x where "l = k @ ''/'' @ x" "\<not> prefix (k @ ''/'') x"
      by (auto simp: below_once_def)
    then show ?thesis by (simp add: prefix_one_def shorten_one_def str_find_zero)
  qed
  then have "map (prefix_one (k @ ''/'')) (map (shorten_one (k @ ''/'')) (child_names n)) = child_names n"
    by (simp only: map_map) (simp add: map_idI)
  with one show ?thesis
    by (simp add: reprefix_def prefix_labels_def shorten_labels_def node_assign_def del: map_map)
qed

text \<open>
  The contracts of a root and of one mounted backend over the same world, neither of which touches
  what the other shows.
\<close>

locale mounted = root: tree_backend rops rinv rview raccepts + part: tree_backend mops minv mview maccepts
  for rops :: "'w backend_ops" and rinv rview raccepts
    and mops :: "'w backend_ops" and minv mview maccepts +
  fixes k :: string
  assumes root_upsert_keeps: "minv w \<Longrightarrow> b_upsert rops [n] w = (w', es, r) \<Longrightarrow> minv w' \<and> mview w' = mview w"
    and root_delete_keeps: "minv w \<Longrightarrow> b_delete rops l w = (w', es, b) \<Longrightarrow> minv w' \<and> mview w' = mview w"
    and part_upsert_keeps: "rinv w \<Longrightarrow> b_upsert mops [n] w = (w', es, r) \<Longrightarrow> rinv w' \<and> rview w' = rview w"
    and part_delete_keeps: "rinv w \<Longrightarrow> b_delete mops l w = (w', es, b) \<Longrightarrow> rinv w' \<and> rview w' = rview w"
begin

abbreviation both :: "'w composite" where
  "both \<equiv> \<lparr>c_root = rops, c_mounts = [(k, mops)]\<rparr>"

abbreviation both_inv :: "'w \<Rightarrow> bool" where
  "both_inv w \<equiv> rinv w \<and> minv w \<and> mview w '''' = None"

abbreviation both_view :: "'w \<Rightarrow> view" where
  "both_view w \<equiv> mounted_view k (rview w) (mview w)"

lemma relevant_both:
  "relevant both (k @ CHR ''/'' # x) = (Suc (length k), mops)"
  "relevant both k = (length k, mops)"
  "\<not> prefix (k @ ''/'') l \<Longrightarrow> l \<noteq> k \<Longrightarrow> relevant both l = (0, rops)"
proof -
  show "relevant both (k @ CHR ''/'' # x) = (Suc (length k), mops)"
    using append_le [of k "CHR ''/'' # x"] by (simp add: relevant_def omap_upto_def)
  show "relevant both k = (length k, mops)" by (simp add: relevant_def omap_upto_def)
  assume l: "\<not> prefix (k @ ''/'') l" "l \<noteq> k"
  show "relevant both l = (0, rops)"
  proof (cases "prefix k l")
    case True
    then obtain z where "l = k @ z" by (auto simp: prefix_def)
    with l append_le [of k z] show ?thesis
      by (cases z) (simp_all add: relevant_def omap_upto_def)
  next
    case False
    then have "take (length k) l \<noteq> k" by (metis take_is_prefix)
    then show ?thesis by (simp add: relevant_def omap_upto_def)
  qed
qed

abbreviation up :: "vnode \<Rightarrow> ('w, bool) act" where
  "up n \<equiv> (let (i, ops) = relevant both (label_rule n) in
      b_upsert ops [shorten_labels (take i (label_rule n)) n])"

lemma upsert_one:
  assumes inv: "both_inv w" and acc: "mountable k raccepts maccepts n"
  shows "\<exists>w' es. up n w = (w', es, Inr True) \<and> both_inv w' \<and>
    both_view w' = (both_view w)(label_rule n \<mapsto> node_assign n)"
proof (cases "label_rule n" k rule: mount_cases)
  case (below x)
  let ?n = "shorten_labels (k @ ''/'') n"
  have lab: "label_rule ?n = x"
    by (simp add: shorten_labels_def below shorten_one_def str_find_zero prefix_def)
  have acc: "\<forall>l \<in> set (label_rule n # child_names n). below_once k l" "maccepts ?n"
    using acc by (auto simp: mountable_def below prefix_def)
  then have x: "x \<noteq> ''''" by (auto simp: below below_once_def)
  obtain w' es where w': "b_upsert mops [?n] w = (w', es, Inr True)" "minv w'"
      "mview w' = (mview w)(x \<mapsto> node_assign ?n)"
    using part.upsert_single [of w ?n] inv acc(2) lab by metis
  have keep: "rinv w' \<and> rview w' = rview w" using part_upsert_keeps w'(1) inv by blast
  have "both_view w' = (both_view w)(label_rule n \<mapsto> node_assign n)"
    using keep reprefix_shortened [OF acc(1)] by (simp add: w'(3) mounted_view_part below)
  then show ?thesis
    using w' keep inv x by (simp add: below relevant_both)
next
  case point
  then show ?thesis using acc by (simp add: mountable_def)
next
  case outside
  then have acc: "raccepts n" using acc by (simp add: mountable_def)
  obtain w' es where w': "b_upsert rops [n] w = (w', es, Inr True)" "rinv w'"
      "rview w' = (rview w)(label_rule n \<mapsto> node_assign n)"
    using root.upsert_single [of w n] inv acc by blast
  have keep: "minv w' \<and> mview w' = mview w" using root_upsert_keeps w'(1) inv by blast
  have "shorten_labels '''' n = n" by (simp add: shorten_labels_def)
  then show ?thesis
    using w' keep inv by (simp add: relevant_both outside mounted_view_root)
qed

lemma upsert_each:
  assumes "both_inv w" and "\<forall>n \<in> set ns. mountable k raccepts maccepts n"
  shows "\<exists>w' es. act_each up ns w = (w', es, Inr ()) \<and> both_inv w' \<and>
    both_view w' = view_store ns (both_view w)"
  using assms
proof (induction ns arbitrary: w)
  case Nil
  then show ?case by (simp add: act_return_def)
next
  case (Cons n ns)
  have acc: "mountable k raccepts maccepts n" using Cons.prems(2) by simp
  obtain w1 es where w1: "up n w = (w1, es, Inr True)" "both_inv w1"
      "both_view w1 = (both_view w)(label_rule n \<mapsto> node_assign n)"
    using upsert_one [OF Cons.prems(1) acc] by blast
  obtain w2 fs where w2: "act_each up ns w1 = (w2, fs, Inr ())" "both_inv w2"
      "both_view w2 = view_store ns (both_view w1)"
    using Cons.IH [OF w1(2)] Cons.prems(2) by auto
  have "view_store (n # ns) (both_view w) = view_store ns (both_view w1)"
    using view_store_append [of "[n]" ns "both_view w"] w1(3) by simp
  moreover have "act_each up (n # ns) w = (w2, es @ fs, Inr ())"
    unfolding act_each.simps act_bind_Inr [of "up n", OF w1(1)] w2(1) by simp
  ultimately show ?case using w2(2,3) by auto
qed

lemma delete_one:
  assumes inv: "both_inv w"
  shows "\<exists>w' es r. composite_delete both l w = (w', es, Inr r) \<and> both_inv w' \<and>
      both_view w' l = None \<and> both_view w' \<subseteq>\<^sub>m both_view w \<and>
      (\<forall>m. \<not> at_or_below l m \<longrightarrow> both_view w' m = both_view w m)"
proof -
  have part: "\<exists>w' es r. b_delete mops x w = (w', es, Inr r) \<and> both_inv w' \<and>
      mview w' x = None \<and> both_view w' \<subseteq>\<^sub>m both_view w \<and> rview w' = rview w \<and>
      (\<forall>m. \<not> at_or_below x m \<longrightarrow> mview w' m = mview w m)" for x
  proof -
    obtain w' es r where w': "b_delete mops x w = (w', es, Inr r)" "minv w'"
        "mview w' x = None" "mview w' \<subseteq>\<^sub>m mview w"
        "\<forall>m. \<not> at_or_below x m \<longrightarrow> mview w' m = mview w m"
      using part.delete [of w x] inv by blast
    have keep: "rinv w' \<and> rview w' = rview w" using part_delete_keeps w'(1) inv by blast
    have "mview w' '''' = None" using w'(4) inv by (metis domIff map_le_def)
    with w' keep inv mounted_view_le [of "rview w'" "rview w", OF _ w'(4), of k] show ?thesis by auto
  qed
  show ?thesis
  proof (cases l k rule: mount_cases)
    case (below x)
    obtain w' es r where w': "b_delete mops x w = (w', es, Inr r)" "both_inv w'" "mview w' x = None"
        "both_view w' \<subseteq>\<^sub>m both_view w" "rview w' = rview w"
        "\<forall>m. \<not> at_or_below x m \<longrightarrow> mview w' m = mview w m"
      using part [of x] by blast
    have "both_view w' m = both_view w m" if "\<not> at_or_below l m" for m
      using that w'(5,6) at_or_below_prefix [of "k @ ''/''" x]
      by (cases m k rule: mount_cases) (auto simp: below)
    with w' show ?thesis by (auto simp: composite_delete_def below relevant_both)
  next
    case point
    obtain w' es r where w': "b_delete mops '''' w = (w', es, Inr r)" "both_inv w'"
        "both_view w' \<subseteq>\<^sub>m both_view w" "rview w' = rview w"
        "\<forall>m. \<not> at_or_below '''' m \<longrightarrow> mview w' m = mview w m"
      using part [of "''''"] by blast
    have "both_view w' m = both_view w m" if "\<not> at_or_below k m" for m
      using that w'(4,5) by (cases m k rule: mount_cases) (auto simp: at_or_below_def prefix_def)
    with w' show ?thesis by (auto simp: composite_delete_def point relevant_both)
  next
    case outside
    obtain w' es r where w': "b_delete rops l w = (w', es, Inr r)" "rinv w'"
        "rview w' l = None" "rview w' \<subseteq>\<^sub>m rview w" "\<forall>m. \<not> at_or_below l m \<longrightarrow> rview w' m = rview w m"
      using root.delete [of w l] inv by blast
    have keep: "minv w' \<and> mview w' = mview w" using root_delete_keeps w'(1) inv by blast
    have "both_view w' m = both_view w m" if "\<not> at_or_below l m" for m
      using that w'(5) keep by (cases m k rule: mount_cases) auto
    with w' keep inv outside mounted_view_le [of "rview w'" "rview w" "mview w'" "mview w" k] show ?thesis
      by (auto simp: composite_delete_def relevant_both)
  qed
qed

lemma composite_backend:
  "tree_backend (composite_ops both) both_inv both_view (mountable k raccepts maccepts)"
proof
  fix w l assume inv: "both_inv w"
  show "b_get_node (composite_ops both) l w = Inr (both_view w l)"
    using inv prefix_labels_reprefix [of k]
    by (cases l k rule: mount_cases)
      (auto simp: composite_ops_def composite_get_node_def relevant_both root.get_node part.get_node
        split: option.split)
next
  fix w ns assume "both_inv w" and "\<forall>n \<in> set ns. mountable k raccepts maccepts n"
  from upsert_each [OF this]
  show "\<exists>w' es. b_upsert (composite_ops both) ns w = (w', es, Inr True) \<and> both_inv w' \<and>
      both_view w' = view_store ns (both_view w)"
    by (auto simp: composite_ops_def composite_upsert_def act_bind_Inr act_return_def)
next
  fix w l assume inv: "both_inv w"
  show "\<exists>w' es r. b_delete (composite_ops both) l w = (w', es, Inr r) \<and> both_inv w' \<and>
      both_view w' l = None \<and> both_view w' \<subseteq>\<^sub>m both_view w \<and>
      (\<forall>m. \<not> at_or_below l m \<longrightarrow> both_view w' m = both_view w m)"
    using delete_one [OF inv] by (simp add: composite_ops_def)
qed

end

text \<open>Two in-memory backends side by side, the second mounted on the first.\<close>

abbreviation first_ops :: "(simple_backend \<times> simple_backend) backend_ops" where
  "first_ops \<equiv> zoom_ops fst (\<lambda>a w. (a, snd w)) simple_ops"

abbreviation second_ops :: "(simple_backend \<times> simple_backend) backend_ops" where
  "second_ops \<equiv> zoom_ops snd (\<lambda>b w. (fst w, b)) simple_ops"

interpretation first: tree_backend first_ops "\<lambda>w. simple_inv (fst w)" "\<lambda>w. map_of (memory_tree (fst w))" "\<lambda>_. True"
  by (rule simple.under_zoom) simp

interpretation second: tree_backend second_ops "\<lambda>w. simple_inv (snd w)" "\<lambda>w. map_of (memory_tree (snd w))" "\<lambda>_. True"
  by (rule simple.under_zoom) simp

interpretation two: mounted first_ops "\<lambda>w. simple_inv (fst w)" "\<lambda>w. map_of (memory_tree (fst w))" "\<lambda>_. True"
  second_ops "\<lambda>w. simple_inv (snd w)" "\<lambda>w. map_of (memory_tree (snd w))" "\<lambda>_. True" k for k
  by unfold_locales (auto simp: zoom_ops_def act_zoom_def split: prod.splits)

definition mounted_pair :: "string \<Rightarrow> (simple_backend \<times> simple_backend) composite" where
  "mounted_pair k = \<lparr>c_root = first_ops, c_mounts = [(k, second_ops)]\<rparr>"


lemma mountable_oak: "mountable ''zoo'' (\<lambda>_. True) (\<lambda>_. True) (old_oak\<lparr>label_rule := ''zoo/oak''\<rparr>)"
  by (simp add: mountable_def below_once_def old_oak_def node_default_def)


text \<open>
  The mount point itself cannot be read once its backend has a node under the empty label, since
  the label cut off does not end in a slash.
\<close>

theorem mount_point_unreadable:
  assumes "omap_ok (c_mounts c)" and "map_of (c_mounts c) k = Some ops" and "k \<noteq> ''''" and "last k \<noteq> CHR ''/''"
    and "b_get_node ops '''' w = Inr (Some n)"
  shows "composite_get_node c k w = Inl (Runtime_Error prefix_message)"
proof -
  obtain rest where "omap_upto k (c_mounts c) = (k, ops) # rest"
    using omap_upto_nearest [OF assms(1,2), of k] by auto
  then have "relevant c k = (length k, ops)" by (simp add: relevant_def)
  then show ?thesis
    using assms(3-5) by (simp add: composite_get_node_def prefix_labels_def)
qed

theorem mount_point_unreadable_witness:
  "composite_get_node (mounted_pair ''zoo'') ''zoo''
     (simple_new [], simple_new [('''', node_default vs_empty)]) = Inl (Runtime_Error prefix_message)"
  by (rule mount_point_unreadable [where ops = second_ops and n = "node_default vs_empty"])
    (simp_all add: mounted_pair_def omap_ok_def zoom_ops_def simple_ops_def simple_get_node_def
      tree_get_node_def simple_new_def)

text \<open>
  Of two mount points without a slash, mounting the second one compares them out of range, which
  is undefined behaviour, although neither is in the way of the other.
\<close>

theorem second_mount_undefined:
  assumes "c_mounts c = (key, ops) # ms" and "l \<notin> fst ` set (c_mounts c)" and "b_get_node (c_root c) l w = Inr None"
    and "CHR ''/'' \<notin> set key \<union> set l" and "CHR ''?'' \<notin> set key \<union> set l" and "key \<noteq> ''''" and "l \<noteq> ''''"
  shows "mount_backend l ops' w c = Inl Undefined_Behaviour"
proof -
  have "rfind_char (CHR ''/'') key = None" "rfind_char (CHR ''/'') l = None"
    using assms(4) by (simp_all add: rfind_char_None)
  moreover have "strip_query key = key" "strip_query l = l"
    using assms(5) by (auto intro: strip_query_id)
  ultimately have "check_overlap l key = Inl Undefined_Behaviour"
    using assms(1,2,6,7) by (auto simp: check_overlap_def Let_def)
  moreover have "map_of (c_mounts c) l = None"
    using assms(2) by (simp add: map_of_eq_None_iff)
  ultimately show ?thesis
    using assms(1,3) by (simp add: mount_backend_def)
qed

theorem second_mount_undefined_witness:
  "mount_backend ''farm'' second_ops (simple_new [], simple_new []) (mounted_pair ''zoo'') = Inl Undefined_Behaviour"
  by (rule second_mount_undefined [where key = "''zoo''" and ops = second_ops and ms = "[]"])
    (simp_all add: mounted_pair_def zoom_ops_def simple_ops_def simple_get_node_def tree_get_node_def simple_new_def)

end
