(* ===== verification/Text_Streams.thy ===== *)
theory Text_Streams
  imports Tree_Node
begin

text \<open>
  The part of C++ input streams the program uses: formatted extraction of words and numbers,
  \<open>get\<close>, \<open>peek\<close> and \<open>read\<close>, over the text still to be read and the two error flags of the stream.
  A reader returns a value and the stream after it; a reader of a number gets the value its variable
  holds before, because an extraction from a stream that is not good leaves the variable alone, and
  reading a variable that was never written is undefined behaviour.
\<close>

section \<open>Streams and readers\<close>

record istr =
  is_rest :: string
  is_fail :: bool
  is_eof :: bool

type_synonym 'a reader = "istr \<Rightarrow> ('a \<times> istr) result"

definition ready :: "string \<Rightarrow> istr" where
  "ready s = \<lparr>is_rest = s, is_fail = False, is_eof = False\<rparr>"

definition is_good :: "istr \<Rightarrow> bool" where
  "is_good s \<longleftrightarrow> \<not> is_fail s \<and> \<not> is_eof s"

definition rd_return :: "'a \<Rightarrow> 'a reader" where
  "rd_return x s = Inr (x, s)"

definition rd_throw :: "err \<Rightarrow> 'a reader" where
  "rd_throw e s = Inl e"

definition rd_bind :: "'a reader \<Rightarrow> ('a \<Rightarrow> 'b reader) \<Rightarrow> 'b reader" where
  "rd_bind m f s = rbind (m s) (\<lambda>(x, s'). f x s')"

definition rd_then :: "'a reader \<Rightarrow> 'b reader \<Rightarrow> 'b reader" where
  "rd_then m n = rd_bind m (\<lambda>_. n)"

text \<open>Skipping white space before a formatted extraction: \<open>None\<close> when the sentry fails.\<close>

definition sentry :: "istr \<Rightarrow> string option \<times> istr" where
  "sentry s =
     (if \<not> is_good s then (None, s\<lparr>is_fail := True\<rparr>)
      else
        let r = dropWhile is_space (is_rest s) in
        if r = [] then (None, \<lparr>is_rest = [], is_fail = True, is_eof = True\<rparr>)
        else (Some r, s\<lparr>is_rest := r\<rparr>))"

text \<open>\<open>is >> word\<close> into a variable that holds \<open>old\<close>.\<close>

definition rd_word :: "string \<Rightarrow> string reader" where
  "rd_word old s =
     (case sentry s of
        (None, s') \<Rightarrow> Inr (old, s')
      | (Some r, s') \<Rightarrow>
          let rest = dropWhile (\<lambda>c. \<not> is_space c) r in
          Inr (takeWhile (\<lambda>c. \<not> is_space c) r, s'\<lparr>is_rest := rest, is_eof := rest = []\<rparr>))"

abbreviation rd_skip :: "string reader" where
  "rd_skip \<equiv> rd_word []"

definition rd_get :: "char option reader" where
  "rd_get s =
     (if \<not> is_good s then Inr (None, s\<lparr>is_fail := True\<rparr>)
      else (case is_rest s of
              [] \<Rightarrow> Inr (None, s\<lparr>is_fail := True, is_eof := True\<rparr>)
            | c # cs \<Rightarrow> Inr (Some c, s\<lparr>is_rest := cs\<rparr>)))"

definition rd_peek :: "char option reader" where
  "rd_peek s =
     (if \<not> is_good s then Inr (None, s\<lparr>is_fail := True\<rparr>)
      else (case is_rest s of
              [] \<Rightarrow> Inr (None, s\<lparr>is_eof := True\<rparr>)
            | c # cs \<Rightarrow> Inr (Some c, s)))"

text \<open>\<open>is.read\<close> into a zeroed string of \<open>n\<close> characters.\<close>

definition rd_read :: "nat \<Rightarrow> string reader" where
  "rd_read n s =
     (if \<not> is_good s then Inr (replicate n (CHR 0x00), s\<lparr>is_fail := True\<rparr>)
      else
        let got = take n (is_rest s) in
        if length got < n
        then Inr (got @ replicate (n - length got) (CHR 0x00), \<lparr>is_rest = [], is_fail = True, is_eof = True\<rparr>)
        else Inr (got, s\<lparr>is_rest := drop n (is_rest s)\<rparr>))"

section \<open>Numbers\<close>

definition digit_val :: "nat \<Rightarrow> char \<Rightarrow> nat option" where
  "digit_val base c =
     (let n = of_char c :: nat;
          v = (if 48 \<le> n \<and> n \<le> 57 then Some (n - 48)
               else if 97 \<le> n \<and> n \<le> 102 then Some (n - 87)
               else if 65 \<le> n \<and> n \<le> 70 then Some (n - 55) else None) in
      case v of None \<Rightarrow> None | Some d \<Rightarrow> if d < base then Some d else None)"

fun digits_val :: "nat \<Rightarrow> nat \<Rightarrow> string \<Rightarrow> nat" where
  "digits_val base acc [] = acc"
| "digits_val base acc (c # cs) =
     (case digit_val base c of Some d \<Rightarrow> digits_val base (acc * base + d) cs | None \<Rightarrow> acc)"

text \<open>
  The text of a number at the start of \<open>s\<close>: sign, digits and what follows; in base 16 a prefix \<open>0x\<close>
  is no digit.
\<close>

definition scan_number :: "nat \<Rightarrow> string \<Rightarrow> bool \<times> string \<times> string" where
  "scan_number base s =
     (let (neg, s1) = (case s of c # cs \<Rightarrow>
             if c = CHR ''-'' then (True, cs) else if c = CHR ''+'' then (False, cs) else (False, s)
           | [] \<Rightarrow> (False, s));
          s2 = (if base = 16 \<and> take 1 s1 = ''0'' \<and> (take 1 (drop 1 s1) = ''x'' \<or> take 1 (drop 1 s1) = ''X'')
                then drop 2 s1 else s1) in
      (neg, takeWhile (\<lambda>c. digit_val base c \<noteq> None) s2, dropWhile (\<lambda>c. digit_val base c \<noteq> None) s2))"

text \<open>\<open>is >> n\<close> for an unsigned type of \<open>w\<close> bits: too large saturates and fails, a sign wraps.\<close>

definition rd_unsigned :: "nat \<Rightarrow> nat \<Rightarrow> nat option \<Rightarrow> nat reader" where
  "rd_unsigned base w old s =
     (case sentry s of
        (None, s') \<Rightarrow> (case old of None \<Rightarrow> Inl Undefined_Behaviour | Some v \<Rightarrow> Inr (v, s'))
      | (Some r, s') \<Rightarrow>
          let (neg, ds, rest) = scan_number base r;
              v = digits_val base 0 ds;
              s'' = s'\<lparr>is_rest := rest, is_eof := rest = []\<rparr> in
          if ds = [] then Inr (0, s''\<lparr>is_fail := True\<rparr>)
          else if 2 ^ w \<le> v then Inr (2 ^ w - 1, s''\<lparr>is_fail := True\<rparr>)
          else Inr (if neg then (2 ^ w - v) mod 2 ^ w else v, s''))"

text \<open>\<open>is >> n\<close> for an \<open>int\<close>.\<close>

definition rd_int :: "nat \<Rightarrow> int option \<Rightarrow> int reader" where
  "rd_int base old s =
     (case sentry s of
        (None, s') \<Rightarrow> (case old of None \<Rightarrow> Inl Undefined_Behaviour | Some v \<Rightarrow> Inr (v, s'))
      | (Some r, s') \<Rightarrow>
          let (neg, ds, rest) = scan_number base r;
              v = (if neg then - int (digits_val base 0 ds) else int (digits_val base 0 ds));
              s'' = s'\<lparr>is_rest := rest, is_eof := rest = []\<rparr> in
          if ds = [] then Inr (0, s''\<lparr>is_fail := True\<rparr>)
          else if v < - (2 ^ 31) then Inr (- (2 ^ 31), s''\<lparr>is_fail := True\<rparr>)
          else if 2 ^ 31 \<le> v then Inr (2 ^ 31 - 1, s''\<lparr>is_fail := True\<rparr>)
          else Inr (v, s''))"

text \<open>\<open>is >> b\<close> for a \<open>bool\<close> reads a number; anything but 0 and 1 is true and a failure.\<close>

definition rd_bool :: "bool option \<Rightarrow> bool reader" where
  "rd_bool old s =
     (case sentry s of
        (None, s') \<Rightarrow> (case old of None \<Rightarrow> Inl Undefined_Behaviour | Some v \<Rightarrow> Inr (v, s'))
      | (Some r, s') \<Rightarrow>
          let (neg, ds, rest) = scan_number 10 r;
              v = digits_val 10 0 ds;
              s'' = s'\<lparr>is_rest := rest, is_eof := rest = []\<rparr> in
          if ds = [] then Inr (False, s''\<lparr>is_fail := True\<rparr>)
          else if v = 0 then Inr (False, s'')
          else if v = 1 \<and> \<not> neg then Inr (True, s'')
          else Inr (True, s''\<lparr>is_fail := True\<rparr>))"

text \<open>Written numbers: decimal is \<open>to_dec\<close>; a signed one; hexadecimal padded with zeros.\<close>

definition int_dec :: "int \<Rightarrow> string" where
  "int_dec i = (if i < 0 then CHR ''-'' # to_dec (nat (- i)) else to_dec (nat i))"

definition hex_digit :: "nat \<Rightarrow> char" where
  "hex_digit d = (if d < 10 then char_of (48 + d) else char_of (87 + d))"

fun hex_fixed :: "nat \<Rightarrow> nat \<Rightarrow> string" where
  "hex_fixed 0 n = []"
| "hex_fixed (Suc k) n = hex_fixed k (n div 16) @ [hex_digit (n mod 16)]"

section \<open>Reading back what was written\<close>

lemma rd_bind_simps [stream_simps]:
  "m s = Inr (x, s') \<Longrightarrow> rd_bind m f s = f x s'"
  "m s = Inr (x, s') \<Longrightarrow> rd_then m n s = n s'"
  by (simp_all add: rd_bind_def rd_then_def)

lemma rd_bind_ret [simp]: "rd_bind (rd_return x) f = f x"
  by (rule ext) (simp add: rd_bind_def rd_return_def)

lemma is_good_ready [simp]: "is_good (ready s)"
  by (simp add: is_good_def ready_def)

definition no_space :: "string \<Rightarrow> bool" where
  "no_space s \<longleftrightarrow> (\<forall>c \<in> set s. \<not> is_space c)"

definition word_ok :: "string \<Rightarrow> bool" where
  "word_ok s \<longleftrightarrow> s \<noteq> [] \<and> no_space s"

lemma no_space_simps [simp]:
  "no_space []"
  "no_space (c # s) \<longleftrightarrow> \<not> is_space c \<and> no_space s"
  "no_space (s @ t) \<longleftrightarrow> no_space s \<and> no_space t"
  by (auto simp: no_space_def)

lemma takeWhile_word [simp]:
  "no_space w \<Longrightarrow> is_space c \<Longrightarrow> takeWhile (\<lambda>c. \<not> is_space c) (w @ c # s) = w"
  "no_space w \<Longrightarrow> is_space c \<Longrightarrow> dropWhile (\<lambda>c. \<not> is_space c) (w @ c # s) = c # s"
  by (induction w) auto

lemma sentry_ready:
  "dropWhile is_space s = r \<Longrightarrow> r \<noteq> [] \<Longrightarrow> sentry (ready s) = (Some r, ready r)"
  by (simp add: sentry_def is_good_def ready_def)

lemma dropWhile_word: "word_ok w \<Longrightarrow> dropWhile is_space (w @ s) = w @ s"
  by (cases w) (auto simp: word_ok_def)

text \<open>A word followed by white space is read as it is, leading white space skipped.\<close>

lemma rd_word_reads:
  assumes "dropWhile is_space s = w @ c # r" and "word_ok w" and "is_space c"
  shows "rd_word old (ready s) = Inr (w, ready (c # r))"
  using assms sentry_ready [of s "w @ c # r"]
  by (auto simp: rd_word_def ready_def word_ok_def)

lemma rd_word_here [stream_simps]:
  "word_ok w \<Longrightarrow> is_space c \<Longrightarrow> rd_word old (ready (w @ c # r)) = Inr (w, ready (c # r))"
  by (rule rd_word_reads) (simp_all add: dropWhile_word)

lemma rd_word_blank [stream_simps]:
  "is_space b \<Longrightarrow> word_ok w \<Longrightarrow> is_space c \<Longrightarrow> rd_word old (ready (b # w @ c # r)) = Inr (w, ready (c # r))"
  by (rule rd_word_reads) (simp_all add: dropWhile_word)

lemma rd_get_ready [stream_simps]: "rd_get (ready (c # s)) = Inr (Some c, ready s)"
  by (simp add: rd_get_def ready_def is_good_def)

lemma rd_peek_ready [stream_simps]: "rd_peek (ready (c # s)) = Inr (Some c, ready (c # s))"
  by (simp add: rd_peek_def ready_def is_good_def)

lemma rd_read_ready [stream_simps]: "rd_read (length t) (ready (t @ s)) = Inr (t, ready s)"
  by (simp add: rd_read_def ready_def is_good_def)

subsection \<open>Decimal and hexadecimal digits\<close>

lemma digit_val_digit: "d < 10 \<Longrightarrow> digit_val 10 (digit d) = Some d"
  by (simp add: digit_val_def digit_def Let_def)

lemma digits_val_append:
  "\<forall>c \<in> set s. digit_val base c \<noteq> None \<Longrightarrow>
     digits_val base acc (s @ t) = digits_val base (digits_val base acc s) t"
  by (induction s arbitrary: acc) auto

lemma to_dec_digits: "c \<in> set (to_dec n) \<Longrightarrow> digit_val 10 c \<noteq> None"
proof (induction n rule: to_dec.induct)
  case (1 n)
  then show ?case
    by (subst (asm) (2) to_dec.simps) (auto simp: digit_val_digit split: if_splits)
qed

lemma to_dec_val: "digits_val 10 0 (to_dec n) = n"
proof (induction n rule: to_dec.induct)
  case (1 n)
  then show ?case
    using to_dec_digits [of _ "n div 10"]
    by (subst to_dec.simps) (auto simp: digit_val_digit digits_val_append)
qed

lemma to_dec_nonempty [simp]: "to_dec n \<noteq> []"
  by (subst to_dec.simps) simp

lemma digit_not_space: "digit_val b c \<noteq> None \<Longrightarrow> \<not> is_space c"
  by (auto simp: digit_val_def is_space_def Let_def split: if_splits)

lemma to_dec_word [simp]: "word_ok (to_dec n)" "no_space (to_dec n)"
proof -
  have "\<not> is_space c" if "c \<in> set (to_dec n)" for c
    using digit_not_space [OF to_dec_digits [OF that]] .
  then show "word_ok (to_dec n)" "no_space (to_dec n)" by (simp_all add: word_ok_def no_space_def)
qed

lemma digit_no_sign: "digit_val b c \<noteq> None \<Longrightarrow> c \<noteq> CHR ''-'' \<and> c \<noteq> CHR ''+'' \<and> c \<noteq> CHR ''x'' \<and> c \<noteq> CHR ''X''"
  by (auto simp: digit_val_def Let_def split: if_splits)

lemma scan_digits:
  assumes "ds \<noteq> []" and "\<forall>c \<in> set ds. digit_val base c \<noteq> None"
    and "r = [] \<or> digit_val base (hd r) = None" and "hd r \<noteq> CHR ''x''" and "hd r \<noteq> CHR ''X''"
  shows "scan_number base (ds @ r) = (False, ds, r)"
proof -
  obtain d es where ds: "ds = d # es" using assms(1) by (cases ds) auto
  have sign: "d \<noteq> CHR ''-''" "d \<noteq> CHR ''+''" using digit_no_sign assms(2) ds by auto
  have x: "take 1 (drop 1 (ds @ r)) \<noteq> ''x'' \<and> take 1 (drop 1 (ds @ r)) \<noteq> ''X''"
  proof (cases es)
    case Nil
    then show ?thesis using assms(4,5) by (cases r) (auto simp: ds)
  next
    case (Cons e fs)
    then show ?thesis using digit_no_sign [of base e] assms(2) by (simp add: ds)
  qed
  have "takeWhile (\<lambda>c. digit_val base c \<noteq> None) (ds @ r) = ds"
    and "dropWhile (\<lambda>c. digit_val base c \<noteq> None) (ds @ r) = r"
    using assms(2,3) by (cases r; auto simp: takeWhile_append dropWhile_append)+
  with sign x show ?thesis by (simp add: scan_number_def ds Let_def)
qed

definition after :: "string \<Rightarrow> istr" where
  "after r = \<lparr>is_rest = r, is_fail = False, is_eof = r = []\<rparr>"

lemma after_Cons [simp]: "after (c # r) = ready (c # r)"
  by (simp add: after_def ready_def)

definition blank_or_end :: "string \<Rightarrow> bool" where
  "blank_or_end r \<longleftrightarrow> (case r of [] \<Rightarrow> True | c # _ \<Rightarrow> is_space c)"

lemma blank_or_end_simps [simp]: "blank_or_end []" "blank_or_end (c # r) \<longleftrightarrow> is_space c"
  by (simp_all add: blank_or_end_def)

lemma scan_blank:
  assumes "ds \<noteq> []" and "\<forall>c \<in> set ds. digit_val base c \<noteq> None" and "blank_or_end r"
  shows "scan_number base (ds @ r) = (False, ds, r)"
proof (cases r)
  case Nil
  have "take 1 (drop 1 ds) \<noteq> ''x'' \<and> take 1 (drop 1 ds) \<noteq> ''X''"
  proof (cases "drop 1 ds")
    case (Cons e fs)
    then have "e \<in> set ds" by (metis in_set_dropD list.set_intros(1))
    then show ?thesis using Cons digit_no_sign [of base e] assms(2) by simp
  qed simp
  moreover have "hd ds \<noteq> CHR ''-''" "hd ds \<noteq> CHR ''+''"
    using digit_no_sign [of base "hd ds"] assms(1,2) by auto
  moreover have "takeWhile (\<lambda>c. digit_val base c \<noteq> None) ds = ds" "dropWhile (\<lambda>c. digit_val base c \<noteq> None) ds = []"
    using assms(2) by (simp_all add: takeWhile_eq_all_conv)
  ultimately show ?thesis
    using assms(1) Nil by (cases ds) (simp_all add: scan_number_def Let_def)
next
  case (Cons c cs)
  then have "is_space c" using assms(3) by simp
  then have "digit_val base c = None" using digit_not_space by blast
  moreover have "c \<noteq> CHR ''x''" "c \<noteq> CHR ''X''" using \<open>is_space c\<close> by (auto simp: is_space_def)
  ultimately show ?thesis using Cons assms by (intro scan_digits) simp_all
qed

lemma rd_unsigned_reads:
  assumes "dropWhile is_space s = ds @ r" and "ds \<noteq> []" and "\<forall>c \<in> set ds. digit_val base c \<noteq> None"
    and "blank_or_end r" and "digits_val base 0 ds < 2 ^ w"
  shows "rd_unsigned base w old (ready s) = Inr (digits_val base 0 ds, after r)"
  using sentry_ready [OF assms(1)] scan_blank [OF assms(2-4)] assms(2,5)
  by (simp add: rd_unsigned_def) (simp add: ready_def after_def)

lemma drop_blanks [simp]:
  "dropWhile is_space (to_dec n @ r) = to_dec n @ r"
  by (rule dropWhile_word) simp

lemma rd_unsigned_text [stream_simps]:
  assumes "n < 2 ^ w" and "blank_or_end r"
  shows "rd_unsigned 10 w old (ready (to_dec n @ r)) = Inr (n, after r)"
    and "is_space b \<Longrightarrow> rd_unsigned 10 w old (ready (b # to_dec n @ r)) = Inr (n, after r)"
  using rd_unsigned_reads [of _ "to_dec n" r 10 w old] assms to_dec_digits [of _ n]
  by (auto simp: to_dec_val)

lemma int_dec_word [simp]: "word_ok (int_dec i)"
  using to_dec_word(2) by (auto simp: int_dec_def word_ok_def is_space_def)

lemma scan_int_dec:
  assumes "blank_or_end r"
  shows "scan_number 10 (int_dec i @ r) = (i < 0, to_dec (nat \<bar>i\<bar>), r)"
proof (cases "i < 0")
  case False
  then show ?thesis
    using scan_blank [of "to_dec (nat i)" 10 r] to_dec_digits assms by (simp add: int_dec_def)
next
  case True
  have "scan_number 10 (to_dec (nat (- i)) @ r) = (False, to_dec (nat (- i)), r)"
    using scan_blank [of "to_dec (nat (- i))" 10 r] to_dec_digits assms by simp
  moreover obtain d ds where d: "to_dec (nat (- i)) = d # ds" by (cases "to_dec (nat (- i))") auto
  moreover have "d \<noteq> CHR ''-''" "d \<noteq> CHR ''+''"
    using to_dec_digits [of d "nat (- i)"] digit_no_sign d by auto
  ultimately show ?thesis
    using True by (simp add: int_dec_def scan_number_def Let_def)
qed

lemma rd_int_text [stream_simps]:
  assumes "- (2 ^ 31) \<le> i" and "i < 2 ^ 31" and "blank_or_end r" and "is_space b"
  shows "rd_int 10 old (ready (b # int_dec i @ r)) = Inr (i, after r)"
proof -
  have "dropWhile is_space (b # int_dec i @ r) = int_dec i @ r"
    using assms(4) dropWhile_word [of "int_dec i" r] by simp
  then have "sentry (ready (b # int_dec i @ r)) = (Some (int_dec i @ r), ready (int_dec i @ r))"
    by (rule sentry_ready) (simp add: int_dec_def)
  then show ?thesis
    using assms scan_int_dec [OF assms(3), of i]
    by (auto simp: rd_int_def to_dec_val ready_def after_def)
qed

lemma hex_digit_val: "d < 16 \<Longrightarrow> digit_val 16 (hex_digit d) = Some d"
  by (auto simp: digit_val_def hex_digit_def Let_def)

lemma hex_fixed_digits: "c \<in> set (hex_fixed k n) \<Longrightarrow> digit_val 16 c \<noteq> None"
  by (induction k arbitrary: n) (auto simp: hex_digit_val)

lemma length_hex_fixed [simp]: "length (hex_fixed k n) = k"
  by (induction k arbitrary: n) auto

lemma hex_fixed_val: "digits_val 16 0 (hex_fixed k n) = n mod 16 ^ k"
proof (induction k arbitrary: n)
  case (Suc k)
  have "digits_val 16 0 (hex_fixed (Suc k) n) = (n div 16) mod 16 ^ k * 16 + n mod 16"
    using hex_fixed_digits [of _ k "n div 16"]
    by (simp add: digits_val_append Suc hex_digit_val)
  also have "\<dots> = n mod 16 ^ Suc k"
    by (simp add: mod_mult2_eq mult.commute)
  finally show ?case .
qed simp

lemma hex_fixed_word: "0 < k \<Longrightarrow> word_ok (hex_fixed k n)"
  using digit_not_space [OF hex_fixed_digits]
  by (auto simp: word_ok_def no_space_def simp flip: length_greater_0_conv)

text \<open>Sixteen hexadecimal digits are a \<open>size_t\<close>.\<close>

lemma rd_hex_text [stream_simps]:
  assumes "n < 2 ^ 64" and "blank_or_end r"
  shows "rd_unsigned 16 64 old (ready (hex_fixed 16 n @ r)) = Inr (n, after r)"
    and "is_space b \<Longrightarrow> rd_unsigned 16 64 old (ready (b # hex_fixed 16 n @ r)) = Inr (n, after r)"
proof -
  have "dropWhile is_space (hex_fixed 16 n @ r) = hex_fixed 16 n @ r"
    by (rule dropWhile_word) (rule hex_fixed_word, simp)
  moreover have "hex_fixed 16 n \<noteq> []" by (simp flip: length_greater_0_conv)
  moreover have "digits_val 16 0 (hex_fixed 16 n) = n" using assms(1) by (simp add: hex_fixed_val)
  ultimately show "rd_unsigned 16 64 old (ready (hex_fixed 16 n @ r)) = Inr (n, after r)"
    and "is_space b \<Longrightarrow> rd_unsigned 16 64 old (ready (b # hex_fixed 16 n @ r)) = Inr (n, after r)"
    using rd_unsigned_reads [of _ "hex_fixed 16 n" r 16 64 old] hex_fixed_digits assms by auto
qed

end
