(* ===== verification/Tree_Streams.thy ===== *)
theory Tree_Streams
  imports Text_Streams Span_Access
begin

text \<open>
  The text form of versions, spans and nodes: the stream operators of \<open>shared_chunk.h\<close>,
  \<open>tree_node.h\<close> and \<open>tree_node.cpp\<close>, as functions to and from text. Nodes carry the contents of their
  property data (\<open>vspan\<close>); the flag of \<open>hide_contents\<close> is an argument.
\<close>

definition newline :: char where
  "newline = CHR 0x0A"

lemma is_space_lit [simp]:
  "is_space (Char b0 b1 b2 b3 b4 b5 b6 b7) \<longleftrightarrow>
     \<not> b4 \<and> \<not> b6 \<and> \<not> b7 \<and> (if b5 then \<not> b0 \<and> \<not> b1 \<and> \<not> b2 \<and> \<not> b3
        else b3 \<and> (b2 \<longrightarrow> \<not> b1) \<and> (b0 \<or> b1 \<or> b2))"
  by (cases b0; cases b1; cases b2; cases b3; cases b4; cases b5; cases b6; cases b7;
      simp add: is_space_def)

lemma is_space_newline [simp]: "is_space newline"
  by (simp add: newline_def)

section \<open>Writing\<close>

definition write_maybe :: "('a \<Rightarrow> string) \<Rightarrow> 'a option \<Rightarrow> string" where
  "write_maybe f m = (case m of None \<Rightarrow> ''Nothing'' | Some x \<Rightarrow> ''Just '' @ f x)"

definition policy_message :: string where
  "policy_message = ''TreeNodeVersion policy cannot be empty.  '' @ [CHR 0x27] @ ''default'' @ [CHR 0x27] @
     '' should be used at minimum.''"

definition write_version :: "version \<Rightarrow> string result" where
  "write_version v =
     (if policy v = '''' then Inl (Runtime_Error policy_message)
      else Inr (''Version: '' @ to_dec (unat (version_number v)) @
        '' Max_Version: '' @ to_dec (unat (max_version_sequence v)) @
        '' Policy: '' @ policy v @
        '' Authorial_Proof: '' @ write_maybe id (authorial_proof v) @
        '' Authors: '' @ write_maybe id (authors v) @
        '' Readers: '' @ write_maybe id (readers v) @
        '' Collision_Depth: '' @ write_maybe int_dec (collision_depth v) @ '' ''))"

definition write_length_string :: "string \<Rightarrow> string \<Rightarrow> string" where
  "write_length_string label s = label @ '' '' @ to_dec (length s) @ '' :'' @ [newline] @ s @ [newline]"

text \<open>Two hexadecimal digits per byte, a line break after every sixteenth.\<close>

fun write_hex :: "nat \<Rightarrow> byte list \<Rightarrow> string" where
  "write_hex n [] = []"
| "write_hex n (b # bs) =
     hex_fixed 2 (of_char b) @ (if n mod 16 = 15 then [newline] else []) @ write_hex (Suc n) bs"

definition write_span :: "vspan \<Rightarrow> string result" where
  "write_span s =
     (case vs_chunks s of
        [] \<Rightarrow> Inr (''shared_span( signal_type: 0 signal_size: 0 data_size: 0 chunk_data: ['' @ [newline] @
                  ''])'' @ [newline])
      | c # _ \<Rightarrow>
          rbind (signal_size (vs_type s)) (\<lambda>z.
            Inr (''shared_span( signal_type: '' @ to_dec (unat (vs_type s)) @
              '' signal_size: '' @ to_dec z @ '' data_size: '' @ to_dec (vs_size s) @
              '' chunk_data: ['' @ [newline] @
              write_hex 0 (take z (header_bytes (vc_head c) @ vc_data c) @ vs_bytes s) @
              ''])'' @ [newline])))"

definition write_info :: "property_info \<Rightarrow> string" where
  "write_info i = fst i @ '' ('' @ snd i @ ''), ''"

definition write_child :: "string \<Rightarrow> string" where
  "write_child c = c @ '', ''"

definition write_node :: "bool \<Rightarrow> vspan node \<Rightarrow> string result" where
  "write_node hide n =
     rbind (write_version (node_version n)) (\<lambda>ver.
     rbind (write_span (if hide then vs_empty else property_data n)) (\<lambda>data.
       Inr (''TreeNode('' @ [newline] @ ''label_rule: '' @ label_rule n @ [newline] @
         write_length_string ''description'' (description n) @
         ''property_infos: [ '' @ concat (map write_info (property_infos n)) @ ''], '' @
         ''version: '' @ ver @ '', '' @
         ''child_names: [ '' @ concat (map write_child (child_names n)) @ ''], '' @
         write_length_string ''query_how_to'' (with_default '''' (query_how_to n)) @
         write_length_string ''qa_sequence'' (with_default '''' (qa_sequence n)) @
         data @ '')'' @ [newline])))"

section \<open>Reading\<close>

definition rd_maybe_word :: "string option reader" where
  "rd_maybe_word =
     rd_bind rd_skip (\<lambda>w. if w = ''Nothing'' then rd_return None
       else rd_bind (rd_word '''') (\<lambda>x. rd_return (Some x)))"

definition rd_maybe_int :: "int option reader" where
  "rd_maybe_int =
     rd_bind rd_skip (\<lambda>w. if w = ''Nothing'' then rd_return None
       else rd_bind (rd_int 10 None) (\<lambda>x. rd_return (Some x)))"

text \<open>The fields of a version, over the values a default-constructed one has.\<close>

definition rd_version :: "version reader" where
  "rd_version =
     rd_then rd_skip (rd_bind (rd_unsigned 10 16 (Some 0)) (\<lambda>n.
     rd_then rd_skip (rd_bind (rd_unsigned 10 16 (Some 256)) (\<lambda>m.
     rd_then rd_skip (rd_bind (rd_word ''default'') (\<lambda>p.
     rd_then rd_skip (rd_bind rd_maybe_word (\<lambda>ap.
     rd_then rd_skip (rd_bind rd_maybe_word (\<lambda>aut.
     rd_then rd_skip (rd_bind rd_maybe_word (\<lambda>rds.
     rd_then rd_skip (rd_bind rd_maybe_int (\<lambda>depth.
     rd_then rd_get (rd_return
       \<lparr>version_number = of_nat n, max_version_sequence = of_nat m, policy = p,
        authorial_proof = ap, authors = aut, readers = rds, collision_depth = depth\<rparr>)))))))))))))))"

definition rd_length_string :: "(string \<times> string) reader" where
  "rd_length_string =
     rd_bind rd_skip (\<lambda>label. rd_bind (rd_unsigned 10 64 None) (\<lambda>n.
     rd_then rd_skip (rd_then rd_get (rd_bind (rd_read n) (\<lambda>s.
     rd_then rd_get (rd_return (label, s)))))))"

text \<open>Two characters that are not white space, and what follows them.\<close>

fun hex_pair :: "nat \<Rightarrow> string \<Rightarrow> (string \<times> string) option" where
  "hex_pair 0 s = Some ([], s)"
| "hex_pair (Suc k) [] = None"
| "hex_pair (Suc k) (c # s) =
     (if is_space c then hex_pair (Suc k) s else map_option (\<lambda>(p, r). (c # p, r)) (hex_pair k s))"

definition rd_hex_byte :: "byte reader" where
  "rd_hex_byte s =
     (case (if is_good s then hex_pair 2 (is_rest s) else None) of
        None \<Rightarrow> Inl (Runtime_Error ''Unexpected end of stream while reading UUEncoded bytes'')
      | Some (p, r) \<Rightarrow>
          rbind (rd_int 16 None (ready p)) (\<lambda>(v, _). Inr (char_of (nat (v mod 256)), s\<lparr>is_rest := r\<rparr>)))"

fun rd_bytes :: "nat \<Rightarrow> byte list reader" where
  "rd_bytes 0 = rd_return []"
| "rd_bytes (Suc k) = rd_bind rd_hex_byte (\<lambda>b. rd_bind (rd_bytes k) (\<lambda>bs. rd_return (b # bs)))"

text \<open>A span from a byte string that starts with its header (\<open>create_from_data\<close> on contents).\<close>

definition vs_of_wire :: "byte list \<Rightarrow> vspan result" where
  "vs_of_wire data =
     (if data = [] then Inl Undefined_Behaviour
      else if data ! 0 = CHR 0x00 then Inr (vs_of_data No_Header (drop 1 data))
      else if data ! 0 = CHR 0x01 then
        Inr (vs_of_data (partial_header (Signal_Header 0 0) (take 4 data)) (drop 4 data))
      else if data ! 0 = CHR 0x02 then
        Inr (vs_of_data (partial_header (Payload_Header 0 0 0) (take 6 data)) (drop 6 data))
      else Inl (Invalid_Argument ''Unknown signal type''))"

definition rd_span :: "vspan \<Rightarrow> vspan reader" where
  "rd_span old =
     rd_then rd_skip (rd_then rd_skip (rd_bind (rd_unsigned 10 16 None) (\<lambda>_.
     rd_then rd_skip (rd_bind (rd_unsigned 10 64 None) (\<lambda>z.
     rd_then rd_skip (rd_bind (rd_unsigned 10 64 None) (\<lambda>d.
     rd_then rd_skip (rd_then rd_skip (rd_bind (rd_bytes (sz_add z d)) (\<lambda>data.
     rd_then rd_skip
       (if sz_add z d = 0 then rd_return (old\<lparr>vs_chunks := []\<rparr>)
        else (\<lambda>s. rbind (vs_of_wire data) (\<lambda>v. Inr (v, s))))))))))))))"

definition strip_comma :: "string \<Rightarrow> string" where
  "strip_comma w = (if last w = CHR '','' then butlast w else w)"

definition strip_parens :: "string \<Rightarrow> string" where
  "strip_parens w =
     (if hd w = CHR ''('' \<and> last w = CHR '')'' then take (length w - 2) (drop 1 w) else w)"

definition rd_blank :: "unit reader" where
  "rd_blank = rd_bind rd_peek (\<lambda>c. if c = Some (CHR '' '') then rd_then rd_get (rd_return ()) else rd_return ())"

text \<open>One round of the loops of \<open>operator>>\<close>: \<open>None\<close> at the closing bracket; \<open>back()\<close> and \<open>front()\<close> of
  an empty string are undefined.\<close>

definition rd_info :: "property_info option reader" where
  "rd_info =
     rd_bind rd_peek (\<lambda>c. if c = Some (CHR '']'') then rd_return None
       else rd_bind rd_skip (\<lambda>ty. rd_bind rd_skip (\<lambda>nm.
         if nm = '''' \<or> strip_comma nm = '''' \<or> ty = '''' then rd_throw Undefined_Behaviour
         else rd_bind rd_blank (\<lambda>_. rd_return (Some (strip_comma ty, strip_parens (strip_comma nm)))))))"

definition rd_child :: "string option reader" where
  "rd_child =
     rd_bind rd_peek (\<lambda>c. if c = Some (CHR '']'') then rd_return None
       else rd_bind rd_skip (\<lambda>nm.
         if nm = '''' then rd_throw Undefined_Behaviour
         else rd_bind rd_blank (\<lambda>_. rd_return (Some (strip_comma nm)))))"

text \<open>Every round of a loop takes something off the stream, so the loops end.\<close>

definition shorter :: "istr \<Rightarrow> istr \<Rightarrow> bool" where
  "shorter s' s \<longleftrightarrow> length (is_rest s') \<le> length (is_rest s)"

lemma rd_skip_shorter:
  assumes "rd_skip s = Inr (w, s')"
  shows "shorter s' s" and "w \<noteq> '''' \<Longrightarrow> length (is_rest s') < length (is_rest s)"
proof -
  have "shorter s' s \<and> (w \<noteq> '''' \<longrightarrow> length (is_rest s') < length (is_rest s))"
  proof (cases "sentry s")
    case (Pair m t)
    show ?thesis
    proof (cases m)
      case None
      then show ?thesis
        using assms Pair by (auto simp: rd_word_def sentry_def shorter_def Let_def split: if_splits)
    next
      case (Some r)
      then have r: "r = dropWhile is_space (is_rest s)" "r \<noteq> []"
        using Pair by (auto simp: sentry_def Let_def split: if_splits)
      then have "\<not> is_space (hd r)" using hd_dropWhile by blast
      then have "length (dropWhile (\<lambda>c. \<not> is_space c) r) < length r"
        using r(2) length_dropWhile_le [of "\<lambda>c. \<not> is_space c" "tl r"] by (cases r) (auto simp: le_imp_less_Suc)
      moreover have "length r \<le> length (is_rest s)" by (simp add: r length_dropWhile_le)
      ultimately show ?thesis
        using assms Pair Some by (auto simp: rd_word_def shorter_def Let_def)
    qed
  qed
  then show "shorter s' s" and "w \<noteq> '''' \<Longrightarrow> length (is_rest s') < length (is_rest s)" by blast+
qed

lemma rd_peek_shorter: "rd_peek s = Inr (c, s') \<Longrightarrow> shorter s' s"
  by (auto simp: rd_peek_def shorter_def split: if_splits list.splits)

lemma rd_blank_shorter: "rd_blank s = Inr (u, s') \<Longrightarrow> shorter s' s"
  by (auto simp: rd_blank_def rd_then_def rd_bind_def rd_return_def rd_get_def rd_peek_def shorter_def
      split: if_splits list.splits)

lemma rd_bind_Inr: "rd_bind m f s = Inr (y, s') \<longleftrightarrow> (\<exists>x s1. m s = Inr (x, s1) \<and> f x s1 = Inr (y, s'))"
  by (auto simp: rd_bind_def rbind_Inr_iff split: prod.splits)

lemma rd_child_progress:
  assumes "rd_child s = Inr (Some x, s')"
  shows "length (is_rest s') < length (is_rest s)"
proof -
  obtain c s1 nm s2 u where "rd_peek s = Inr (c, s1)" "rd_skip s1 = Inr (nm, s2)" "nm \<noteq> ''''" "rd_blank s2 = Inr (u, s')"
    using assms by (auto simp: rd_child_def rd_bind_Inr rd_return_def rd_throw_def split: if_splits)
  then show ?thesis
    using rd_peek_shorter rd_skip_shorter(2) rd_blank_shorter by (fastforce simp: shorter_def)
qed

lemma rd_info_progress:
  assumes "rd_info s = Inr (Some x, s')"
  shows "length (is_rest s') < length (is_rest s)"
proof -
  obtain c s1 ty s2 nm s3 u where "rd_peek s = Inr (c, s1)" "rd_skip s1 = Inr (ty, s2)"
      "rd_skip s2 = Inr (nm, s3)" "nm \<noteq> ''''" "rd_blank s3 = Inr (u, s')"
    using assms by (auto simp: rd_info_def rd_bind_Inr rd_return_def rd_throw_def split: if_splits)
  then show ?thesis
    using rd_peek_shorter rd_skip_shorter rd_blank_shorter by (fastforce simp: shorter_def)
qed

function rd_infos :: "property_info list reader" where
  "rd_infos s =
     (case rd_info s of
        Inl e \<Rightarrow> Inl e
      | Inr (None, s') \<Rightarrow> Inr ([], s')
      | Inr (Some i, s') \<Rightarrow> rbind (rd_infos s') (\<lambda>(is, s''). Inr (i # is, s'')))"
  by pat_completeness auto
termination rd_infos
  by (relation "measure (\<lambda>s. length (is_rest s))") (auto dest: rd_info_progress)

function rd_children :: "string list reader" where
  "rd_children s =
     (case rd_child s of
        Inl e \<Rightarrow> Inl e
      | Inr (None, s') \<Rightarrow> Inr ([], s')
      | Inr (Some c, s') \<Rightarrow> rbind (rd_children s') (\<lambda>(cs, s''). Inr (c # cs, s'')))"
  by pat_completeness auto
termination rd_children
  by (relation "measure (\<lambda>s. length (is_rest s))") (auto dest: rd_child_progress)

declare rd_infos.simps [simp del] rd_children.simps [simp del]

definition rd_named_string :: "string \<Rightarrow> string option reader" where
  "rd_named_string name =
     rd_bind rd_length_string (\<lambda>(label, s).
       if label = name then rd_return (if s = '''' then None else Some s)
       else rd_throw (Runtime_Error (''Expected '' @ [CHR 0x27] @ name @ [CHR 0x27] @ '' label, got: '' @ label)))"

text \<open>\<open>operator>>\<close> into a node whose property data is \<open>old\<close>.\<close>

definition rd_node :: "vspan \<Rightarrow> vspan node reader" where
  "rd_node old =
     rd_then rd_skip (rd_then rd_skip (rd_bind (rd_word '''') (\<lambda>lbl.
     rd_bind rd_length_string (\<lambda>desc.
     rd_then rd_skip (rd_then rd_skip (rd_then rd_get (rd_bind rd_infos (\<lambda>infos.
     rd_then rd_skip (rd_then rd_skip (rd_bind rd_version (\<lambda>ver.
     rd_then rd_skip (rd_then rd_skip (rd_then rd_skip (rd_then rd_get (rd_bind rd_children (\<lambda>cs.
     rd_then rd_skip (rd_bind (rd_named_string ''query_how_to'') (\<lambda>how.
     rd_bind (rd_named_string ''qa_sequence'') (\<lambda>qa.
     rd_bind (rd_span old) (\<lambda>data.
     rd_then rd_skip (rd_then rd_get (rd_return
       \<lparr>label_rule = lbl, description = snd desc, property_infos = infos, node_version = ver,
        child_names = cs, property_data = data, query_how_to = how, qa_sequence = qa\<rparr>))))))))))))))))))))))"

section \<open>What is written is read back\<close>

lemmas rd_simps = rd_bind_def rd_then_def rd_return_def

lemma rd_word_Cons [stream_simps]:
  "rd_word old (ready (c # s)) =
     (if is_space c then rd_word old (ready s)
      else Inr (c # takeWhile (\<lambda>c. \<not> is_space c) s, after (dropWhile (\<lambda>c. \<not> is_space c) s)))"
  by (auto simp: rd_word_def sentry_def is_good_def ready_def after_def Let_def)

text \<open>The texts a version, a node and its parts can hold.\<close>

definition version_printable :: "version \<Rightarrow> bool" where
  "version_printable v \<longleftrightarrow> word_ok (policy v) \<and>
     (\<forall>m \<in> {authorial_proof v, authors v, readers v}. \<forall>x. m = Some x \<longrightarrow> word_ok x) \<and>
     (\<forall>d. collision_depth v = Some d \<longrightarrow> - (2 ^ 31) \<le> d \<and> d < 2 ^ 31)"

lemma rd_maybe_word_text [stream_simps]:
  assumes "\<forall>x. m = Some x \<longrightarrow> word_ok x"
  shows "rd_maybe_word (ready (CHR '' '' # write_maybe id m @ CHR '' '' # r)) = Inr (m, ready (CHR '' '' # r))"
  using assms
  by (cases m) (auto simp: rd_maybe_word_def write_maybe_def rd_simps stream_simps is_space_def)

lemma rd_maybe_int_text [stream_simps]:
  assumes "\<forall>d. m = Some d \<longrightarrow> - (2 ^ 31) \<le> d \<and> d < 2 ^ 31"
  shows "rd_maybe_int (ready (CHR '' '' # write_maybe int_dec m @ CHR '' '' # r)) = Inr (m, ready (CHR '' '' # r))"
  using assms
  by (cases m) (auto simp: rd_maybe_int_def write_maybe_def rd_simps stream_simps is_space_def)

lemma u16_small: "unat (x :: u16) < 2 ^ 16"
  using unsigned_less [of x] by simp

lemma rd_version_text [stream_simps]:
  assumes "version_printable v" and "write_version v = Inr t"
  shows "rd_version (ready (CHR '' '' # t @ r)) = Inr (v, ready r)"
proof -
  have t: "t = ''Version: '' @ to_dec (unat (version_number v)) @
        '' Max_Version: '' @ to_dec (unat (max_version_sequence v)) @
        '' Policy: '' @ policy v @
        '' Authorial_Proof: '' @ write_maybe id (authorial_proof v) @
        '' Authors: '' @ write_maybe id (authors v) @
        '' Readers: '' @ write_maybe id (readers v) @
        '' Collision_Depth: '' @ write_maybe int_dec (collision_depth v) @ '' ''"
    using assms(2) by (simp add: write_version_def split: if_splits)
  have sp: "is_space (CHR '' '')" by (simp add: is_space_def)
  note u16_small [of "version_number v"] u16_small [of "max_version_sequence v"]
  then show ?thesis
    using assms(1) unfolding t version_printable_def
    by (simp add: rd_version_def rd_simps stream_simps is_space_def)
qed

lemma rd_length_string_text [stream_simps]:
  assumes "word_ok l" and "length s < 2 ^ 64" and "is_space b"
  shows "rd_length_string (ready (b # write_length_string l s @ r)) = Inr ((l, s), ready r)"
  using assms
  by (simp add: rd_length_string_def write_length_string_def rd_simps stream_simps newline_def is_space_def)

lemma rd_length_string_here [stream_simps]:
  assumes "word_ok l" and "length s < 2 ^ 64"
  shows "rd_length_string (ready (write_length_string l s @ r)) = Inr ((l, s), ready r)"
  using assms
  by (simp add: rd_length_string_def write_length_string_def rd_simps stream_simps)

lemma hex_pair_skip: "\<forall>c \<in> set b. is_space c \<Longrightarrow> hex_pair (Suc k) (b @ s) = hex_pair (Suc k) s"
  by (induction b) auto

lemma rd_int_hex:
  assumes "v < 256"
  shows "rd_int 16 None (ready (hex_fixed 2 v)) = Inr (int v, after [])"
proof -
  have w: "word_ok (hex_fixed 2 v)" by (simp add: hex_fixed_word)
  have "dropWhile is_space (hex_fixed 2 v) = hex_fixed 2 v"
    using dropWhile_word [OF w, of "[]"] by simp
  then have s: "sentry (ready (hex_fixed 2 v)) = (Some (hex_fixed 2 v), ready (hex_fixed 2 v))"
    using w by (intro sentry_ready) (simp_all add: word_ok_def)
  have "scan_number 16 (hex_fixed 2 v) = (False, hex_fixed 2 v, [])"
    using scan_blank [of "hex_fixed 2 v" 16 "[]"] hex_fixed_digits w by (simp add: word_ok_def)
  moreover have "digits_val 16 0 (hex_fixed 2 v) = v" using assms by (simp add: hex_fixed_val)
  ultimately show ?thesis
    using assms w by (simp add: rd_int_def s word_ok_def) (simp add: ready_def after_def)
qed

lemma rd_hex_byte_text:
  assumes "\<forall>c \<in> set b. is_space c"
  shows "rd_hex_byte (ready (b @ hex_fixed 2 (of_char v) @ r)) = Inr (v, ready r)"
proof -
  let ?x = "hex_digit (of_char v div 16 mod 16)" and ?y = "hex_digit (of_char v mod 16)"
  have xy: "hex_fixed 2 (of_char v) = [?x, ?y]"
    by (simp add: numeral_2_eq_2)
  have "\<not> is_space ?x" "\<not> is_space ?y"
    using hex_fixed_word [of 2 "of_char v"] unfolding xy by (simp_all add: word_ok_def)
  then have "hex_pair (Suc (Suc 0)) (b @ [?x, ?y] @ r) = Some ([?x, ?y], r)"
    using hex_pair_skip [OF assms, of "Suc 0" "?x # ?y # r"] by simp
  then have "hex_pair 2 (b @ hex_fixed 2 (of_char v) @ r) = Some (hex_fixed 2 (of_char v), r)"
    by (simp only: xy) (simp add: numeral_2_eq_2)
  moreover have "nat (int (of_char v) mod 256) = of_char v"
    using nat_of_char_less_256 [of v] by (simp add: nat_mod_distrib)
  moreover have "rd_int 16 None (ready (hex_fixed 2 (of_char v))) = Inr (int (of_char v), after [])"
    by (rule rd_int_hex) (rule nat_of_char_less_256)
  ultimately show ?thesis
    by (simp add: rd_hex_byte_def is_good_def) (simp add: ready_def)
qed

lemma rd_bytes_text:
  assumes "\<forall>c \<in> set b. is_space c"
  shows "\<exists>b'. (\<forall>c \<in> set b'. is_space c) \<and>
    rd_bytes (length bs) (ready (b @ write_hex n bs @ r)) = Inr (bs, ready (b' @ r))"
  using assms
proof (induction bs arbitrary: b n)
  case Nil
  then show ?case by (auto simp: rd_return_def)
next
  case (Cons v bs)
  let ?b = "if n mod 16 = 15 then [newline] else []"
  have "\<forall>c \<in> set ?b. is_space c" by (simp add: is_space_def newline_def)
  from Cons.IH [OF this, of "Suc n"] obtain b' where b': "\<forall>c \<in> set b'. is_space c"
      "rd_bytes (length bs) (ready (?b @ write_hex (Suc n) bs @ r)) = Inr (bs, ready (b' @ r))" by blast
  have "rd_hex_byte (ready (b @ write_hex n (v # bs) @ r)) = Inr (v, ready (?b @ write_hex (Suc n) bs @ r))"
    using rd_hex_byte_text [OF Cons.prems, of v "?b @ write_hex (Suc n) bs @ r"] by simp
  with b' show ?case
    by (intro exI [of _ b']) (simp only: list.size rd_bytes.simps rd_simps rbind_simps prod.case add_0_right add_Suc_right simp_thms)
qed

lemma rd_skip_blanks: "\<forall>c \<in> set b. is_space c \<Longrightarrow> rd_word old (ready (b @ s)) = rd_word old (ready s)"
  by (induction b) (auto simp: rd_word_Cons)

lemma two_bytes_word: "word_of_nat (unat w mod 256) + 256 * word_of_nat (unat w div 256 mod 256) = (w :: u16)"
proof -
  have "unat w div 256 < 256" using u16_small [of w] by (simp add: div_less_iff_less_mult)
  then have "unat w div 256 mod 256 = unat w div 256" by simp
  then have "of_nat (unat w mod 256 + 256 * (unat w div 256 mod 256)) = w" by simp
  then show ?thesis by simp
qed

lemma vs_of_wire_header:
  assumes "header_type h = t"
  shows "vs_of_wire (header_bytes h @ data) = Inr (vs_of_data h data)"
  by (cases h) (simp_all add: vs_of_wire_def partial_header_def header_of_bytes_def le_bytes_u16
      numeral_2_eq_2 two_bytes_word)

text \<open>The contents a span comes back with: one chunk sequence under the first chunk's header.\<close>

definition respanned :: "vspan \<Rightarrow> vspan \<Rightarrow> vspan" where
  "respanned old s = (case vs_chunks s of [] \<Rightarrow> old\<lparr>vs_chunks := []\<rparr> | c # _ \<Rightarrow> vs_of_data (vc_head c) (vs_bytes s))"

definition span_printable :: "vspan \<Rightarrow> bool" where
  "span_printable s \<longleftrightarrow> vs_size s + 6 < 2 ^ 64 \<and>
     (case vs_chunks s of [] \<Rightarrow> True | c # _ \<Rightarrow> vs_type s = header_type (vc_head c))"

lemma rd_span_text:
  assumes "span_printable s" and "write_span s = Inr t"
  shows "rd_span old (ready (t @ r)) = Inr (respanned old s, ready (newline # r))"
proof (cases "vs_chunks s")
  case Nil
  then have t: "t = ''shared_span( signal_type: 0 signal_size: 0 data_size: 0 chunk_data: ['' @ [newline] @ ''])'' @ [newline]"
    using assms(2) by (simp add: write_span_def)
  have zero: "''0'' = to_dec 0" by code_simp
  have num: "rd_unsigned 10 w old (ready (CHR '' '' # CHR ''0'' # CHR '' '' # u)) = Inr (0, ready (CHR '' '' # u))" for w old u
    using rd_unsigned_text(2) [of 0 w "CHR '' '' # u" "CHR '' ''" old] by (simp add: zero [symmetric] is_space_def)
  show ?thesis
    using Nil by (simp add: t rd_span_def respanned_def rd_simps stream_simps num newline_def is_space_def)
next
  case (Cons c cs)
  have small: "vs_size s + 6 < 2 ^ 64" using assms(1) by (simp add: span_printable_def)
  define h where "h = vc_head c"
  have ty: "vs_type s = header_type h" using assms(1) Cons by (simp add: h_def span_printable_def)
  have z: "signal_size (vs_type s) = Inr (header_size h)"
    by (cases h) (simp_all add: ty signal_size_def)
  define data k where "data = header_bytes h @ vs_bytes s" and "k = length data"
  have t: "t = ''shared_span( signal_type: '' @ to_dec (unat (vs_type s)) @
      '' signal_size: '' @ to_dec (header_size h) @ '' data_size: '' @ to_dec (vs_size s) @
      '' chunk_data: ['' @ [newline] @ write_hex 0 data @ ''])'' @ [newline]"
    using assms(2) Cons z by (simp add: write_span_def h_def data_def)
  have "unat (vs_type s) < 2 ^ 16" by (rule order_less_le_trans [OF unsigned_less]) simp
  moreover have "header_size h < 2 ^ 64" by (cases h) simp_all
  ultimately have bounds: "unat (vs_type s) < 2 ^ 16" "header_size h < 2 ^ 64" "vs_size s < 2 ^ 64"
    using small by simp_all
  have len: "sz_add (header_size h) (vs_size s) = k"
  proof -
    have "header_size h + vs_size s < 2 ^ 64" using small header_size_le [of h] by linarith
    then show ?thesis by (simp add: sz_add_small vs_size_bytes k_def data_def)
  qed
  obtain b' where b': "\<forall>c \<in> set b'. is_space c"
      "rd_bytes (length data) (ready ([newline] @ write_hex 0 data @ ''])'' @ newline # r)) =
       Inr (data, ready (b' @ ''])'' @ newline # r))"
    using rd_bytes_text [of "[newline]" data 0 "''])'' @ newline # r"] by (auto simp: is_space_def newline_def)
  have skip: "rd_skip (ready (b' @ ''])'' @ newline # r)) = Inr (''])'', ready (newline # r))"
    using rd_skip_blanks [OF b'(1)] by (simp add: stream_simps is_space_def newline_def)
  have pos: "k \<noteq> 0" by (cases h) (simp_all add: k_def data_def)
  have wire: "vs_of_wire data = Inr (vs_of_data h (vs_bytes s))"
    unfolding data_def by (rule vs_of_wire_header [OF refl])
  have bytes: "rd_bytes k (ready (newline # write_hex 0 data @ CHR '']'' # CHR '')'' # newline # r)) =
       Inr (data, ready (b' @ ''])'' @ newline # r))"
    using b'(2) by (simp add: k_def)
  show ?thesis
    using bounds pos
    by (simp add: t rd_span_def rd_simps stream_simps respanned_def len Cons h_def [symmetric] bytes
        skip [simplified] wire)
qed

lemma rd_blank_space [stream_simps]: "rd_blank (ready (CHR '' '' # s)) = Inr ((), ready s)"
  by (simp add: rd_blank_def rd_simps stream_simps)

definition info_printable :: "property_info \<Rightarrow> bool" where
  "info_printable i \<longleftrightarrow> word_ok (fst i) \<and> hd (fst i) \<noteq> CHR '']'' \<and> last (fst i) \<noteq> CHR '','' \<and> no_space (snd i)"

definition child_printable :: "string \<Rightarrow> bool" where
  "child_printable c \<longleftrightarrow> no_space c \<and> take 1 c \<noteq> '']''"

lemma rd_info_text:
  assumes "info_printable i"
  shows "rd_info (ready (write_info i @ s)) = Inr (Some i, ready s)"
proof -
  obtain ty nm where i: "i = (ty, nm)" by force
  obtain c cs where ty: "ty = c # cs" "c \<noteq> CHR '']''" "word_ok (c # cs)" "last ty \<noteq> CHR '',''"
    using assms by (cases ty) (auto simp: info_printable_def i word_ok_def)
  let ?nm = "CHR ''('' # nm @ ''),''"
  have "word_ok ?nm" using assms by (simp add: info_printable_def i word_ok_def)
  then have "rd_skip (ready (CHR '' '' # ?nm @ CHR '' '' # s)) = Inr (?nm, ready (CHR '' '' # s))"
    by (intro rd_word_blank) simp_all
  then have snd: "rd_skip (ready (CHR '' '' # CHR ''('' # nm @ CHR '')'' # CHR '','' # CHR '' '' # s)) =
      Inr (?nm, ready (CHR '' '' # s))" by simp
  have fst: "rd_skip (ready (c # cs @ CHR '' '' # u)) = Inr (c # cs, ready (CHR '' '' # u))" for u
    using rd_word_here [OF ty(3), of "CHR '' ''" "[]" u] by simp
  show ?thesis
    using ty by (simp add: i write_info_def rd_info_def rd_simps rd_peek_ready rd_blank_space fst snd
        strip_comma_def strip_parens_def butlast_append)
qed

lemma rd_infos_text [stream_simps]:
  assumes "\<forall>i \<in> set is. info_printable i"
  shows "rd_infos (ready (concat (map write_info is) @ CHR '']'' # r)) = Inr (is, ready (CHR '']'' # r))"
  using assms
proof (induction "is")
  case Nil
  then show ?case
    by (subst rd_infos.simps) (simp add: rd_info_def rd_simps stream_simps)
next
  case (Cons i "is")
  then show ?case
    by (subst rd_infos.simps) (simp add: rd_info_text)
qed

lemma rd_child_text:
  assumes "child_printable c"
  shows "rd_child (ready (write_child c @ s)) = Inr (Some c, ready s)"
proof -
  let ?w = "c @ '',''"
  have "word_ok ?w" using assms by (simp add: child_printable_def word_ok_def)
  then have w: "rd_skip (ready (?w @ CHR '' '' # s)) = Inr (?w, ready (CHR '' '' # s))"
    by (intro rd_word_here) simp_all
  obtain d ds where d: "?w @ CHR '' '' # s = d # ds" "d \<noteq> CHR '']''"
    using assms by (cases c) (auto simp: child_printable_def)
  then have "rd_peek (ready (?w @ CHR '' '' # s)) = Inr (Some d, ready (?w @ CHR '' '' # s))"
    by (simp add: rd_peek_ready)
  with d(2) w show ?thesis
    by (simp add: write_child_def rd_child_def rd_simps rd_blank_space strip_comma_def)
qed

lemma rd_children_text [stream_simps]:
  assumes "\<forall>c \<in> set cs. child_printable c"
  shows "rd_children (ready (concat (map write_child cs) @ CHR '']'' # r)) = Inr (cs, ready (CHR '']'' # r))"
  using assms
proof (induction cs)
  case Nil
  then show ?case
    by (subst rd_children.simps) (simp add: rd_child_def rd_simps stream_simps)
next
  case (Cons c cs)
  then show ?case
    by (subst rd_children.simps) (simp add: rd_child_text)
qed

text \<open>The nodes whose text can be read back.\<close>

definition node_printable :: "vspan node \<Rightarrow> bool" where
  "node_printable n \<longleftrightarrow> word_ok (label_rule n) \<and> version_printable (node_version n) \<and>
     (\<forall>i \<in> set (property_infos n). info_printable i) \<and> (\<forall>c \<in> set (child_names n). child_printable c) \<and>
     query_how_to n \<noteq> Some '''' \<and> qa_sequence n \<noteq> Some '''' \<and>
     (\<forall>s \<in> {description n, with_default '''' (query_how_to n), with_default '''' (qa_sequence n)}. length s < 2 ^ 64)"

lemma rd_named_string_text [stream_simps]:
  assumes "word_ok l" and "m \<noteq> Some ''''" and "length (with_default '''' m) < 2 ^ 64" and "is_space b"
  shows "rd_named_string l (ready (b # write_length_string l (with_default '''' m) @ r)) = Inr (m, ready r)"
  using assms
  by (cases m) (auto simp: rd_named_string_def rd_simps stream_simps with_default_def)

lemma rd_named_string_here [stream_simps]:
  assumes "word_ok l" and "m \<noteq> Some ''''" and "length (with_default '''' m) < 2 ^ 64"
  shows "rd_named_string l (ready (write_length_string l (with_default '''' m) @ r)) = Inr (m, ready r)"
  using assms
  by (cases m) (auto simp: rd_named_string_def rd_simps stream_simps with_default_def)

lemma rd_node_text:
  assumes "node_printable n" and "span_printable (if hide then vs_empty else property_data n)"
    and "write_node hide n = Inr t"
  shows "rd_node old (ready (t @ r)) =
    Inr (n\<lparr>property_data := respanned old (if hide then vs_empty else property_data n)\<rparr>, ready r)"
proof -
  obtain ver data where vd: "write_version (node_version n) = Inr ver" "write_span (if hide then vs_empty else property_data n) = Inr data"
    and t: "t = ''TreeNode('' @ [newline] @ ''label_rule: '' @ label_rule n @ [newline] @
         write_length_string ''description'' (description n) @
         ''property_infos: [ '' @ concat (map write_info (property_infos n)) @ ''], '' @
         ''version: '' @ ver @ '', '' @
         ''child_names: [ '' @ concat (map write_child (child_names n)) @ ''], '' @
         write_length_string ''query_how_to'' (with_default '''' (query_how_to n)) @
         write_length_string ''qa_sequence'' (with_default '''' (qa_sequence n)) @
         data @ '')'' @ [newline]"
    using assms(3) by (auto simp: write_node_def rbind_Inr_iff)
  have lits: "word_ok ''description''" "word_ok ''query_how_to''" "word_ok ''qa_sequence''"
    by (simp_all add: word_ok_def)
  note version = rd_version_text [OF _ vd(1)] and span = rd_span_text [OF assms(2) vd(2)]
  show ?thesis
    using assms(1) unfolding t node_printable_def
    by (simp add: rd_node_def rd_simps stream_simps version span lits del: rd_version_text)
qed


definition printed_example :: "vspan node" where
  "printed_example =
     \<lparr>label_rule = ''animals/dog'', description = ''a dog'', property_infos = [(''string'', ''sound'')],
      node_version = \<lparr>version_number = 3, max_version_sequence = 256, policy = ''default'',
        authorial_proof = None, authors = Some ''anna'', readers = None, collision_depth = Some (- 2)\<rparr>,
      child_names = [''animals/dog/puppy''], property_data = vs_of_data (Signal_Header 1 7) ''woof'',
      query_how_to = Some ''ask'', qa_sequence = None\<rparr>"


end
