(* ===== verification/Http3_Helpers.thy ===== *)
theory Http3_Helpers
  imports Tree_Streams
begin

text \<open>
  The wire form of the values the backend interface exchanges
  (\<open>common/backend_cpp/interface/http3_tree_message_helpers.cpp\<close>): a \<open>chunkList\<close> is a list of spans,
  one per transport chunk, by content. For each type there is an \<open>encode\<close>, a \<open>decode\<close> that returns the
  number of chunks it has used, and a \<open>can_decode\<close> that looks from a start position whether a value has
  arrived completely and gives the position after it. \<open>std::next\<close> past the end of a list and reading a
  byte that was never stored are undefined behaviour.
\<close>

section \<open>Single spans\<close>

type_synonym u64 = "64 word"
type_synonym chunk_list = "vspan list"

text \<open>\<open>pod_from_chunk\<close> on contents: \<open>off\<close> counts from the start of the chunk, its header included.\<close>

fun vpod :: "vchunk list \<Rightarrow> nat \<Rightarrow> nat \<Rightarrow> byte list result" where
  "vpod [] k off = (if k = 0 then Inr [] else Inl (Invalid_Argument ''Not enough chunks to copy the data type''))"
| "vpod (c # cs) k off =
     (if k = 0 then Inr []
      else
        let raw = header_bytes (vc_head c) @ vc_data c; n = min k (sz_sub (length raw) off) in
        if chunk_size < off + n then Inl Undefined_Behaviour
        else if n = k then
          (if off + n \<le> length raw then Inr (take n (drop off raw))
           else if cs = [] then Inl Out_Of_Range else Inl Undefined_Behaviour)
        else
          (case cs of
             [] \<Rightarrow> Inl Out_Of_Range
           | d # _ \<Rightarrow> rbind (vpod cs (k - n) (header_size (vc_head d))) (\<lambda>r. Inr (take n (drop off raw) @ r))))"

definition vs_at :: "vspan \<Rightarrow> nat \<Rightarrow> nat option \<Rightarrow> byte list result" where
  "vs_at s w start =
     (case start of
        None \<Rightarrow> (case vs_chunks s of [] \<Rightarrow> Inl Undefined_Behaviour
                  | c # cs \<Rightarrow> vpod (c # cs) w (header_size (vc_head c)))
      | Some off \<Rightarrow> vpod (vs_chunks s) w off)"

text \<open>\<open>get_wire_size\<close> and \<open>get_signal<payload_chunk_header>\<close> of a span whose header has arrived.\<close>

definition vs_wire_size :: "vspan \<Rightarrow> nat result" where
  "vs_wire_size s =
     (case vs_chunks s of [] \<Rightarrow> Inr 0
      | c # _ \<Rightarrow>
         if vs_type s = 0 then Inl (Invalid_Argument ''No chunk header should not exist on the wire.'')
         else if vs_type s = 1 then Inr 4
         else if vs_type s = 2 then
           (case vc_head c of Payload_Header _ _ d \<Rightarrow> Inr (6 + unat d) | _ \<Rightarrow> Inl Undefined_Behaviour)
         else Inl (Invalid_Argument ''Wire size of signal not implemented.''))"

definition vs_payload_header :: "vspan \<Rightarrow> header result" where
  "vs_payload_header s =
     (case vs_chunks s of [] \<Rightarrow> Inl (Invalid_Argument ''No signal in the shared_span'')
      | c # _ \<Rightarrow>
         if vs_type s \<noteq> 2 then Inl (Invalid_Argument ''Cannot decode signal'')
         else (case vc_head c of Payload_Header _ _ _ \<Rightarrow> Inr (vc_head c) | _ \<Rightarrow> Inl Undefined_Behaviour))"

definition list_from :: "nat \<Rightarrow> 'a list \<Rightarrow> 'a list result" where
  "list_from k xs = (if length xs < k then Inl Undefined_Behaviour else Inr (drop k xs))"

section \<open>Labels and long strings\<close>

definition payload_max :: nat where
  "payload_max = chunk_size - 6"

definition encode_label :: "u16 \<Rightarrow> u8 \<Rightarrow> string \<Rightarrow> chunk_list result" where
  "encode_label rid sig str =
     (if payload_max < length str then Inl (Invalid_Argument ''String size exceeds chunk size'')
      else Inr [vs_of_data (Payload_Header sig rid (of_nat (length str))) str])"

definition decode_label :: "chunk_list \<Rightarrow> (nat \<times> string) result" where
  "decode_label enc = (case enc of [] \<Rightarrow> Inl Undefined_Behaviour | c # _ \<Rightarrow> Inr (1, vs_bytes c))"

definition can_decode_label :: "nat \<Rightarrow> chunk_list \<Rightarrow> nat option result" where
  "can_decode_label start enc =
     (if length enc \<le> start then Inr None
      else
        let c = enc ! start in
        rbind (vs_wire_size c) (\<lambda>w.
          if w < 6 then Inl (Invalid_Argument ''Chunk size is less than header size'')
          else rbind (vs_payload_header c) (\<lambda>h.
            if vs_size c < unat (h_data_length h)
            then Inl (Invalid_Argument ''Chunk size is less than data size'')
            else Inr (Some (start + 1)))))"

text \<open>The chunks after the first one of a long string.\<close>

function long_rest :: "u16 \<Rightarrow> u8 \<Rightarrow> string \<Rightarrow> chunk_list" where
  "long_rest rid sig str =
     (if str = [] then []
      else
        let n = min payload_max (length str) in
        vs_of_data (Payload_Header sig rid (of_nat n)) (take n str) # long_rest rid sig (drop n str))"
  by pat_completeness auto
termination long_rest
  by (relation "measure (\<lambda>(rid, sig, str). length str)") (auto simp: payload_max_def chunk_size_def)

declare long_rest.simps [simp del]

definition encode_long_string :: "u16 \<Rightarrow> u8 \<Rightarrow> string \<Rightarrow> chunk_list" where
  "encode_long_string rid sig str =
     (let n = min payload_max (sz_add (length str) 8) in
      vs_of_data (Payload_Header sig rid (of_nat n)) (le_bytes 8 (length str) @ take (n - 8) str)
      # long_rest rid sig (drop (n - 8) str))"

text \<open>The \<open>int32_t\<close> of the length still to come, and how many chunks that makes.\<close>

definition to_int32 :: "int \<Rightarrow> int" where
  "to_int32 i = (i + 2 ^ 31) mod 2 ^ 32 - 2 ^ 31"

function further_chunks :: "int \<Rightarrow> nat" where
  "further_chunks off = (if 0 < off then Suc (further_chunks (off - int payload_max)) else 0)"
  by pat_completeness auto
termination further_chunks
  by (relation "measure nat") (auto simp: payload_max_def chunk_size_def)

declare further_chunks.simps [simp del]

definition can_decode_long_string :: "nat \<Rightarrow> chunk_list \<Rightarrow> nat option result" where
  "can_decode_long_string start enc =
     (if length enc \<le> start then Inr None
      else
        let c = enc ! start in
        if vs_size c < 6 then Inl (Invalid_Argument ''Chunk size is less than header size'')
        else rbind (vs_at c 8 None) (\<lambda>b.
          let expected = start + 1 +
                further_chunks (to_int32 (to_int32 (int (un_le b)) - (int payload_max - 8))) in
          if length enc < expected then Inr None else Inr (Some expected)))"

definition decode_long_string :: "chunk_list \<Rightarrow> (nat \<times> string) result" where
  "decode_long_string enc =
     rbind (can_decode_long_string 0 enc) (\<lambda>m.
       case m of
         None \<Rightarrow> Inl (Invalid_Argument ''Cannot decode long string'')
       | Some k \<Rightarrow>
           let whole = vs_concat (take k enc) in
           Inr (k, vs_bytes (vs_restrict whole 8 (vs_size whole))))"

section \<open>Nodes\<close>

definition encode_MaybeTreeNode :: "u16 \<Rightarrow> u8 \<Rightarrow> vspan node option \<Rightarrow> chunk_list result" where
  "encode_MaybeTreeNode rid sig m =
     (case m of
        None \<Rightarrow> Inr (encode_long_string rid sig ''Nothing'')
      | Some n \<Rightarrow>
          rbind (write_node True n) (\<lambda>t.
            let contents = vs_flatten (Payload_Header sig rid 0) (property_data n) in
            Inr (encode_long_string rid sig
                   (''Just '' @ t @ [newline] @ hex_fixed 16 (length contents)) @ contents)))"

text \<open>The node and the number of its content chunks out of the string.\<close>

definition rd_just_node :: "(vspan node \<times> nat) reader" where
  "rd_just_node =
     rd_then rd_skip (rd_bind (rd_node vs_empty) (\<lambda>n.
       rd_bind (rd_unsigned 16 64 None) (\<lambda>k. rd_return (n, k))))"

definition decode_MaybeTreeNode :: "chunk_list \<Rightarrow> (nat \<times> vspan node option) result" where
  "decode_MaybeTreeNode enc =
     rbind (can_decode_long_string 0 enc) (\<lambda>m.
       case m of
         None \<Rightarrow> Inl (Invalid_Argument ''Cannot decode MaybeTreeNode'')
       | Some k \<Rightarrow>
           rbind (decode_long_string enc) (\<lambda>(_, str).
             if str = ''Nothing'' then Inr (k, None)
             else rbind (rd_just_node (ready str)) (\<lambda>((n, count), _).
               let stop = sz_add k count in
               if length enc < stop \<or> stop < k then Inl Undefined_Behaviour
               else Inr (stop, Some (n\<lparr>property_data := vs_concat (take (stop - k) (drop k enc))\<rparr>)))))"

definition can_decode_MaybeTreeNode :: "nat \<Rightarrow> chunk_list \<Rightarrow> nat option result" where
  "can_decode_MaybeTreeNode start enc =
     (if length enc \<le> start then Inr None
      else if vs_size (enc ! start) < 6 then Inl (Invalid_Argument ''Chunk size is less than header size'')
      else rbind (can_decode_long_string start enc) (\<lambda>m.
        case m of
          None \<Rightarrow> Inr None
        | Some k \<Rightarrow>
            if length enc < k then Inr None
            else
              let c = enc ! (k - 1); size = vs_size c in
              if size < 16 then
                rbind (decode_long_string [c]) (\<lambda>(_, str).
                  if str = ''Nothing'' then Inr (Some k) else Inr None)
              else rbind (vs_at c 16 (Some (6 + size - 16))) (\<lambda>b.
                rbind (rd_unsigned 16 64 None (ready b)) (\<lambda>(count, _).
                  if length enc < sz_add k count then Inr None else Inr (Some (sz_add k count))))))"

section \<open>Notifications and new versions\<close>

type_synonym notification = "string \<times> vspan node option"
type_synonym sequential_notification = "u64 \<times> notification"
type_synonym new_version = "vspan new_node_version"

text \<open>The label after the number: \<open>tellg\<close> fails when the stream is not good, which gives offset 0.\<close>

definition label_after :: "string \<Rightarrow> istr \<Rightarrow> string result" where
  "label_after str s =
     (let start = (if is_good s then length str - length (is_rest s) + 1 else 0) in
      if length str < start then Inl Out_Of_Range else Inr (drop start str))"

text \<open>The node that follows the chunk of the label.\<close>

definition decode_labelled :: "(string \<Rightarrow> ('a \<times> string) result) \<Rightarrow> string \<Rightarrow> chunk_list \<Rightarrow>
    (nat \<times> 'a \<times> notification) result" where
  "decode_labelled unpack what enc =
     rbind (can_decode_long_string 0 enc) (\<lambda>m.
       case m of
         None \<Rightarrow> Inl (Invalid_Argument (''Cannot decode '' @ what))
       | Some k \<Rightarrow>
           if k \<noteq> 1 then Inl (Invalid_Argument ''Chunk count is not 1'')
           else rbind (decode_long_string enc) (\<lambda>(j, str).
             rbind (unpack str) (\<lambda>(x, lbl).
               rbind (list_from j enc) (\<lambda>tail.
                 rbind (decode_MaybeTreeNode tail) (\<lambda>(used, n).
                   if used = 0 then Inl (Invalid_Argument ''Cannot decode MaybeTreeNode'')
                   else Inr (sz_add k used, x, lbl, n))))))"

definition sequence_text :: "sequential_notification \<Rightarrow> string" where
  "sequence_text sn = to_dec (unat (fst sn)) @ '' '' @ fst (snd sn)"

definition unpack_sequence :: "string \<Rightarrow> (u64 \<times> string) result" where
  "unpack_sequence str =
     rbind (rd_unsigned 10 64 None (ready str)) (\<lambda>(n, s).
       rbind (label_after str s) (\<lambda>lbl. Inr (of_nat n, lbl)))"

definition encode_SequentialNotification :: "u16 \<Rightarrow> u8 \<Rightarrow> sequential_notification \<Rightarrow> chunk_list result" where
  "encode_SequentialNotification rid sig sn =
     rbind (encode_MaybeTreeNode rid sig (snd (snd sn))) (\<lambda>node.
       Inr (encode_long_string rid sig (sequence_text sn) @ node))"

definition decode_SequentialNotification :: "chunk_list \<Rightarrow> (nat \<times> sequential_notification) result" where
  "decode_SequentialNotification = decode_labelled unpack_sequence ''SequentialNotification''"

definition can_decode_SequentialNotification :: "nat \<Rightarrow> chunk_list \<Rightarrow> nat option result" where
  "can_decode_SequentialNotification start enc =
     (if length enc \<le> start then Inr None
      else if vs_size (enc ! start) < 6 then Inl (Invalid_Argument ''Chunk size is less than header size'')
      else rbind (can_decode_long_string start enc) (\<lambda>m.
        case m of
          None \<Rightarrow> Inr None
        | Some k \<Rightarrow> if length enc \<le> k then Inr None else can_decode_MaybeTreeNode k enc))"

definition new_version_text :: "new_version \<Rightarrow> string" where
  "new_version_text v =
     (case fst v of None \<Rightarrow> ''Nothing'' | Some n \<Rightarrow> ''Just '' @ to_dec (unat n)) @ '' '' @ fst (snd v)"

definition unpack_version :: "string \<Rightarrow> (u16 option \<times> string) result" where
  "unpack_version str =
     rbind (rd_bind rd_skip (\<lambda>w.
         if w = ''Nothing'' then rd_return None
         else rd_bind (rd_unsigned 10 16 None) (\<lambda>n. rd_return (Some (of_nat n)))) (ready str)) (\<lambda>(v, s).
       rbind (label_after str s) (\<lambda>lbl. Inr (v, lbl)))"

definition encode_NewNodeVersion :: "u16 \<Rightarrow> u8 \<Rightarrow> new_version \<Rightarrow> chunk_list result" where
  "encode_NewNodeVersion rid sig v =
     rbind (encode_MaybeTreeNode rid sig (snd (snd v))) (\<lambda>node.
       Inr (encode_long_string rid sig (new_version_text v) @ node))"

definition decode_NewNodeVersion :: "chunk_list \<Rightarrow> (nat \<times> new_version) result" where
  "decode_NewNodeVersion = decode_labelled unpack_version ''NewNodeVersion''"

definition can_decode_NewNodeVersion :: "nat \<Rightarrow> chunk_list \<Rightarrow> nat option result" where
  "can_decode_NewNodeVersion start enc =
     (if length enc \<le> start then Inr None
      else if vs_size (enc ! start) < 6 then Inl (Invalid_Argument ''Chunk size is less than header size'')
      else rbind (can_decode_label start enc) (\<lambda>m.
        case m of None \<Rightarrow> Inr None | Some k \<Rightarrow> can_decode_MaybeTreeNode k enc))"

section \<open>Vectors\<close>

text \<open>The loops of the encoders and decoders of vectors.\<close>

fun encode_all :: "('a \<Rightarrow> chunk_list result) \<Rightarrow> 'a list \<Rightarrow> chunk_list result" where
  "encode_all f [] = Inr []"
| "encode_all f (x # xs) = rbind (f x) (\<lambda>cs. rbind (encode_all f xs) (\<lambda>ds. Inr (cs @ ds)))"

fun decode_times :: "(chunk_list \<Rightarrow> (nat \<times> 'a) result) \<Rightarrow> nat \<Rightarrow> nat \<Rightarrow> chunk_list \<Rightarrow> (nat \<times> 'a list) result" where
  "decode_times dec 0 off enc = Inr (off, [])"
| "decode_times dec (Suc k) off enc =
     rbind (list_from off enc) (\<lambda>tail. rbind (dec tail) (\<lambda>(used, x).
       rbind (decode_times dec k (sz_add off used) enc) (\<lambda>(stop, xs). Inr (stop, x # xs))))"

fun can_times :: "(nat \<Rightarrow> chunk_list \<Rightarrow> nat option result) \<Rightarrow> nat \<Rightarrow> nat \<Rightarrow> chunk_list \<Rightarrow> nat option result" where
  "can_times can 0 pos enc = Inr (Some pos)"
| "can_times can (Suc k) pos enc =
     rbind (can pos enc) (\<lambda>m. case m of None \<Rightarrow> Inr None | Some pos' \<Rightarrow> can_times can k pos' enc)"

definition used_some :: "string \<Rightarrow> (chunk_list \<Rightarrow> (nat \<times> 'a) result) \<Rightarrow> chunk_list \<Rightarrow> (nat \<times> 'a) result" where
  "used_some what dec enc =
     rbind (dec enc) (\<lambda>(used, x).
       if used = 0 then Inl (Invalid_Argument (''Cannot decode '' @ what)) else Inr (used, x))"

definition read_count :: "string \<Rightarrow> nat result" where
  "read_count str = rbind (rd_unsigned 10 64 None (ready str)) (\<lambda>(n, _). Inr n)"

definition encode_VectorSequentialNotification ::
  "u16 \<Rightarrow> u8 \<Rightarrow> sequential_notification list \<Rightarrow> chunk_list result" where
  "encode_VectorSequentialNotification rid sig ns =
     rbind (encode_label rid sig (to_dec (length ns))) (\<lambda>cs.
       rbind (encode_all (encode_SequentialNotification rid sig) ns) (\<lambda>ds. Inr (cs @ ds)))"

definition decode_VectorSequentialNotification ::
  "chunk_list \<Rightarrow> (nat \<times> sequential_notification list) result" where
  "decode_VectorSequentialNotification enc =
     rbind (decode_label enc) (\<lambda>(used, str). rbind (read_count str) (\<lambda>n.
       decode_times decode_SequentialNotification n used enc))"

definition can_decode_VectorSequentialNotification :: "nat \<Rightarrow> chunk_list \<Rightarrow> nat option result" where
  "can_decode_VectorSequentialNotification start enc =
     (if length enc \<le> start then Inr None
      else rbind (can_decode_label start enc) (\<lambda>m.
        case m of
          None \<Rightarrow> Inr None
        | Some k \<Rightarrow>
            rbind (list_from (k - 1) enc) (\<lambda>tail. rbind (decode_label tail) (\<lambda>(_, str).
              rbind (read_count str) (\<lambda>n. can_times can_decode_SequentialNotification n (1 + start) enc)))))"

text \<open>The three other vectors start alike: a label with the number of elements in one chunk.\<close>

definition decode_count :: "string \<Rightarrow> chunk_list \<Rightarrow> (nat \<times> nat) result" where
  "decode_count what enc =
     rbind (can_decode_label 0 enc) (\<lambda>m.
       case m of
         None \<Rightarrow> Inl (Invalid_Argument (''Cannot decode '' @ what))
       | Some k \<Rightarrow>
           if k \<noteq> 1 then Inl (Invalid_Argument ''Chunk count is not 1'')
           else rbind (decode_label enc) (\<lambda>(used, str). rbind (read_count str) (\<lambda>n. Inr (used, n))))"

definition can_decode_count :: "string \<Rightarrow> nat \<Rightarrow> chunk_list \<Rightarrow> nat option result" where
  "can_decode_count complaint start enc =
     (if length enc \<le> start then Inr None
      else rbind (can_decode_label start enc) (\<lambda>m.
        case m of
          None \<Rightarrow> Inr None
        | Some k \<Rightarrow>
            if sz_sub k start \<noteq> 1 then Inl (Invalid_Argument complaint)
            else rbind (decode_label [enc ! start]) (\<lambda>(_, str). rbind (read_count str) (\<lambda>n. Inr (Some n)))))"

definition encode_SubTransaction :: "u16 \<Rightarrow> u8 \<Rightarrow> vspan sub_transaction \<Rightarrow> chunk_list result" where
  "encode_SubTransaction rid sig st =
     rbind (encode_label rid sig (to_dec (length (snd st)))) (\<lambda>cs.
       rbind (encode_NewNodeVersion rid sig (fst st)) (\<lambda>ds.
         rbind (encode_all (encode_NewNodeVersion rid sig) (snd st)) (\<lambda>es. Inr (cs @ ds @ es))))"

definition decode_SubTransaction :: "chunk_list \<Rightarrow> (nat \<times> vspan sub_transaction) result" where
  "decode_SubTransaction enc =
     rbind (decode_count ''SubTransaction'' enc) (\<lambda>(used, n).
       rbind (list_from used enc) (\<lambda>tail.
         rbind (used_some ''NewNodeVersion'' decode_NewNodeVersion tail) (\<lambda>(main_used, v).
           rbind (decode_times (used_some ''NewNodeVersion'' decode_NewNodeVersion) n (sz_add main_used 1) enc)
             (\<lambda>(stop, vs). Inr (stop, v, vs)))))"

definition can_decode_SubTransaction :: "nat \<Rightarrow> chunk_list \<Rightarrow> nat option result" where
  "can_decode_SubTransaction start enc =
     rbind (can_decode_count ''Chunk count for vector length is not 1'' start enc) (\<lambda>m.
       case m of
         None \<Rightarrow> Inr None
       | Some n \<Rightarrow>
           rbind (can_decode_NewNodeVersion (start + 1) enc) (\<lambda>m'.
             case m' of None \<Rightarrow> Inr None | Some pos \<Rightarrow> can_times can_decode_NewNodeVersion n pos enc))"

definition encode_Transaction :: "u16 \<Rightarrow> u8 \<Rightarrow> vspan transaction \<Rightarrow> chunk_list result" where
  "encode_Transaction rid sig t =
     rbind (encode_label rid sig (to_dec (length t))) (\<lambda>cs.
       rbind (encode_all (encode_SubTransaction rid sig) t) (\<lambda>ds. Inr (cs @ ds)))"

definition decode_Transaction :: "chunk_list \<Rightarrow> (nat \<times> vspan transaction) result" where
  "decode_Transaction enc =
     rbind (decode_count ''Transaction'' enc) (\<lambda>(used, n).
       decode_times (used_some ''SubTransaction'' decode_SubTransaction) n used enc)"

definition can_decode_Transaction :: "nat \<Rightarrow> chunk_list \<Rightarrow> nat option result" where
  "can_decode_Transaction start enc =
     rbind (can_decode_count ''Chunk count is not 1'' start enc) (\<lambda>m.
       case m of None \<Rightarrow> Inr None | Some n \<Rightarrow> can_times can_decode_SubTransaction n (start + 1) enc)"

definition encode_VectorTreeNode :: "u16 \<Rightarrow> u8 \<Rightarrow> vspan node list \<Rightarrow> chunk_list result" where
  "encode_VectorTreeNode rid sig ns =
     rbind (encode_label rid sig (to_dec (length ns))) (\<lambda>cs.
       rbind (encode_all (\<lambda>n. encode_MaybeTreeNode rid sig (Some n)) ns) (\<lambda>ds. Inr (cs @ ds)))"

definition decode_present_node :: "chunk_list \<Rightarrow> (nat \<times> vspan node) result" where
  "decode_present_node enc =
     rbind (used_some ''TreeNode'' decode_MaybeTreeNode enc) (\<lambda>(used, m).
       case m of None \<Rightarrow> Inl (Invalid_Argument ''TreeNode is nothing'') | Some n \<Rightarrow> Inr (used, n))"

definition decode_VectorTreeNode :: "chunk_list \<Rightarrow> (nat \<times> vspan node list) result" where
  "decode_VectorTreeNode enc =
     rbind (decode_count ''VectorTreeNode'' enc) (\<lambda>(used, n). decode_times decode_present_node n used enc)"

definition can_decode_VectorTreeNode :: "nat \<Rightarrow> chunk_list \<Rightarrow> nat option result" where
  "can_decode_VectorTreeNode start enc =
     rbind (can_decode_count ''Chunk count is not 1'' start enc) (\<lambda>m.
       case m of None \<Rightarrow> Inr None | Some n \<Rightarrow> can_times can_decode_MaybeTreeNode n (start + 1) enc)"

end
