(* ===== verification/Http3_Codecs.thy ===== *)
theory Http3_Codecs
  imports Http3_Helpers
begin

text \<open>
  The encoders and decoders of \<open>Http3_Helpers\<close> fit together. The locale \<open>codec\<close> states what an encoder,
  its decoder and its \<open>can_decode\<close> promise: what was encoded is decoded, wherever it stands in the
  stream and whatever follows it; \<open>can_decode\<close> finds its end; and a proper prefix of it is reported as
  not yet complete. The vectors are handled once inside the locale, and each type interprets it.
\<close>

section \<open>One span per chunk\<close>

lemma vs_of_data_single:
  assumes "length data + header_size h \<le> chunk_size"
  shows "vs_of_data h data = \<lparr>vs_chunks = [\<lparr>vc_head = h, vc_data = data\<rparr>], vs_type = header_type h\<rparr>"
  using assms by (simp add: vs_of_data_def)

lemma vs_of_data_size [simp]: "vs_size (vs_of_data h data) = length data"
  by (simp add: vs_size_bytes)

lemma vs_at_payload:
  assumes "length data + header_size h \<le> chunk_size" and "k \<le> length data"
  shows "vs_at (vs_of_data h data) k None = Inr (take k data)"
  using assms
  by (simp add: vs_of_data_single vs_at_def Let_def min_def)

lemma vs_at_last:
  assumes "length data + header_size h \<le> chunk_size" and "k \<le> length data"
  shows "vs_at (vs_of_data h data) k (Some (header_size h + length data - k)) = Inr (drop (length data - k) data)"
  using assms
  by (simp add: vs_of_data_single vs_at_def Let_def)

lemma can_decode_label_here [codec_simps]:
  assumes "length str \<le> payload_max"
  shows "can_decode_label (length pre) (pre @ vs_of_data (Payload_Header sig rid (of_nat (length str))) str # rest) =
    Inr (Some (length pre + 1))"
  using assms
  by (simp add: can_decode_label_def nth_append vs_wire_size_def vs_payload_header_def vs_of_data_single
      payload_max_def chunk_size_def unat_of_nat vs_size_def Let_def)

lemma vs_concat_chunks [simp]: "vs_chunks (vs_concat ss) = concat (map vs_chunks ss)"
  by (cases ss) (simp_all add: vs_concat_def vs_empty_def)

section \<open>Long strings\<close>

lemma further_chunks_none [simp]: "off \<le> 0 \<Longrightarrow> further_chunks off = 0"
  by (simp add: further_chunks.simps)

lemma to_int32_id [simp]: "- (2 ^ 31) \<le> i \<Longrightarrow> i < 2 ^ 31 \<Longrightarrow> to_int32 i = i"
  by (simp add: to_int32_def)

lemma long_rest_Nil [simp]: "long_rest rid sig [] = []"
  by (simp add: long_rest.simps)

lemma long_rest_length: "length (long_rest rid sig s) = further_chunks (int (length s))"
proof (induction rid sig s rule: long_rest.induct)
  case (1 rid sig s)
  show ?case
  proof (cases "s = []")
    case False
    then have "length (long_rest rid sig s) =
        Suc (further_chunks (int (length (drop (min payload_max (length s)) s))))"
      using 1 [OF False refl] by (subst long_rest.simps) (simp add: Let_def)
    also have "further_chunks (int (length (drop (min payload_max (length s)) s))) =
        further_chunks (int (length s) - int payload_max)"
      by (cases "length s \<le> payload_max") (simp_all add: of_nat_diff min_def)
    finally show ?thesis using False by (subst further_chunks.simps) simp
  qed simp
qed

lemma long_rest_bytes [simp]: "concat (map vs_bytes (long_rest rid sig s)) = s"
proof (induction rid sig s rule: long_rest.induct)
  case (1 rid sig s)
  then show ?case
    by (cases "s = []") (simp, subst long_rest.simps, simp add: Let_def)
qed

lemma long_rest_chunks:
  "c \<in> set (long_rest rid sig s) \<Longrightarrow>
     \<exists>d. c = vs_of_data (Payload_Header sig rid (of_nat (length d))) d \<and> d \<noteq> [] \<and> length d \<le> payload_max"
proof (induction rid sig s rule: long_rest.induct)
  case (1 rid sig s)
  then have s: "s \<noteq> []" by auto
  let ?n = "min payload_max (length s)"
  from "1.prems" s consider "c = vs_of_data (Payload_Header sig rid (of_nat ?n)) (take ?n s)"
    | "c \<in> set (long_rest rid sig (drop ?n s))"
    by (subst (asm) long_rest.simps) (auto simp: Let_def)
  then show ?case
  proof cases
    case 1
    then show ?thesis
      using s by (intro exI [of _ "take ?n s"]) (auto simp: payload_max_def chunk_size_def min_def)
  next
    case 2
    then show ?thesis using "1.IH" [OF s refl] by blast
  qed
qed

definition string_sendable :: "string \<Rightarrow> bool" where
  "string_sendable s \<longleftrightarrow> length s + 8 < 2 ^ 31"

definition first_part :: "string \<Rightarrow> nat" where
  "first_part s = min (payload_max - 8) (length s)"

lemma encode_long_string_eq:
  assumes "string_sendable s"
  shows "encode_long_string rid sig s =
    vs_of_data (Payload_Header sig rid (of_nat (8 + first_part s))) (le_bytes 8 (length s) @ take (first_part s) s)
      # long_rest rid sig (drop (first_part s) s)"
proof -
  have "sz_add (length s) 8 = length s + 8" using assms by (intro sz_add_small) (simp add: string_sendable_def)
  then have "min payload_max (sz_add (length s) 8) = 8 + first_part s"
    by (simp add: first_part_def payload_max_def chunk_size_def)
  then show ?thesis by (simp add: encode_long_string_def Let_def)
qed

lemma first_part_le: "first_part s + 14 \<le> chunk_size" "first_part s \<le> length s"
  by (simp_all add: first_part_def payload_max_def chunk_size_def)

lemma encode_long_string_length:
  assumes "string_sendable s"
  shows "length (encode_long_string rid sig s) = 1 + further_chunks (int (length s) - (int payload_max - 8))"
proof (cases "length s \<le> payload_max - 8")
  case True
  then show ?thesis
    using assms by (simp add: encode_long_string_eq first_part_def payload_max_def chunk_size_def)
next
  case False
  then have "int (length s - first_part s) = int (length s) - (int payload_max - 8)"
    by (simp add: first_part_def payload_max_def chunk_size_def of_nat_diff)
  then show ?thesis using assms by (simp add: encode_long_string_eq long_rest_length)
qed

lemma encode_long_string_bytes:
  assumes "string_sendable s"
  shows "concat (map vs_bytes (encode_long_string rid sig s)) = le_bytes 8 (length s) @ s"
  using assms by (simp add: encode_long_string_eq)

text \<open>What \<open>can_decode_long_string\<close> computes from the first chunk alone.\<close>

lemma can_decode_long_string_first:
  assumes "string_sendable s"
  shows "can_decode_long_string (length pre) (pre @ hd (encode_long_string rid sig s) # rest) =
    (if length pre + 1 + length rest < length pre + length (encode_long_string rid sig s) then Inr None
     else Inr (Some (length pre + length (encode_long_string rid sig s))))"
proof -
  let ?c = "hd (encode_long_string rid sig s)"
  have c: "?c = vs_of_data (Payload_Header sig rid (of_nat (8 + first_part s)))
      (le_bytes 8 (length s) @ take (first_part s) s)"
    using assms by (simp add: encode_long_string_eq)
  have size: "vs_size ?c = 8 + first_part s" using first_part_le [of s] by (simp add: c)
  have at: "vs_at ?c 8 None = Inr (le_bytes 8 (length s))"
    unfolding c using first_part_le [of s]
      vs_at_payload [of "le_bytes 8 (length s) @ take (first_part s) s"
        "Payload_Header sig rid (of_nat (8 + first_part s))" 8] by simp
  have len: "un_le (le_bytes 8 (length s)) = length s"
    using assms by (intro un_le_le_bytes_small) (simp add: string_sendable_def)
  have i32: "to_int32 (int (length s)) = int (length s)"
      "to_int32 (int (length s) - (int payload_max - 8)) = int (length s) - (int payload_max - 8)"
    using assms by (simp_all add: string_sendable_def payload_max_def chunk_size_def)
  show ?thesis
    by (simp add: can_decode_long_string_def nth_append size at len i32 Let_def
        encode_long_string_length [OF assms])
qed

lemma encode_long_string_Cons:
  "encode_long_string rid sig s = hd (encode_long_string rid sig s) # tl (encode_long_string rid sig s)"
  by (simp add: encode_long_string_def Let_def)

lemma encode_long_string_nonempty [simp]: "encode_long_string rid sig s \<noteq> []"
  by (simp add: encode_long_string_def Let_def)

lemma can_decode_long_string_here [codec_simps]:
  assumes "string_sendable s"
  shows "can_decode_long_string (length pre) (pre @ encode_long_string rid sig s @ rest) =
    Inr (Some (length pre + length (encode_long_string rid sig s)))"
proof -
  obtain c cs where e: "encode_long_string rid sig s = c # cs"
    using encode_long_string_Cons by blast
  show ?thesis
    using can_decode_long_string_first [OF assms, of pre rid sig "cs @ rest"] by (simp add: e)
qed

lemma can_decode_long_string_early:
  assumes "string_sendable s" and "k < length (encode_long_string rid sig s)"
  shows "can_decode_long_string (length pre) (pre @ take k (encode_long_string rid sig s)) = Inr None"
proof (cases k)
  case 0
  then show ?thesis by (simp add: can_decode_long_string_def)
next
  case (Suc j)
  obtain c cs where e: "encode_long_string rid sig s = c # cs"
    using encode_long_string_Cons by blast
  show ?thesis
    using can_decode_long_string_first [OF assms(1), of pre rid sig "take j cs"] assms(2) Suc
    by (simp add: e)
qed

text \<open>Every chunk of a long string fits a transport chunk and says so in its header.\<close>

definition packet :: "u16 \<Rightarrow> u8 \<Rightarrow> vspan \<Rightarrow> bool" where
  "packet rid sig c \<longleftrightarrow>
     vs_size c \<le> payload_max \<and> c = vs_of_data (Payload_Header sig rid (of_nat (vs_size c))) (vs_bytes c)"

lemma packetI: "length d \<le> payload_max \<Longrightarrow> packet rid sig (vs_of_data (Payload_Header sig rid (of_nat (length d))) d)"
  by (simp add: packet_def)

lemma encode_long_string_chunks:
  assumes "string_sendable s" and "c \<in> set (encode_long_string rid sig s)"
  shows "packet rid sig c \<and> vs_bytes c \<noteq> []"
proof -
  consider "c = vs_of_data (Payload_Header sig rid (of_nat (8 + first_part s))) (le_bytes 8 (length s) @ take (first_part s) s)"
    | "c \<in> set (long_rest rid sig (drop (first_part s) s))"
    using assms by (auto simp: encode_long_string_eq)
  then show ?thesis
  proof cases
    case 1
    then show ?thesis
      using first_part_le [of s] packetI [of "le_bytes 8 (length s) @ take (first_part s) s" rid sig]
        length_le_bytes [of 8 "length s"]
      by (auto simp: payload_max_def simp del: length_le_bytes)
  next
    case 2
    from long_rest_chunks [OF this] show ?thesis by (auto intro: packetI)
  qed
qed

lemma decode_long_string_here [codec_simps]:
  assumes "string_sendable s"
  shows "decode_long_string (encode_long_string rid sig s @ rest) =
    Inr (length (encode_long_string rid sig s), s)"
proof -
  let ?e = "encode_long_string rid sig s"
  have can: "can_decode_long_string 0 (?e @ rest) = Inr (Some (length ?e))"
    using can_decode_long_string_here [OF assms, of "[]"] by simp
  have bytes: "vs_bytes (vs_concat ?e) = le_bytes 8 (length s) @ s"
    by (simp add: vs_concat_bytes encode_long_string_bytes [OF assms])
  have nonempty: "vc_data x \<noteq> []" if x: "x \<in> set (vs_chunks (vs_concat ?e))" for x
  proof -
    obtain c where c: "c \<in> set ?e" "x \<in> set (vs_chunks c)"
      using x by auto
    have "packet rid sig c" "vs_bytes c \<noteq> []" using encode_long_string_chunks [OF assms c(1)] by auto
    then obtain h d where "c = vs_of_data h d" "d \<noteq> []" "length d + header_size h \<le> chunk_size"
      by (auto simp: packet_def payload_max_def chunk_size_def vs_size_bytes)
    then show ?thesis using c(2) by (auto simp: vs_of_data_single)
  qed
  have "8 + vs_size (vs_concat ?e) < 2 ^ 64"
    using assms by (simp add: vs_size_bytes bytes string_sendable_def)
  then have "vs_bytes (vs_restrict (vs_concat ?e) 8 (vs_size (vs_concat ?e))) = s"
    using nonempty by (subst vs_restrict_bytes) (auto simp: bytes vs_size_bytes)
  then show ?thesis
    by (simp add: decode_long_string_def can Let_def)
qed

section \<open>The end of a long string\<close>

lemma long_rest_last:
  "s \<noteq> [] \<Longrightarrow> vs_size (last (long_rest rid sig s)) = (length s - 1) mod payload_max + 1"
proof (induction rid sig s rule: long_rest.induct)
  case (1 rid sig s)
  have pos: "0 < payload_max" by (simp add: payload_max_def chunk_size_def)
  show ?case
  proof (cases "length s \<le> payload_max")
    case True
    then have "(length s - 1) mod payload_max = length s - 1"
      using "1.prems" pos by (intro mod_less) (cases s; simp)
    then show ?thesis using True "1.prems" by (subst long_rest.simps) (simp add: Let_def min_def)
  next
    case False
    then have rest: "drop (min payload_max (length s)) s \<noteq> []" by simp
    then have "long_rest rid sig (drop (min payload_max (length s)) s) \<noteq> []"
      by (subst long_rest.simps) (simp add: Let_def)
    then have "vs_size (last (long_rest rid sig s)) =
        (length (drop (min payload_max (length s)) s) - 1) mod payload_max + 1"
      using "1.IH" [OF "1.prems" refl rest] "1.prems" by (subst long_rest.simps) (simp add: Let_def)
    also have "\<dots> = (length s - 1 - payload_max) mod payload_max + 1"
      using False by (simp add: min_def diff_commute)
    also have "\<dots> = (length s - 1) mod payload_max + 1"
      using False pos by (subst le_mod_geq) auto
    finally show ?thesis .
  qed
qed

text \<open>The last chunk holds what the full ones leave over.\<close>

lemma encode_long_string_last:
  assumes "string_sendable s"
  shows "vs_size (last (encode_long_string rid sig s)) = (length s + 7) mod payload_max + 1"
proof (cases "length s \<le> payload_max - 8")
  case True
  then show ?thesis
    using assms by (simp add: encode_long_string_eq first_part_def payload_max_def chunk_size_def)
next
  case False
  then have f: "first_part s = payload_max - 8" and ne: "drop (first_part s) s \<noteq> []"
    by (simp_all add: first_part_def)
  then have "long_rest rid sig (drop (first_part s) s) \<noteq> []"
    by (subst long_rest.simps) (simp add: Let_def)
  then have "vs_size (last (encode_long_string rid sig s)) = (length s - first_part s - 1) mod payload_max + 1"
    using long_rest_last [OF ne, of rid sig] by (simp add: encode_long_string_eq [OF assms])
  also have "length s - first_part s - 1 = length s + 7 - payload_max"
    using False by (simp add: f payload_max_def chunk_size_def)
  also have "\<dots> mod payload_max = (length s + 7) mod payload_max"
    using False by (subst le_mod_geq) (auto simp: payload_max_def chunk_size_def)
  finally show ?thesis by simp
qed

lemma last_bytes:
  assumes "X @ C = Y @ H" and "length H \<le> length C"
  shows "drop (length C - length H) C = H"
proof -
  have "drop (length (X @ C) - length H) (X @ C) = drop (length C - length H) C"
    using assms(2) by simp
  moreover have "drop (length (Y @ H) - length H) (Y @ H) = H" by simp
  ultimately show ?thesis using assms(1) by simp
qed

lemma encode_long_string_tail:
  assumes "string_sendable (s @ h)" and "length h \<le> (length (s @ h) + 7) mod payload_max + 1"
    and c_def: "c = last (encode_long_string rid sig (s @ h))"
  shows "vs_at c (length h) (Some (6 + vs_size c - length h)) = Inr h"
proof -
  let ?e = "encode_long_string rid sig (s @ h)"
  have ne: "?e \<noteq> []" using encode_long_string_Cons [of rid sig "s @ h"] by auto
  then have p: "packet rid sig c" using encode_long_string_chunks [OF assms(1)] by (simp add: c_def)
  have len: "length h \<le> length (vs_bytes c)"
    using assms(2) encode_long_string_last [OF assms(1)] by (simp add: c_def vs_size_bytes)
  have "concat (map vs_bytes (butlast ?e)) @ vs_bytes c = (le_bytes 8 (length (s @ h)) @ s) @ h"
  proof -
    have e: "butlast ?e @ [c] = ?e" using ne by (simp add: c_def)
    have "concat (map vs_bytes (butlast ?e @ [c])) = le_bytes 8 (length (s @ h)) @ s @ h"
      unfolding e by (rule encode_long_string_bytes [OF assms(1)])
    then show ?thesis by simp
  qed
  then have "drop (length (vs_bytes c) - length h) (vs_bytes c) = h" using len by (rule last_bytes)
  then show ?thesis
    using vs_at_last [of "vs_bytes c" "Payload_Header sig rid (of_nat (vs_size c))" "length h"] p len
    by (auto simp: packet_def vs_size_bytes payload_max_def chunk_size_def)
qed

section \<open>What an encoder and its decoders promise\<close>

locale codec =
  fixes enc :: "'a \<Rightarrow> chunk_list result"
    and dec :: "chunk_list \<Rightarrow> (nat \<times> 'a) result"
    and can :: "nat \<Rightarrow> chunk_list \<Rightarrow> nat option result"
    and sendable :: "'a \<Rightarrow> bool"
    and received :: "'a \<Rightarrow> 'a"
  assumes encodes: "sendable x \<Longrightarrow> \<exists>cs. enc x = Inr cs \<and> cs \<noteq> []"
    and decodes: "sendable x \<Longrightarrow> enc x = Inr cs \<Longrightarrow> length (cs @ rest) < 2 ^ 64 \<Longrightarrow>
      dec (cs @ rest) = Inr (length cs, received x)"
    and complete: "sendable x \<Longrightarrow> enc x = Inr cs \<Longrightarrow> length (pre @ cs @ rest) < 2 ^ 64 \<Longrightarrow>
      can (length pre) (pre @ cs @ rest) = Inr (Some (length pre + length cs))"
    and incomplete: "sendable x \<Longrightarrow> enc x = Inr cs \<Longrightarrow> length (pre @ cs) < 2 ^ 64 \<Longrightarrow> k < length cs \<Longrightarrow>
      can (length pre) (pre @ take k cs) = Inr None"
begin

lemma all_encodes: "\<forall>x \<in> set xs. sendable x \<Longrightarrow> \<exists>cs. encode_all enc xs = Inr cs"
proof (induction xs)
  case (Cons x xs)
  then obtain cs ds where "enc x = Inr cs" "encode_all enc xs = Inr ds" using encodes by force
  then show ?case by simp
qed simp

lemma all_decodes:
  assumes "\<forall>x \<in> set xs. sendable x" and "encode_all enc xs = Inr cs" and "length (pre @ cs @ rest) < 2 ^ 64"
  shows "decode_times dec (length xs) (length pre) (pre @ cs @ rest) = Inr (length pre + length cs, map received xs)"
  using assms
proof (induction xs arbitrary: pre cs)
  case (Cons x xs)
  then obtain c d where cd: "enc x = Inr c" "encode_all enc xs = Inr d" "cs = c @ d"
    by (auto simp: rbind_Inr_iff)
  have "dec (c @ d @ rest) = Inr (length c, received x)"
    using Cons.prems cd by (intro decodes) auto
  moreover have "decode_times dec (length xs) (length (pre @ c)) ((pre @ c) @ d @ rest) =
      Inr (length (pre @ c) + length d, map received xs)"
    using Cons.prems cd by (intro Cons.IH) auto
  ultimately show ?case
    using Cons.prems(3) by (simp add: cd list_from_def)
qed (simp add: list_from_def)

lemma all_complete:
  assumes "\<forall>x \<in> set xs. sendable x" and "encode_all enc xs = Inr cs" and "length (pre @ cs @ rest) < 2 ^ 64"
  shows "can_times can (length xs) (length pre) (pre @ cs @ rest) = Inr (Some (length pre + length cs))"
  using assms
proof (induction xs arbitrary: pre cs)
  case (Cons x xs)
  then obtain c d where cd: "enc x = Inr c" "encode_all enc xs = Inr d" "cs = c @ d"
    by (auto simp: rbind_Inr_iff)
  have "can (length pre) (pre @ c @ d @ rest) = Inr (Some (length pre + length c))"
    using Cons.prems cd by (intro complete) auto
  moreover have "can_times can (length xs) (length (pre @ c)) ((pre @ c) @ d @ rest) =
      Inr (Some (length (pre @ c) + length d))"
    using Cons.prems cd by (intro Cons.IH) auto
  ultimately show ?case by (simp add: cd)
qed simp

lemma all_incomplete:
  assumes "\<forall>x \<in> set xs. sendable x" and "encode_all enc xs = Inr cs" and "length (pre @ cs) < 2 ^ 64"
    and "k < length cs"
  shows "can_times can (length xs) (length pre) (pre @ take k cs) = Inr None"
  using assms
proof (induction xs arbitrary: pre cs k)
  case (Cons x xs)
  then obtain c d where cd: "enc x = Inr c" "encode_all enc xs = Inr d" "cs = c @ d"
    by (auto simp: rbind_Inr_iff)
  show ?case
  proof (cases "k < length c")
    case True
    then have "can (length pre) (pre @ take k c) = Inr None"
      using Cons.prems cd by (intro incomplete) auto
    then show ?thesis using True by (simp add: cd)
  next
    case False
    have "can (length pre) (pre @ c @ take (k - length c) d) = Inr (Some (length pre + length c))"
      using Cons.prems cd by (intro complete) auto
    moreover have "can_times can (length xs) (length (pre @ c)) ((pre @ c) @ take (k - length c) d) = Inr None"
      using Cons.prems cd False by (intro Cons.IH) auto
    ultimately show ?thesis using False by (simp add: cd)
  qed
qed simp

lemma nonempty: "sendable x \<Longrightarrow> enc x = Inr cs \<Longrightarrow> cs \<noteq> []"
  using encodes [of x] by auto

text \<open>The check that a decoder has used at least one chunk never fails.\<close>

lemma checked: "codec enc (used_some what dec) can sendable received"
  by unfold_locales (auto simp: encodes decodes complete incomplete used_some_def dest: nonempty)

end

section \<open>Labels, strings and counts\<close>

lemma encode_label_eq:
  "length str \<le> payload_max \<Longrightarrow>
     encode_label rid sig str = Inr [vs_of_data (Payload_Header sig rid (of_nat (length str))) str]"
  by (simp add: encode_label_def)

interpretation label: codec "encode_label rid sig" decode_label can_decode_label
    "\<lambda>str. length str \<le> payload_max" id for rid sig
proof
  fix x :: string and cs pre rest k
  assume x: "length x \<le> payload_max"
  show "\<exists>cs. encode_label rid sig x = Inr cs \<and> cs \<noteq> []" using x by (simp add: encode_label_eq)
  assume "encode_label rid sig x = Inr cs"
  then have cs: "cs = [vs_of_data (Payload_Header sig rid (of_nat (length x))) x]"
    using x by (simp add: encode_label_eq)
  show "decode_label (cs @ rest) = Inr (length cs, id x)" by (simp add: cs decode_label_def)
  show "can_decode_label (length pre) (pre @ cs @ rest) = Inr (Some (length pre + length cs))"
    using can_decode_label_here [OF x, of pre sig rid rest] by (simp add: cs)
  assume "k < length cs"
  then show "can_decode_label (length pre) (pre @ take k cs) = Inr None" by (simp add: cs can_decode_label_def)
qed

interpretation long: codec "\<lambda>str. Inr (encode_long_string rid sig str)" decode_long_string
    can_decode_long_string string_sendable id for rid sig
proof
  fix x :: string and cs pre rest k
  assume x: "string_sendable x"
  show "\<exists>cs. (Inr (encode_long_string rid sig x) :: chunk_list result) = Inr cs \<and> cs \<noteq> []"
    using encode_long_string_Cons [of rid sig x] by auto
  assume "(Inr (encode_long_string rid sig x) :: chunk_list result) = Inr cs"
  then have cs: "cs = encode_long_string rid sig x" by simp
  show "decode_long_string (cs @ rest) = Inr (length cs, id x)"
    using decode_long_string_here [OF x] by (simp add: cs)
  show "can_decode_long_string (length pre) (pre @ cs @ rest) = Inr (Some (length pre + length cs))"
    using can_decode_long_string_here [OF x] by (simp add: cs)
  assume "k < length cs"
  then show "can_decode_long_string (length pre) (pre @ take k cs) = Inr None"
    using can_decode_long_string_early [OF x] by (simp add: cs)
qed

lemma length_to_dec: "n < 10 ^ Suc k \<Longrightarrow> length (to_dec n) \<le> Suc k"
proof (induction k arbitrary: n)
  case 0
  then show ?case by (subst to_dec.simps) simp
next
  case (Suc k)
  then have "n div 10 < 10 ^ Suc k" by (simp add: less_mult_imp_div_less)
  with Suc.IH [OF this] show ?case by (subst to_dec.simps) simp
qed

lemma count_fits [simp]: "n < 2 ^ 64 \<Longrightarrow> length (to_dec n) \<le> payload_max"
  using length_to_dec [of n 19] by (simp add: payload_max_def chunk_size_def)

lemma read_count_text [codec_simps]: "n < 2 ^ 64 \<Longrightarrow> read_count (to_dec n) = Inr n"
  using rd_unsigned_text(1) [of n 64 "[]"] by (simp add: read_count_def)

text \<open>The chunk with the length of a vector.\<close>

definition count_chunk :: "u16 \<Rightarrow> u8 \<Rightarrow> nat \<Rightarrow> vspan" where
  "count_chunk rid sig n = vs_of_data (Payload_Header sig rid (of_nat (length (to_dec n)))) (to_dec n)"

lemma count_codec [codec_simps]:
  assumes "n < 2 ^ 64"
  shows "encode_label rid sig (to_dec n) = Inr [count_chunk rid sig n]"
    and "decode_label (count_chunk rid sig n # rest) = Inr (1, to_dec n)"
    and "decode_count what (count_chunk rid sig n # rest) = Inr (1, n)"
    and "length pre + 1 < 2 ^ 64 \<Longrightarrow> can_decode_count msg (length pre) (pre @ count_chunk rid sig n # rest) = Inr (Some n)"
    and "can_decode_label (length pre) (pre @ count_chunk rid sig n # rest) = Inr (Some (length pre + 1))"
  using assms can_decode_label_here [of "to_dec n" _ sig rid, folded count_chunk_def]
    can_decode_label_here [of "to_dec n" "[]" sig rid, folded count_chunk_def]
    read_count_text [of n]
  by (auto simp: encode_label_eq count_chunk_def decode_label_def decode_count_def can_decode_count_def
      nth_append sz_sub_def)

lemma can_decode_count_end [codec_simps]: "can_decode_count msg (length pre) pre = Inr None"
  by (simp add: can_decode_count_def)

section \<open>Nodes\<close>

definition node_text :: "vspan node \<Rightarrow> string" where
  "node_text n = (case write_node True n of Inl _ \<Rightarrow> [] | Inr t \<Rightarrow> ''Just '' @ t @ [newline])"

definition content_count :: "vspan node \<Rightarrow> string" where
  "content_count n = hex_fixed 16 (length (vs_chunks (property_data n)))"

text \<open>
  The nodes the wire carries: printable, of a text shorter than 2 GB, whose last sixteen characters,
  the number of content chunks, are not split between two chunks.
\<close>

definition node_sendable :: "vspan node \<Rightarrow> bool" where
  "node_sendable n \<longleftrightarrow> node_printable n \<and> length (vs_chunks (property_data n)) < 2 ^ 64 \<and>
     string_sendable (node_text n @ content_count n) \<and>
     15 \<le> (length (node_text n @ content_count n) + 7) mod payload_max"

definition maybe_sendable :: "vspan node option \<Rightarrow> bool" where
  "maybe_sendable m = (case m of None \<Rightarrow> True | Some n \<Rightarrow> node_sendable n)"

definition received_node :: "u16 \<Rightarrow> u8 \<Rightarrow> vspan node \<Rightarrow> vspan node" where
  "received_node rid sig n =
     n\<lparr>property_data := vs_concat (vs_flatten (Payload_Header sig rid 0) (property_data n))\<rparr>"

lemma length_vs_flatten [simp]: "length (vs_flatten h s) = length (vs_chunks s)"
  by (simp add: vs_flatten_def)

lemma node_written:
  assumes "node_printable n"
  obtains t where "write_node True n = Inr t"
  using assms by (auto simp: write_node_def write_version_def write_span_def vs_empty_def node_printable_def
      version_printable_def word_ok_def)

lemma rd_node_blank [stream_simps]: "rd_node old (ready (CHR '' '' # s)) = rd_node old (ready s)"
  by (simp add: rd_node_def rd_then_def rd_bind_def rd_word_Cons)

lemma rd_just_node_text:
  assumes "node_sendable n"
  shows "rd_just_node (ready (node_text n @ content_count n)) =
    Inr ((n\<lparr>property_data := vs_empty\<rparr>, length (vs_chunks (property_data n))), after [])"
proof -
  have p: "node_printable n" and c: "length (vs_chunks (property_data n)) < 2 ^ 64"
    using assms by (simp_all add: node_sendable_def)
  obtain t where t: "write_node True n = Inr t" using node_written [OF p] .
  have "span_printable vs_empty" by (simp add: span_printable_def vs_empty_def vs_size_def)
  then have "rd_node vs_empty (ready (t @ newline # content_count n)) =
      Inr (n\<lparr>property_data := vs_empty\<rparr>, ready (newline # content_count n))"
    using rd_node_text [OF p _ t, of vs_empty] by (simp add: respanned_def vs_empty_def)
  moreover have "rd_unsigned 16 64 None (ready (newline # content_count n)) =
      Inr (length (vs_chunks (property_data n)), after [])"
    using rd_hex_text(2) [OF c, of "[]" newline] by (simp add: content_count_def)
  ultimately show ?thesis
    by (simp add: rd_just_node_def node_text_def t rd_simps stream_simps)
qed

lemma encode_node_eq:
  assumes "node_sendable n"
  shows "encode_MaybeTreeNode rid sig (Some n) =
    Inr (encode_long_string rid sig (node_text n @ content_count n) @
         vs_flatten (Payload_Header sig rid 0) (property_data n))"
proof -
  obtain t where t: "write_node True n = Inr t"
    using assms node_written by (auto simp: node_sendable_def)
  then show ?thesis
    by (simp add: encode_MaybeTreeNode_def node_text_def content_count_def Let_def)
qed

lemma node_text_not_Nothing: "node_sendable n \<Longrightarrow> node_text n @ content_count n \<noteq> ''Nothing''"
proof -
  assume "node_sendable n"
  then obtain t where "write_node True n = Inr t" using node_written by (auto simp: node_sendable_def)
  then have "node_text n @ content_count n = CHR ''J'' # ''ust '' @ t @ [newline] @ content_count n"
    by (simp add: node_text_def)
  then show ?thesis by (simp only: list.inject) simp
qed

lemma nothing_sendable [simp]: "string_sendable ''Nothing''"
  by (simp add: string_sendable_def)

lemma can_node_string:
  assumes "node_sendable n" and "length pre + length (encode_long_string rid sig (node_text n @ content_count n)) +
      length (vs_chunks (property_data n)) < 2 ^ 64"
  shows "can_decode_MaybeTreeNode (length pre)
      (pre @ encode_long_string rid sig (node_text n @ content_count n) @ rest) =
    (if length rest < length (vs_chunks (property_data n)) then Inr None
     else Inr (Some (length pre + length (encode_long_string rid sig (node_text n @ content_count n)) +
            length (vs_chunks (property_data n)))))"
proof -
  let ?s = "node_text n @ content_count n" and ?k = "length (vs_chunks (property_data n))"
  obtain cs c where e: "encode_long_string rid sig ?s = cs @ [c]"
    using encode_long_string_Cons by (metis append_butlast_last_id list.distinct(1))
  have s: "string_sendable ?s" "15 \<le> (length ?s + 7) mod payload_max" "?k < 2 ^ 64"
    using assms(1) by (simp_all add: node_sendable_def)
  have first: "6 \<le> vs_size ((pre @ encode_long_string rid sig ?s @ rest) ! length pre)"
    using first_part_le [of ?s] by (simp add: encode_long_string_eq [OF s(1)] nth_append)
  have last: "(pre @ (cs @ [c]) @ rest) ! (length pre + length (cs @ [c]) - 1) = c"
    by (simp add: nth_append)
  have size: "vs_size c = (length ?s + 7) mod payload_max + 1"
    using encode_long_string_last [OF s(1), of rid sig] by (simp add: e)
  have c16: "length (content_count n) = 16" by (simp add: content_count_def)
  have "vs_at c (length (content_count n)) (Some (6 + vs_size c - length (content_count n))) = Inr (content_count n)"
    by (rule encode_long_string_tail [OF s(1), where rid = rid and sig = sig]) (use s(2) c16 in \<open>simp_all add: e\<close>)
  then have "vs_at c 16 (Some (6 + vs_size c - 16)) = Inr (content_count n)" by (simp add: c16)
  moreover have "rd_unsigned 16 64 None (ready (content_count n)) = Inr (?k, after [])"
    using rd_hex_text(1) [OF s(3), of "[]" None] by (simp add: content_count_def)
  ultimately show ?thesis
    using first can_decode_long_string_here [OF s(1), of pre rid sig rest] size s(2) assms(2)
    by (simp add: can_decode_MaybeTreeNode_def e last Let_def)
qed

lemma can_nothing:
  "can_decode_MaybeTreeNode (length pre) (pre @ encode_long_string rid sig ''Nothing'' @ rest) =
     Inr (Some (length pre + 1))"
proof -
  have l: "length (encode_long_string rid sig ''Nothing'') = 1"
    by (simp add: encode_long_string_length payload_max_def chunk_size_def)
  obtain c cs where "encode_long_string rid sig ''Nothing'' = c # cs"
    using encode_long_string_Cons by blast
  with l have e: "encode_long_string rid sig ''Nothing'' = [c]" by simp
  have size: "vs_size c = 15"
    using encode_long_string_last [of "''Nothing''" rid sig] by (simp add: e payload_max_def chunk_size_def)
  have "can_decode_long_string (length pre) (pre @ [c] @ rest) = Inr (Some (length pre + 1))"
    using can_decode_long_string_here [of "''Nothing''" pre rid sig rest] by (simp add: e)
  moreover have "decode_long_string [c] = Inr (1, ''Nothing'')"
    using decode_long_string_here [of "''Nothing''" rid sig "[]"] by (simp add: e)
  ultimately show ?thesis
    by (simp add: e can_decode_MaybeTreeNode_def nth_append size)
qed

lemma decode_node_here:
  assumes n: "node_sendable n" and len: "length (encode_long_string rid sig (node_text n @ content_count n)) +
      length (vs_chunks (property_data n)) < 2 ^ 64"
  shows "decode_MaybeTreeNode (encode_long_string rid sig (node_text n @ content_count n) @
      vs_flatten (Payload_Header sig rid 0) (property_data n) @ rest) =
    Inr (length (encode_long_string rid sig (node_text n @ content_count n)) + length (vs_chunks (property_data n)),
         Some (received_node rid sig n))"
proof -
  let ?s = "node_text n @ content_count n" and ?v = "vs_flatten (Payload_Header sig rid 0) (property_data n)"
  have s: "string_sendable ?s" using n by (simp add: node_sendable_def)
  have "can_decode_long_string 0 (encode_long_string rid sig ?s @ ?v @ rest) =
      Inr (Some (length (encode_long_string rid sig ?s)))"
    using can_decode_long_string_here [OF s, of "[]"] by simp
  then show ?thesis
    using decode_long_string_here [OF s, of rid sig "?v @ rest"] rd_just_node_text [OF n]
      node_text_not_Nothing [OF n] len
    by (simp add: decode_MaybeTreeNode_def Let_def received_node_def)
qed

interpretation node: codec "encode_MaybeTreeNode rid sig" decode_MaybeTreeNode can_decode_MaybeTreeNode
    maybe_sendable "map_option (received_node rid sig)" for rid sig
proof
  fix m :: "vspan node option" and cs pre rest k
  let ?nothing = "encode_long_string rid sig ''Nothing''"
  have l: "length ?nothing = 1"
    by (simp add: encode_long_string_length payload_max_def chunk_size_def)
  assume m: "maybe_sendable m"
  show "\<exists>cs. encode_MaybeTreeNode rid sig m = Inr cs \<and> cs \<noteq> []"
  proof (cases m)
    case None
    then show ?thesis by (simp add: encode_MaybeTreeNode_def)
  next
    case (Some n)
    then show ?thesis
      using m encode_node_eq [of n rid sig] by (simp add: maybe_sendable_def)
  qed
  assume cs: "encode_MaybeTreeNode rid sig m = Inr cs"
  show "decode_MaybeTreeNode (cs @ rest) = Inr (length cs, map_option (received_node rid sig) m)"
    if len: "length (cs @ rest) < 2 ^ 64"
  proof (cases m)
    case None
    then show ?thesis
      using cs l can_decode_long_string_here [of "''Nothing''" "[]" rid sig rest]
        decode_long_string_here [of "''Nothing''" rid sig rest]
      by (auto simp: encode_MaybeTreeNode_def decode_MaybeTreeNode_def)
  next
    case (Some n)
    then have n: "node_sendable n" using m by (simp add: maybe_sendable_def)
    then show ?thesis
      using Some cs len encode_node_eq [OF n, of rid sig] decode_node_here [OF n, of rid sig rest] by auto
  qed
  show "can_decode_MaybeTreeNode (length pre) (pre @ cs @ rest) = Inr (Some (length pre + length cs))"
    if len: "length (pre @ cs @ rest) < 2 ^ 64"
  proof (cases m)
    case None
    then show ?thesis using cs l can_nothing [of pre rid sig rest] by (auto simp: encode_MaybeTreeNode_def)
  next
    case (Some n)
    then have n: "node_sendable n" using m by (simp add: maybe_sendable_def)
    then show ?thesis
      using Some cs len encode_node_eq [OF n, of rid sig]
        can_node_string [OF n, of pre rid sig "vs_flatten (Payload_Header sig rid 0) (property_data n) @ rest"]
      by auto
  qed
  show "can_decode_MaybeTreeNode (length pre) (pre @ take k cs) = Inr None"
    if len: "length (pre @ cs) < 2 ^ 64" and k: "k < length cs"
  proof (cases m)
    case None
    then have "k = 0" using k cs l by (auto simp: encode_MaybeTreeNode_def)
    then show ?thesis by (simp add: can_decode_MaybeTreeNode_def)
  next
    case (Some n)
    let ?e = "encode_long_string rid sig (node_text n @ content_count n)"
    have n: "node_sendable n" and s: "string_sendable (node_text n @ content_count n)"
      using m Some by (simp_all add: maybe_sendable_def node_sendable_def)
    have c: "cs = ?e @ vs_flatten (Payload_Header sig rid 0) (property_data n)"
      using Some cs encode_node_eq [OF n, of rid sig] by simp
    show ?thesis
    proof (cases "k < length ?e")
      case True
      then have "can_decode_long_string (length pre) (pre @ take k ?e) = Inr None"
        by (rule can_decode_long_string_early [OF s])
      moreover have "6 \<le> vs_size ((pre @ take k ?e) ! length pre)" if "k \<noteq> 0"
        using that first_part_le by (cases k) (simp_all add: encode_long_string_eq [OF s] nth_append)
      ultimately show ?thesis using True by (cases "k = 0") (simp_all add: c can_decode_MaybeTreeNode_def)
    next
      case False
      then have "take k cs = ?e @ take (k - length ?e) (vs_flatten (Payload_Header sig rid 0) (property_data n))"
        by (simp add: c)
      then show ?thesis
        using can_node_string [OF n, of pre rid sig "take (k - length ?e) (vs_flatten (Payload_Header sig rid 0) (property_data n))"]
          len k False by (simp add: c)
    qed
  qed
qed

section \<open>Notifications and new versions\<close>

definition label_fits :: "string \<Rightarrow> bool" where
  "label_fits s \<longleftrightarrow> length s + 8 \<le> payload_max"

lemma label_fits_sendable: "label_fits s \<Longrightarrow> string_sendable s"
  by (simp add: label_fits_def string_sendable_def payload_max_def chunk_size_def)

lemma label_fits_single:
  assumes "label_fits s"
  obtains c where "encode_long_string rid sig s = [c]" and "packet rid sig c" and "8 \<le> vs_size c"
proof -
  have s: "string_sendable s" using assms by (rule label_fits_sendable)
  have "length (encode_long_string rid sig s) = 1"
    using assms by (simp add: encode_long_string_length [OF s] label_fits_def)
  moreover obtain c cs where e: "encode_long_string rid sig s = c # cs" using encode_long_string_Cons by blast
  ultimately have "encode_long_string rid sig s = [c]" by simp
  moreover have "packet rid sig c" using encode_long_string_chunks [OF s, of c rid sig] e by simp
  moreover have "8 \<le> vs_size c" using e by (auto simp: encode_long_string_eq [OF s])
  ultimately show thesis using that by blast
qed

text \<open>The value a label chunk and a node are read as.\<close>

definition received_notification :: "u16 \<Rightarrow> u8 \<Rightarrow> 'k \<times> notification \<Rightarrow> 'k \<times> notification" where
  "received_notification rid sig = map_prod id (map_prod id (map_option (received_node rid sig)))"

definition labelled_sendable :: "('k \<times> notification \<Rightarrow> string) \<Rightarrow> 'k \<times> notification \<Rightarrow> bool" where
  "labelled_sendable text x \<longleftrightarrow> label_fits (text x) \<and> maybe_sendable (snd (snd x))"

lemma decode_labelled_here:
  assumes "label_fits str" and "unpack str = Inr (fst x, fst (snd x))" and "maybe_sendable (snd (snd x))"
    and "encode_MaybeTreeNode rid sig (snd (snd x)) = Inr ns"
    and "length (encode_long_string rid sig str @ ns @ rest) < 2 ^ 64"
  shows "decode_labelled unpack what (encode_long_string rid sig str @ ns @ rest) =
    Inr (1 + length ns, received_notification rid sig x)"
proof -
  have s: "string_sendable str" using assms(1) by (rule label_fits_sendable)
  obtain c where c: "encode_long_string rid sig str = [c]" using label_fits_single [OF assms(1)] .
  have "decode_MaybeTreeNode (ns @ rest) = Inr (length ns, map_option (received_node rid sig) (snd (snd x)))"
    using assms(3-5) by (intro node.decodes) (simp_all add: c)
  moreover have "ns \<noteq> []" using node.nonempty assms(3,4) by blast
  ultimately show ?thesis
    using can_decode_long_string_here [OF s, of "[]" rid sig "ns @ rest"]
      decode_long_string_here [OF s, of rid sig "ns @ rest"] assms(2,5)
    by (cases x) (simp add: decode_labelled_def c list_from_def received_notification_def)
qed

lemma labelled_codec:
  assumes unpack: "\<And>x. labelled_sendable text x \<Longrightarrow> unpack (text x) = Inr (fst x, fst (snd x))"
    and enc: "\<And>x. enc x = rbind (encode_MaybeTreeNode rid sig (snd (snd x)))
      (\<lambda>ns. Inr (encode_long_string rid sig (text x) @ ns))"
    and at: "\<And>pre s rest. label_fits s \<Longrightarrow>
      can (length pre) (pre @ encode_long_string rid sig s @ rest) =
      can_decode_MaybeTreeNode (length pre + 1) (pre @ encode_long_string rid sig s @ rest)"
    and at_end: "\<And>pre. can (length pre) pre = Inr None"
  shows "codec enc (decode_labelled unpack what) can (labelled_sendable text) (received_notification rid sig)"
proof
  fix x and cs pre rest :: chunk_list and k :: nat
  assume x: "labelled_sendable text x"
  then have fits: "label_fits (text x)" and m: "maybe_sendable (snd (snd x))" by (simp_all add: labelled_sendable_def)
  obtain c where c: "encode_long_string rid sig (text x) = [c]" using label_fits_single [OF fits] .
  obtain ns where ns: "encode_MaybeTreeNode rid sig (snd (snd x)) = Inr ns" using node.encodes [OF m] by blast
  show "\<exists>cs. enc x = Inr cs \<and> cs \<noteq> []" by (simp add: enc ns)
  assume "enc x = Inr cs"
  then have cs: "cs = c # ns" by (simp add: enc ns c)
  show "decode_labelled unpack what (cs @ rest) = Inr (length cs, received_notification rid sig x)"
    if "length (cs @ rest) < 2 ^ 64"
    using decode_labelled_here [of "text x" unpack x, OF fits unpack [OF x] m ns, of rest] that
    by (simp add: c cs)
  show "can (length pre) (pre @ cs @ rest) = Inr (Some (length pre + length cs))"
    if "length (pre @ cs @ rest) < 2 ^ 64"
    using at [OF fits, of pre "ns @ rest"] node.complete [OF m ns, of "pre @ [c]" rest] that by (simp add: c cs)
  show "can (length pre) (pre @ take k cs) = Inr None"
    if "length (pre @ cs) < 2 ^ 64" and "k < length cs"
  proof (cases k)
    case 0
    then show ?thesis by (simp add: at_end)
  next
    case (Suc j)
    then show ?thesis
      using at [OF fits, of pre "take j ns"] node.incomplete [OF m ns, of "pre @ [c]" j] that by (simp add: c cs)
  qed
qed

lemma label_after_text [codec_simps]: "label_after (t @ CHR '' '' # lbl) (ready (CHR '' '' # lbl)) = Inr lbl"
  by (simp add: label_after_def) (simp add: ready_def)

lemma unpack_sequence_text: "unpack_sequence (sequence_text sn) = Inr (fst sn, fst (snd sn))"
proof -
  have "unat (fst sn) < 2 ^ 64" by (rule order_less_le_trans [OF unsigned_less]) simp
  then show ?thesis
    by (simp add: unpack_sequence_def sequence_text_def stream_simps label_after_text)
qed

lemma unpack_version_text: "unpack_version (new_version_text v) = Inr (fst v, fst (snd v))"
proof (cases "fst v")
  case None
  then show ?thesis
    using rd_word_here [of "''Nothing''" "CHR '' ''" "[]" "fst (snd v)"] label_after_text [of "''Nothing''" "fst (snd v)"]
    by (simp add: unpack_version_def new_version_text_def rd_simps word_ok_def)
next
  case (Some n)
  let ?t = "''Just '' @ to_dec (unat n)"
  have "rd_word [] (ready (''Just'' @ CHR '' '' # to_dec (unat n) @ CHR '' '' # fst (snd v))) =
      Inr (''Just'', ready (CHR '' '' # to_dec (unat n) @ CHR '' '' # fst (snd v)))"
    by (rule rd_word_here) (simp_all add: word_ok_def)
  moreover have "rd_unsigned 10 16 None (ready (CHR '' '' # to_dec (unat n) @ CHR '' '' # fst (snd v))) =
      Inr (unat n, ready (CHR '' '' # fst (snd v)))"
    using u16_small [of n] by (simp add: stream_simps)
  ultimately show ?thesis
    using Some label_after_text [of ?t "fst (snd v)"]
    by (simp add: unpack_version_def new_version_text_def rd_simps)
qed

interpretation sequential: codec "encode_SequentialNotification rid sig" decode_SequentialNotification
    can_decode_SequentialNotification "labelled_sendable sequence_text" "received_notification rid sig" for rid sig
  unfolding decode_SequentialNotification_def
proof (rule labelled_codec)
  show "can_decode_SequentialNotification (length pre) (pre @ encode_long_string rid sig s @ rest) =
      can_decode_MaybeTreeNode (length pre + 1) (pre @ encode_long_string rid sig s @ rest)"
    if fits: "label_fits s" for pre s rest
  proof -
    obtain c where c: "encode_long_string rid sig s = [c]" "8 \<le> vs_size c" using label_fits_single [OF fits] .
    have "can_decode_long_string (length pre) (pre @ [c] @ rest) = Inr (Some (length pre + 1))"
      using can_decode_long_string_here [OF label_fits_sendable [OF fits], of pre rid sig rest] by (simp add: c)
    then show ?thesis
      using c by (simp add: can_decode_SequentialNotification_def nth_append can_decode_MaybeTreeNode_def)
  qed
qed (simp_all add: unpack_sequence_text encode_SequentialNotification_def can_decode_SequentialNotification_def)

interpretation new_version: codec "encode_NewNodeVersion rid sig" decode_NewNodeVersion
    can_decode_NewNodeVersion "labelled_sendable new_version_text" "received_notification rid sig" for rid sig
  unfolding decode_NewNodeVersion_def
proof (rule labelled_codec)
  show "can_decode_NewNodeVersion (length pre) (pre @ encode_long_string rid sig s @ rest) =
      can_decode_MaybeTreeNode (length pre + 1) (pre @ encode_long_string rid sig s @ rest)"
    if fits: "label_fits s" for pre s rest
  proof -
    obtain c where c: "encode_long_string rid sig s = [c]" "packet rid sig c" "8 \<le> vs_size c"
      using label_fits_single [OF fits] .
    have "can_decode_label (length pre) (pre @ c # rest) = Inr (Some (length pre + 1))"
      using can_decode_label_here [of "vs_bytes c" pre sig rid rest] c(2)
      by (simp add: packet_def vs_size_bytes)
    then show ?thesis using c by (simp add: can_decode_NewNodeVersion_def nth_append)
  qed
qed (simp_all add: unpack_version_text encode_NewNodeVersion_def can_decode_NewNodeVersion_def)

section \<open>Vectors\<close>

definition vector_sendable :: "('a \<Rightarrow> bool) \<Rightarrow> 'a list \<Rightarrow> bool" where
  "vector_sendable sendable xs \<longleftrightarrow> length xs < 2 ^ 64 \<and> list_all sendable xs"

context codec
begin

text \<open>A vector: the chunk with its length, then its elements.\<close>

lemma vector:
  assumes enc_v: "\<And>xs. enc_v xs = rbind (encode_label rid sig (to_dec (length xs)))
      (\<lambda>cs. rbind (encode_all enc xs) (\<lambda>ds. Inr (cs @ ds)))"
    and dec_v: "\<And>n tail. n < 2 ^ 64 \<Longrightarrow>
      dec_v (count_chunk rid sig n # tail) = decode_times dec n 1 (count_chunk rid sig n # tail)"
    and can_v: "\<And>pre n rest. n < 2 ^ 64 \<Longrightarrow> length pre + 1 < 2 ^ 64 \<Longrightarrow>
      can_v (length pre) (pre @ count_chunk rid sig n # rest) =
      can_times can n (length pre + 1) (pre @ count_chunk rid sig n # rest)"
    and can_end: "\<And>pre. can_v (length pre) pre = Inr None"
  shows "codec enc_v dec_v can_v (vector_sendable sendable) (map received)"
proof
  fix xs cs and pre rest :: chunk_list and k :: nat
  assume "vector_sendable sendable xs"
  then have xs: "length xs < 2 ^ 64" "\<forall>x \<in> set xs. sendable x" by (auto simp: vector_sendable_def list_all_iff)
  obtain ds where ds: "encode_all enc xs = Inr ds" using all_encodes [OF xs(2)] by blast
  let ?c = "count_chunk rid sig (length xs)"
  have e: "enc_v xs = Inr (?c # ds)" using xs(1) by (simp add: enc_v ds codec_simps)
  then show "\<exists>cs. enc_v xs = Inr cs \<and> cs \<noteq> []" by simp
  assume "enc_v xs = Inr cs"
  then have cs: "cs = ?c # ds" using e by simp
  show "dec_v (cs @ rest) = Inr (length cs, map received xs)" if "length (cs @ rest) < 2 ^ 64"
    using all_decodes [OF xs(2) ds, of "[?c]" rest] that xs(1) by (simp add: cs dec_v)
  show "can_v (length pre) (pre @ cs @ rest) = Inr (Some (length pre + length cs))"
    if "length (pre @ cs @ rest) < 2 ^ 64"
    using all_complete [OF xs(2) ds, of "pre @ [?c]" rest] that xs(1) by (simp add: cs can_v)
  show "can_v (length pre) (pre @ take k cs) = Inr None"
    if "length (pre @ cs) < 2 ^ 64" and "k < length cs"
  proof (cases k)
    case 0
    then show ?thesis by (simp add: can_end)
  next
    case (Suc j)
    then show ?thesis
      using all_incomplete [OF xs(2) ds, of "pre @ [?c]" j] that xs(1) by (simp add: cs can_v)
  qed
qed

end

interpretation notifications: codec "encode_VectorSequentialNotification rid sig"
    decode_VectorSequentialNotification can_decode_VectorSequentialNotification
    "vector_sendable (labelled_sendable sequence_text)" "map (received_notification rid sig)" for rid sig
proof (rule sequential.vector)
  show "can_decode_VectorSequentialNotification (length pre) (pre @ count_chunk rid sig n # rest) =
      can_times can_decode_SequentialNotification n (length pre + 1) (pre @ count_chunk rid sig n # rest)"
    if "n < 2 ^ 64" "length pre + 1 < 2 ^ 64" for pre n rest
    using that by (simp add: can_decode_VectorSequentialNotification_def codec_simps list_from_def)
qed (simp_all add: encode_VectorSequentialNotification_def decode_VectorSequentialNotification_def
      can_decode_VectorSequentialNotification_def codec_simps)

definition received_sub :: "u16 \<Rightarrow> u8 \<Rightarrow> vspan sub_transaction \<Rightarrow> vspan sub_transaction" where
  "received_sub rid sig = map_prod (received_notification rid sig) (map (received_notification rid sig))"

definition sub_sendable :: "vspan sub_transaction \<Rightarrow> bool" where
  "sub_sendable st \<longleftrightarrow> labelled_sendable new_version_text (fst st) \<and>
     vector_sendable (labelled_sendable new_version_text) (snd st)"

interpretation sub_transaction: codec "encode_SubTransaction rid sig" decode_SubTransaction
    can_decode_SubTransaction sub_sendable "received_sub rid sig" for rid sig
proof
  fix st cs and pre rest :: chunk_list and k :: nat
  assume "sub_sendable st"
  then have v: "labelled_sendable new_version_text (fst st)"
    and vs: "\<forall>v \<in> set (snd st). labelled_sendable new_version_text v" and n: "length (snd st) < 2 ^ 64"
    by (simp_all add: sub_sendable_def vector_sendable_def list_all_iff)
  let ?c = "count_chunk rid sig (length (snd st))"
  obtain ds where ds: "encode_NewNodeVersion rid sig (fst st) = Inr ds" using new_version.encodes [OF v] by blast
  obtain es where es: "encode_all (encode_NewNodeVersion rid sig) (snd st) = Inr es"
    using new_version.all_encodes [OF vs] by blast
  have e: "encode_SubTransaction rid sig st = Inr (?c # ds @ es)"
    using n by (simp add: encode_SubTransaction_def codec_simps ds es)
  then show "\<exists>cs. encode_SubTransaction rid sig st = Inr cs \<and> cs \<noteq> []" by simp
  assume "encode_SubTransaction rid sig st = Inr cs"
  then have cs: "cs = ?c # ds @ es" using e by simp
  note checked = new_version.checked [of rid sig "''NewNodeVersion''"]
  show "decode_SubTransaction (cs @ rest) = Inr (length cs, received_sub rid sig st)"
    if "length (cs @ rest) < 2 ^ 64"
    using codec.decodes [OF checked v ds, of "es @ rest"] that n
      codec.all_decodes [OF checked vs es, of "?c # ds" rest]
    by (cases st) (simp add: cs decode_SubTransaction_def codec_simps list_from_def received_sub_def)
  show "can_decode_SubTransaction (length pre) (pre @ cs @ rest) = Inr (Some (length pre + length cs))"
    if "length (pre @ cs @ rest) < 2 ^ 64"
    using new_version.complete [OF v ds, of "pre @ [?c]" "es @ rest"] that n
      new_version.all_complete [OF vs es, of "pre @ ?c # ds" rest]
    by (simp add: cs can_decode_SubTransaction_def codec_simps)
  show "can_decode_SubTransaction (length pre) (pre @ take k cs) = Inr None"
    if len: "length (pre @ cs) < 2 ^ 64" and k: "k < length cs"
  proof (cases k)
    case 0
    then show ?thesis by (simp add: can_decode_SubTransaction_def codec_simps)
  next
    case (Suc j)
    show ?thesis
    proof (cases "j < length ds")
      case True
      then show ?thesis
        using new_version.incomplete [OF v ds, of "pre @ [?c]" j] len n Suc
        by (simp add: cs can_decode_SubTransaction_def codec_simps)
    next
      case False
      then show ?thesis
        using new_version.complete [OF v ds, of "pre @ [?c]" "take (j - length ds) es"]
          new_version.all_incomplete [OF vs es, of "pre @ ?c # ds" "j - length ds"] len n Suc k
        by (simp add: cs can_decode_SubTransaction_def codec_simps)
    qed
  qed
qed

interpretation transaction: codec "encode_Transaction rid sig" decode_Transaction can_decode_Transaction
    "vector_sendable sub_sendable" "map (received_sub rid sig)" for rid sig
proof (rule codec.vector [OF sub_transaction.checked [of rid sig "''SubTransaction''"]])
qed (simp_all add: encode_Transaction_def decode_Transaction_def can_decode_Transaction_def codec_simps)

lemma present_node_codec:
  "codec (\<lambda>n. encode_MaybeTreeNode rid sig (Some n)) decode_present_node can_decode_MaybeTreeNode
     node_sendable (received_node rid sig)"
proof
  fix n cs and pre rest :: chunk_list and k :: nat
  note checked = node.checked [of rid sig "''TreeNode''"]
  assume n: "node_sendable n"
  then have m: "maybe_sendable (Some n)" by (simp add: maybe_sendable_def)
  show "\<exists>cs. encode_MaybeTreeNode rid sig (Some n) = Inr cs \<and> cs \<noteq> []" by (rule node.encodes [OF m])
  assume e: "encode_MaybeTreeNode rid sig (Some n) = Inr cs"
  show "decode_present_node (cs @ rest) = Inr (length cs, received_node rid sig n)" if "length (cs @ rest) < 2 ^ 64"
    using codec.decodes [OF checked m e that] by (simp add: decode_present_node_def)
  show "can_decode_MaybeTreeNode (length pre) (pre @ cs @ rest) = Inr (Some (length pre + length cs))"
    if "length (pre @ cs @ rest) < 2 ^ 64" by (rule node.complete [OF m e that])
  show "can_decode_MaybeTreeNode (length pre) (pre @ take k cs) = Inr None"
    if "length (pre @ cs) < 2 ^ 64" and "k < length cs" by (rule node.incomplete [OF m e that])
qed

interpretation nodes: codec "encode_VectorTreeNode rid sig" decode_VectorTreeNode can_decode_VectorTreeNode
    "vector_sendable node_sendable" "map (received_node rid sig)" for rid sig
proof (rule codec.vector [OF present_node_codec [of rid sig]])
qed (simp_all add: encode_VectorTreeNode_def decode_VectorTreeNode_def can_decode_VectorTreeNode_def codec_simps)

end
