(* ===== verification/Http3_Message.thy ===== *)
theory Http3_Message
  imports Http3_Codecs
begin

text \<open>
  A message (\<open>HTTP3TreeMessage\<close>, \<open>http3_tree_message.h\<close> and \<open>.cpp\<close>): one call of the backend interface as
  the chunks of its request and of its response. Each operation is a function on the message that gives
  the message after it and its result; the message is given also when the operation throws. The two
  mutexes guard the chunk lists during one operation, so each operation is one step.
\<close>

section \<open>State\<close>

record message =
  msg_request_id :: u16
  msg_signal :: u8
  is_initialized :: bool
  request_chunks :: chunk_list
  is_journal_request :: bool
  request_complete :: bool
  response_chunks :: chunk_list
  response_complete :: bool
  processing_finished :: bool

definition message_new :: "u16 \<Rightarrow> u8 \<Rightarrow> message" where
  "message_new rid sig = \<lparr>msg_request_id = rid, msg_signal = sig, is_initialized = False, request_chunks = [],
     is_journal_request = False, request_complete = False, response_chunks = [], response_complete = False,
     processing_finished = False\<rparr>"

type_synonym 'a msg_op = "message \<Rightarrow> message \<times> 'a result"

definition get_request_id8 :: "message \<Rightarrow> u8" where
  "get_request_id8 m = ucast (msg_request_id m)"

definition set_is_journal_request :: "bool \<Rightarrow> message \<Rightarrow> message" where
  "set_is_journal_request b m = m\<lparr>is_journal_request := b\<rparr>"

text \<open>The calls of the interface and the signals of their requests and responses.\<close>

datatype call =
    Get_Node | Upsert_Node | Delete_Node | Get_Page_Tree | Query_Nodes | Open_Transaction_Layer
  | Close_Transaction_Layers | Apply_Transaction | Get_Full_Tree | Register_Listener | Deregister_Listener
  | Notify_Listeners | Process_Notification | Get_Journal

definition calls :: "call list" where
  "calls = [Get_Node, Upsert_Node, Delete_Node, Get_Page_Tree, Query_Nodes, Open_Transaction_Layer,
     Close_Transaction_Layers, Apply_Transaction, Get_Full_Tree, Register_Listener, Deregister_Listener,
     Notify_Listeners, Process_Notification, Get_Journal]"

fun request_signal :: "call \<Rightarrow> u8" where
  "request_signal Get_Node = 0x07"
| "request_signal Upsert_Node = 0x09"
| "request_signal Delete_Node = 0x0B"
| "request_signal Get_Page_Tree = 0x0D"
| "request_signal Query_Nodes = 0x0F"
| "request_signal Open_Transaction_Layer = 0x11"
| "request_signal Close_Transaction_Layers = 0x13"
| "request_signal Apply_Transaction = 0x15"
| "request_signal Get_Full_Tree = 0x17"
| "request_signal Register_Listener = 0x19"
| "request_signal Deregister_Listener = 0x1B"
| "request_signal Notify_Listeners = 0x1D"
| "request_signal Process_Notification = 0x1F"
| "request_signal Get_Journal = 0x21"

fun response_signal :: "call \<Rightarrow> u8" where
  "response_signal Get_Node = 0x08"
| "response_signal Upsert_Node = 0x0A"
| "response_signal Delete_Node = 0x0C"
| "response_signal Get_Page_Tree = 0x0E"
| "response_signal Query_Nodes = 0x10"
| "response_signal Open_Transaction_Layer = 0x12"
| "response_signal Close_Transaction_Layers = 0x14"
| "response_signal Apply_Transaction = 0x16"
| "response_signal Get_Full_Tree = 0x18"
| "response_signal Register_Listener = 0x1A"
| "response_signal Deregister_Listener = 0x1C"
| "response_signal Notify_Listeners = 0x1E"
| "response_signal Process_Notification = 0x20"
| "response_signal Get_Journal = 0x22"

definition signal_other_chunk :: u8 where "signal_other_chunk = 0x00"
definition signal_close_stream :: u8 where "signal_close_stream = 0x01"
definition signal_heartbeat :: u8 where "signal_heartbeat = 0x02"
definition signal_placeholder :: u8 where "signal_placeholder = 0xFF"

text \<open>The call a signal belongs to, as the \<open>switch\<close>es find it.\<close>

definition call_of_request :: "u8 \<Rightarrow> call option" where
  "call_of_request s = find (\<lambda>c. request_signal c = s) calls"

definition call_of_response :: "u8 \<Rightarrow> call option" where
  "call_of_response s = find (\<lambda>c. response_signal c = s) calls"

section \<open>Headers of a span by content\<close>

definition vs_signal :: "vspan \<Rightarrow> u8 result" where
  "vs_signal s =
     (case vs_chunks s of [] \<Rightarrow> Inl (Invalid_Argument ''No signal in the shared_span'')
      | c # _ \<Rightarrow>
         if vs_type s = 0 then Inl (Invalid_Argument ''Global signal does not have a signal value'')
         else if vs_type s = 1 \<or> vs_type s = 2 then
           (case vc_head c of No_Header \<Rightarrow> Inl Undefined_Behaviour | h \<Rightarrow> Inr (h_signal h))
         else Inl (Invalid_Argument ''Unknown signal type''))"

definition vs_request_id :: "vspan \<Rightarrow> u16 result" where
  "vs_request_id s =
     (case vs_chunks s of [] \<Rightarrow> Inl (Invalid_Argument ''No request id in empty shared_span'')
      | c # _ \<Rightarrow>
         if vs_type s = 0 then Inl (Invalid_Argument ''Empty chunk header does not have request id.'')
         else if vs_type s = 1 \<or> vs_type s = 2 then
           (case vc_head c of No_Header \<Rightarrow> Inl Undefined_Behaviour | h \<Rightarrow> Inr (h_request_id h))
         else Inl (Invalid_Argument ''Could not decode request id, signal_type unknown.''))"

fun with_request_id :: "u16 \<Rightarrow> header \<Rightarrow> header" where
  "with_request_id r No_Header = No_Header"
| "with_request_id r (Signal_Header s _) = Signal_Header s r"
| "with_request_id r (Payload_Header s _ d) = Payload_Header s r d"

definition vs_set_request_id :: "u16 \<Rightarrow> vspan \<Rightarrow> vspan result" where
  "vs_set_request_id r s =
     (case vs_chunks s of [] \<Rightarrow> Inl (Invalid_Argument ''No request id in empty shared_span'')
      | c # cs \<Rightarrow>
         if vs_type s = 0 then Inl (Invalid_Argument ''Empty chunk header does not have request id.'')
         else if vs_type s = 1 \<or> vs_type s = 2 then
           Inr (s\<lparr>vs_chunks := c\<lparr>vc_head := with_request_id r (vc_head c)\<rparr> # cs\<rparr>)
         else Inl (Invalid_Argument ''Could not decode request id, signal_type unknown.''))"

section \<open>Encoding and decoding\<close>

text \<open>What the request encoders share: refuse a second request, set the signal, append the chunks.\<close>

definition begin_request :: "call \<Rightarrow> (u16 \<Rightarrow> u8 \<Rightarrow> chunk_list result) \<Rightarrow> unit msg_op" where
  "begin_request c enc m =
     (if is_initialized m then (m, Inl (Invalid_Argument ''HTTP3TreeMessage is already initialized''))
      else
        let m1 = m\<lparr>msg_signal := request_signal c\<rparr> in
        (case enc (msg_request_id m1) (msg_signal m1) of
           Inl e \<Rightarrow> (m1, Inl e)
         | Inr cs \<Rightarrow> (m1\<lparr>request_chunks := request_chunks m1 @ cs, is_initialized := True\<rparr>, Inr ())))"

definition take_request :: "(chunk_list \<Rightarrow> (nat \<times> 'a) result) \<Rightarrow> 'a msg_op" where
  "take_request dec m =
     (m, if \<not> request_complete m then Inl (Invalid_Argument ''HTTP3TreeMessage has not been fully recieved'')
         else rbind (dec (request_chunks m)) (\<lambda>(_, x). Inr x))"

definition put_response :: "call \<Rightarrow> (u16 \<Rightarrow> u8 \<Rightarrow> chunk_list result) \<Rightarrow> unit msg_op" where
  "put_response c enc m =
     (let m1 = m\<lparr>msg_signal := response_signal c\<rparr> in
      case enc (msg_request_id m1) (msg_signal m1) of
        Inl e \<Rightarrow> (m1, Inl e)
      | Inr cs \<Rightarrow> (m1\<lparr>response_chunks := response_chunks m1 @ cs, response_complete := True\<rparr>, Inr ()))"

definition take_response :: "(chunk_list \<Rightarrow> (nat \<times> 'a) result) \<Rightarrow> 'a msg_op" where
  "take_response dec m =
     (if \<not> response_complete m
      then (m, Inl (Invalid_Argument ''HTTP3TreeMessage response has not been fully recieved''))
      else
        (case dec (response_chunks m) of
           Inl e \<Rightarrow> (m, Inl e)
         | Inr (_, x) \<Rightarrow> (m\<lparr>processing_finished := True\<rparr>, Inr x)))"

definition encode_flag :: "bool \<Rightarrow> u16 \<Rightarrow> u8 \<Rightarrow> chunk_list result" where
  "encode_flag b rid sig = encode_label rid sig (if b then ''1'' else ''0'')"

definition decode_flag :: "chunk_list \<Rightarrow> (nat \<times> bool) result" where
  "decode_flag enc =
     rbind (decode_label enc) (\<lambda>(k, str). rbind (rd_bool None (ready str)) (\<lambda>(b, _). Inr (k, b)))"

definition decode_nothing :: "chunk_list \<Rightarrow> (nat \<times> unit) result" where
  "decode_nothing enc = Inr (0, ())"

definition encode_getNodeRequest :: "string \<Rightarrow> unit msg_op" where
  "encode_getNodeRequest lbl = begin_request Get_Node (\<lambda>rid sig. encode_label rid sig lbl)"

definition decode_getNodeRequest :: "string msg_op" where
  "decode_getNodeRequest = take_request decode_label"

definition encode_getNodeResponse :: "vspan node option \<Rightarrow> unit msg_op" where
  "encode_getNodeResponse n = put_response Get_Node (\<lambda>rid sig. encode_MaybeTreeNode rid sig n)"

definition decode_getNodeResponse :: "vspan node option msg_op" where
  "decode_getNodeResponse = take_response decode_MaybeTreeNode"

definition encode_upsertNodeRequest :: "vspan node list \<Rightarrow> unit msg_op" where
  "encode_upsertNodeRequest ns = begin_request Upsert_Node (\<lambda>rid sig. encode_VectorTreeNode rid sig ns)"

definition decode_upsertNodeRequest :: "vspan node list msg_op" where
  "decode_upsertNodeRequest = take_request decode_VectorTreeNode"

definition encode_upsertNodeResponse :: "bool \<Rightarrow> unit msg_op" where
  "encode_upsertNodeResponse b = put_response Upsert_Node (encode_flag b)"

definition decode_upsertNodeResponse :: "bool msg_op" where
  "decode_upsertNodeResponse = take_response decode_flag"

definition encode_deleteNodeRequest :: "string \<Rightarrow> unit msg_op" where
  "encode_deleteNodeRequest lbl = begin_request Delete_Node (\<lambda>rid sig. encode_label rid sig lbl)"

definition decode_deleteNodeRequest :: "string msg_op" where
  "decode_deleteNodeRequest = take_request decode_label"

definition encode_deleteNodeResponse :: "bool \<Rightarrow> unit msg_op" where
  "encode_deleteNodeResponse b = put_response Delete_Node (encode_flag b)"

definition decode_deleteNodeResponse :: "bool msg_op" where
  "decode_deleteNodeResponse = take_response decode_flag"

definition encode_getPageTreeRequest :: "string \<Rightarrow> unit msg_op" where
  "encode_getPageTreeRequest lbl = begin_request Get_Page_Tree (\<lambda>rid sig. encode_label rid sig lbl)"

definition decode_getPageTreeRequest :: "string msg_op" where
  "decode_getPageTreeRequest = take_request decode_label"

definition encode_getPageTreeResponse :: "vspan node list \<Rightarrow> unit msg_op" where
  "encode_getPageTreeResponse ns = put_response Get_Page_Tree (\<lambda>rid sig. encode_VectorTreeNode rid sig ns)"

definition decode_getPageTreeResponse :: "vspan node list msg_op" where
  "decode_getPageTreeResponse = take_response decode_VectorTreeNode"

definition encode_getQueryNodesRequest :: "string \<Rightarrow> unit msg_op" where
  "encode_getQueryNodesRequest lbl = begin_request Query_Nodes (\<lambda>rid sig. encode_label rid sig lbl)"

definition decode_getQueryNodesRequest :: "string msg_op" where
  "decode_getQueryNodesRequest = take_request decode_label"

definition encode_getQueryNodesResponse :: "vspan node list \<Rightarrow> unit msg_op" where
  "encode_getQueryNodesResponse ns = put_response Query_Nodes (\<lambda>rid sig. encode_VectorTreeNode rid sig ns)"

definition decode_getQueryNodesResponse :: "vspan node list msg_op" where
  "decode_getQueryNodesResponse = take_response decode_VectorTreeNode"

definition encode_openTransactionLayerRequest :: "vspan node \<Rightarrow> unit msg_op" where
  "encode_openTransactionLayerRequest n =
     begin_request Open_Transaction_Layer (\<lambda>rid sig. encode_MaybeTreeNode rid sig (Some n))"

definition decode_openTransactionLayerRequest :: "vspan node msg_op" where
  "decode_openTransactionLayerRequest = take_request (\<lambda>enc.
     rbind (decode_MaybeTreeNode enc) (\<lambda>(k, m). case m of
       None \<Rightarrow> Inl (Invalid_Argument ''TreeNode is nothing'') | Some n \<Rightarrow> Inr (k, n)))"

definition encode_openTransactionLayerResponse :: "bool \<Rightarrow> unit msg_op" where
  "encode_openTransactionLayerResponse b = put_response Open_Transaction_Layer (encode_flag b)"

definition decode_openTransactionLayerResponse :: "bool msg_op" where
  "decode_openTransactionLayerResponse = take_response decode_flag"

definition encode_closeTransactionLayersRequest :: "unit msg_op" where
  "encode_closeTransactionLayersRequest = begin_request Close_Transaction_Layers (\<lambda>rid sig. encode_label rid sig '''')"

definition decode_closeTransactionLayersRequest :: "unit msg_op" where
  "decode_closeTransactionLayersRequest m = (m\<lparr>request_complete := True\<rparr>, Inr ())"

definition encode_closeTransactionLayersResponse :: "bool \<Rightarrow> unit msg_op" where
  "encode_closeTransactionLayersResponse b = put_response Close_Transaction_Layers (encode_flag b)"

definition decode_closeTransactionLayersResponse :: "bool msg_op" where
  "decode_closeTransactionLayersResponse = take_response decode_flag"

definition encode_applyTransactionRequest :: "vspan transaction \<Rightarrow> unit msg_op" where
  "encode_applyTransactionRequest t =
     begin_request Apply_Transaction (\<lambda>rid sig. encode_Transaction rid sig t)"

definition decode_applyTransactionRequest :: "vspan transaction msg_op" where
  "decode_applyTransactionRequest = take_request decode_Transaction"

definition encode_applyTransactionResponse :: "bool \<Rightarrow> unit msg_op" where
  "encode_applyTransactionResponse b = put_response Apply_Transaction (encode_flag b)"

definition decode_applyTransactionResponse :: "bool msg_op" where
  "decode_applyTransactionResponse = take_response decode_flag"

definition encode_getFullTreeRequest :: "unit msg_op" where
  "encode_getFullTreeRequest = begin_request Get_Full_Tree (\<lambda>rid sig. encode_label rid sig '''')"

definition decode_getFullTreeRequest :: "unit msg_op" where
  "decode_getFullTreeRequest m = (m\<lparr>request_complete := True\<rparr>, Inr ())"

definition encode_getFullTreeResponse :: "vspan node list \<Rightarrow> unit msg_op" where
  "encode_getFullTreeResponse ns = put_response Get_Full_Tree (\<lambda>rid sig. encode_VectorTreeNode rid sig ns)"

definition decode_getFullTreeResponse :: "vspan node list msg_op" where
  "decode_getFullTreeResponse = take_response decode_VectorTreeNode"

text \<open>A word before the next separator, empty when the separator comes first.\<close>

definition rd_field :: "string reader" where
  "rd_field =
     rd_bind rd_peek (\<lambda>c.
       if c \<noteq> None \<and> is_space (the c) then rd_return '''' else rd_word '''')"

definition decode_text :: "'a reader \<Rightarrow> chunk_list \<Rightarrow> (nat \<times> 'a) result" where
  "decode_text rd enc =
     rbind (decode_label enc) (\<lambda>(k, str). rbind (rd (ready str)) (\<lambda>(x, _). Inr (k, x)))"

definition rd_listener :: "(string \<times> string \<times> bool) reader" where
  "rd_listener =
     rd_bind rd_field (\<lambda>nm. rd_then rd_get (rd_bind rd_field (\<lambda>lbl. rd_then rd_get
       (rd_bind (rd_bool None) (\<lambda>b. rd_return (nm, lbl, b))))))"

definition rd_unlisten :: "(string \<times> string) reader" where
  "rd_unlisten =
     rd_bind rd_field (\<lambda>nm. rd_then rd_get (rd_bind (rd_word '''') (\<lambda>lbl. rd_return (nm, lbl))))"

definition encode_registerNodeListenerRequest :: "string \<Rightarrow> string \<Rightarrow> bool \<Rightarrow> unit msg_op" where
  "encode_registerNodeListenerRequest nm lbl child = begin_request Register_Listener (\<lambda>rid sig.
     encode_label rid sig (nm @ '' '' @ lbl @ '' '' @ (if child then ''1'' else ''0'')))"

definition decode_registerNodeListenerRequest :: "(string \<times> string \<times> bool) msg_op" where
  "decode_registerNodeListenerRequest = take_request (decode_text rd_listener)"

definition encode_registerNodeListenerResponse :: "bool \<Rightarrow> unit msg_op" where
  "encode_registerNodeListenerResponse b = put_response Register_Listener (encode_flag b)"

definition decode_registerNodeListenerResponse :: "bool msg_op" where
  "decode_registerNodeListenerResponse = take_response decode_flag"

definition encode_deregisterNodeListenerRequest :: "string \<Rightarrow> string \<Rightarrow> unit msg_op" where
  "encode_deregisterNodeListenerRequest nm lbl =
     begin_request Deregister_Listener (\<lambda>rid sig. encode_label rid sig (nm @ '' '' @ lbl))"

definition decode_deregisterNodeListenerRequest :: "(string \<times> string) msg_op" where
  "decode_deregisterNodeListenerRequest = take_request (decode_text rd_unlisten)"

definition encode_deregisterNodeListenerResponse :: "bool \<Rightarrow> unit msg_op" where
  "encode_deregisterNodeListenerResponse b = put_response Deregister_Listener (encode_flag b)"

definition decode_deregisterNodeListenerResponse :: "bool msg_op" where
  "decode_deregisterNodeListenerResponse = take_response decode_flag"

definition encode_notifyListenersRequest :: "string \<Rightarrow> vspan node option \<Rightarrow> unit msg_op" where
  "encode_notifyListenersRequest lbl n = begin_request Notify_Listeners (\<lambda>rid sig.
     rbind (encode_label rid sig lbl) (\<lambda>cs. rbind (encode_MaybeTreeNode rid sig n) (\<lambda>ds. Inr (cs @ ds))))"

definition decode_notifyListenersRequest :: "(string \<times> vspan node option) msg_op" where
  "decode_notifyListenersRequest = take_request (\<lambda>enc.
     rbind (decode_text (rd_word '''') enc) (\<lambda>(k, lbl). rbind (list_from k enc) (\<lambda>tail.
       rbind (used_some ''TreeNode'' decode_MaybeTreeNode tail) (\<lambda>(_, n). Inr (k, lbl, n)))))"

definition encode_notifyListenersResponse :: "bool \<Rightarrow> unit msg_op" where
  "encode_notifyListenersResponse b = put_response Notify_Listeners (encode_flag b)"

definition decode_notifyListenersResponse :: "bool msg_op" where
  "decode_notifyListenersResponse = take_response decode_flag"

definition encode_processNotificationRequest :: "unit msg_op" where
  "encode_processNotificationRequest = begin_request Process_Notification (\<lambda>rid sig. encode_label rid sig '''')"

definition decode_processNotificationRequest :: "unit msg_op" where
  "decode_processNotificationRequest = take_request decode_nothing"

definition encode_processNotificationResponse :: "unit msg_op" where
  "encode_processNotificationResponse = put_response Process_Notification (\<lambda>rid sig. encode_label rid sig '''')"

definition decode_processNotificationResponse :: "unit msg_op" where
  "decode_processNotificationResponse = take_response decode_nothing"

text \<open>The journal operations also mark the message as a journal request, once they succeed.\<close>

definition marking_journal :: "'a msg_op \<Rightarrow> 'a msg_op" where
  "marking_journal f m =
     (case f m of (m1, Inl e) \<Rightarrow> (m1, Inl e) | (m1, Inr x) \<Rightarrow> (m1\<lparr>is_journal_request := True\<rparr>, Inr x))"

definition encode_getJournalRequest :: "sequential_notification \<Rightarrow> unit msg_op" where
  "encode_getJournalRequest sn = marking_journal (begin_request Get_Journal (\<lambda>rid sig.
     encode_SequentialNotification rid sig (fst sn, '''', None)))"

definition decode_getJournalRequest :: "sequential_notification msg_op" where
  "decode_getJournalRequest =
     marking_journal (take_request (used_some ''SequentialNotification'' decode_SequentialNotification))"

definition encode_getJournalResponse :: "sequential_notification list \<Rightarrow> unit msg_op" where
  "encode_getJournalResponse ns =
     marking_journal (put_response Get_Journal (\<lambda>rid sig. encode_VectorSequentialNotification rid sig ns))"

definition decode_getJournalResponse :: "sequential_notification list msg_op" where
  "decode_getJournalResponse = marking_journal (take_response decode_VectorSequentialNotification)"

section \<open>Chunks in and out\<close>

text \<open>The chunk of a static request is allocated, not written: \<open>fresh\<close> is what its memory holds.\<close>

definition setup_staticNodeDataRequest :: "byte list \<Rightarrow> unit msg_op" where
  "setup_staticNodeDataRequest fresh m =
     (if is_initialized m then (m, Inl (Invalid_Argument ''HTTP3TreeMessage is already initialized''))
      else (m\<lparr>msg_signal := signal_other_chunk, is_initialized := True,
              request_chunks := request_chunks m @
                [\<lparr>vs_chunks = [\<lparr>vc_head = Payload_Header signal_placeholder 0 0, vc_data = fresh\<rparr>], vs_type = 2\<rparr>]\<rparr>,
            Inr ()))"

fun restamp :: "u16 \<Rightarrow> chunk_list \<Rightarrow> chunk_list \<times> unit result" where
  "restamp r [] = ([], Inr ())"
| "restamp r (c # cs) =
     (if vs_type c = 2 then
        (case vs_set_request_id r c of
           Inl e \<Rightarrow> (c # cs, Inl e)
         | Inr c' \<Rightarrow> (case restamp r cs of (ds, res) \<Rightarrow> (c' # ds, res)))
      else (case restamp r cs of (ds, res) \<Rightarrow> (c # ds, res)))"

definition setRequestId :: "u16 \<Rightarrow> unit msg_op" where
  "setRequestId r m =
     (let m1 = m\<lparr>msg_request_id := r\<rparr> in
      case restamp r (request_chunks m1) of
        (cs, Inl e) \<Rightarrow> (m1\<lparr>request_chunks := cs\<rparr>, Inl e)
      | (cs, Inr _) \<Rightarrow> (m1\<lparr>request_chunks := cs, request_complete := True\<rparr>, Inr ()))"

definition popRequestChunk :: "message \<Rightarrow> message \<times> vspan option" where
  "popRequestChunk m =
     (case request_chunks m of [] \<Rightarrow> (m, None) | c # cs \<Rightarrow> (m\<lparr>request_chunks := cs\<rparr>, Some c))"

fun request_ready :: "call \<Rightarrow> chunk_list \<Rightarrow> nat option result" where
  "request_ready Get_Node cs = can_decode_label 0 cs"
| "request_ready Upsert_Node cs = can_decode_VectorTreeNode 0 cs"
| "request_ready Delete_Node cs = can_decode_label 0 cs"
| "request_ready Get_Page_Tree cs = can_decode_label 0 cs"
| "request_ready Query_Nodes cs = can_decode_label 0 cs"
| "request_ready Open_Transaction_Layer cs = can_decode_MaybeTreeNode 0 cs"
| "request_ready Close_Transaction_Layers cs = can_decode_label 0 cs"
| "request_ready Apply_Transaction cs = can_decode_Transaction 0 cs"
| "request_ready Get_Full_Tree cs = can_decode_label 0 cs"
| "request_ready Register_Listener cs = can_decode_label 0 cs"
| "request_ready Deregister_Listener cs = can_decode_label 0 cs"
| "request_ready Notify_Listeners cs =
     rbind (can_decode_label 0 cs) (\<lambda>k. can_decode_MaybeTreeNode (with_default 0 k) cs)"
| "request_ready Process_Notification cs = can_decode_label 0 cs"
| "request_ready Get_Journal cs = can_decode_SequentialNotification 0 cs"

definition pushRequestChunk :: "vspan \<Rightarrow> unit msg_op" where
  "pushRequestChunk c m =
     (case vs_signal c of
        Inl e \<Rightarrow> (m, Inl e)
      | Inr sig \<Rightarrow>
          let m1 = m\<lparr>request_chunks := request_chunks m @ [c]\<rparr> in
          (case (if length (request_chunks m1) = 1
                 then rbind (vs_request_id c) (\<lambda>r. Inr (m1\<lparr>msg_request_id := r, is_initialized := True\<rparr>))
                 else Inr m1) of
             Inl e \<Rightarrow> (m1, Inl e)
           | Inr m2 \<Rightarrow>
               (case call_of_request sig of
                  None \<Rightarrow> (m2, Inl (Invalid_Argument ''Unknown signal''))
                | Some call \<Rightarrow>
                    (case request_ready call (request_chunks m2) of
                       Inl e \<Rightarrow> (m2, Inl e)
                     | Inr None \<Rightarrow> (m2, Inr ())
                     | Inr (Some _) \<Rightarrow> (m2\<lparr>request_complete := True\<rparr>, Inr ())))))"

definition popResponseChunk :: "message \<Rightarrow> message \<times> vspan option" where
  "popResponseChunk m =
     (case response_chunks m of
        [] \<Rightarrow> (if response_complete m then m\<lparr>processing_finished := True\<rparr> else m, None)
      | c # cs \<Rightarrow> (m\<lparr>response_chunks := cs\<rparr>, Some c))"

fun response_ready :: "call \<Rightarrow> chunk_list \<Rightarrow> nat option result" where
  "response_ready Get_Node cs = can_decode_MaybeTreeNode 0 cs"
| "response_ready Upsert_Node cs = can_decode_label 0 cs"
| "response_ready Delete_Node cs = can_decode_label 0 cs"
| "response_ready Get_Page_Tree cs = can_decode_VectorTreeNode 0 cs"
| "response_ready Query_Nodes cs = can_decode_VectorTreeNode 0 cs"
| "response_ready Open_Transaction_Layer cs = can_decode_label 0 cs"
| "response_ready Close_Transaction_Layers cs = can_decode_label 0 cs"
| "response_ready Apply_Transaction cs = can_decode_label 0 cs"
| "response_ready Get_Full_Tree cs = can_decode_VectorTreeNode 0 cs"
| "response_ready Register_Listener cs = can_decode_label 0 cs"
| "response_ready Deregister_Listener cs = can_decode_label 0 cs"
| "response_ready Notify_Listeners cs = can_decode_label 0 cs"
| "response_ready Process_Notification cs = can_decode_label 0 cs"
| "response_ready Get_Journal cs = can_decode_VectorSequentialNotification 0 cs"

definition pushResponseChunk :: "vspan \<Rightarrow> unit msg_op" where
  "pushResponseChunk c m =
     (if vs_type c = 0 then (m\<lparr>response_chunks := response_chunks m @ [c]\<rparr>, Inr ())
      else
        (case vs_signal c of
           Inl e \<Rightarrow> (m, Inl e)
         | Inr sig \<Rightarrow>
             if vs_type c = 1 then
               (if sig = signal_close_stream then m\<lparr>response_complete := True\<rparr> else m, Inr ())
             else
               let m1 = m\<lparr>response_chunks := response_chunks m @ [c]\<rparr> in
               (case call_of_response sig of
                  None \<Rightarrow> (m1, Inl (Invalid_Argument ''Unknown signal''))
                | Some call \<Rightarrow>
                    (case response_ready call (response_chunks m1) of
                       Inl e \<Rightarrow> (m1, Inl e)
                     | Inr None \<Rightarrow> (m1, Inr ())
                     | Inr (Some _) \<Rightarrow> (m1\<lparr>msg_signal := sig, response_complete := True\<rparr>, Inr ())))))"

text \<open>\<open>reset\<close> leaves the signal, the journal mark and \<open>processingFinished\<close> as they are.\<close>

definition reset :: "message \<Rightarrow> message" where
  "reset m = m\<lparr>msg_request_id := 0, is_initialized := False, request_complete := False,
     response_complete := False, request_chunks := [], response_chunks := []\<rparr>"

end
