(* ===== verification/Http3_Transport.thy ===== *)
theory Http3_Transport
  imports Http3_Message
begin

text \<open>
  Messages end to end: what one side encodes, stamps with a stream's request id and pops chunk by chunk,
  the other side has complete exactly when the last chunk is pushed, and decodes to what was sent. The
  locale \<open>transport\<close> states what the chunks of one kind of value must satisfy for that; the delivery
  lemmas are proved once inside it, and it is interpreted for the values of all fourteen calls.
\<close>

section \<open>Stamps\<close>

definition stamped :: "u16 \<Rightarrow> u8 \<Rightarrow> vspan \<Rightarrow> bool" where
  "stamped rid sig c \<longleftrightarrow> vs_type c = 2 \<and>
     (case vs_chunks c of
        [] \<Rightarrow> False
      | v # _ \<Rightarrow> (case vc_head v of Payload_Header s r d \<Rightarrow> s = sig \<and> r = rid | _ \<Rightarrow> False))"

definition stamps :: "(u16 \<Rightarrow> u8 \<Rightarrow> 'a \<Rightarrow> chunk_list result) \<Rightarrow> bool" where
  "stamps enc \<longleftrightarrow> (\<forall>rid sig x cs. enc rid sig x = Inr cs \<longrightarrow>
     list_all (stamped rid sig) cs \<and> (\<forall>r. \<exists>cs'. enc r sig x = Inr cs' \<and> restamp r cs = (cs', Inr ())))"

lemma stamped_of_data [simp]: "stamped rid sig (vs_of_data (Payload_Header s r d) data) \<longleftrightarrow> s = sig \<and> r = rid"
  by (simp add: stamped_def vs_of_data_def)

lemma set_id_of_data [simp]:
  "vs_set_request_id r (vs_of_data (Payload_Header s r' d) data) = Inr (vs_of_data (Payload_Header s r d) data)"
  by (simp add: vs_set_request_id_def vs_of_data_def)

lemma type_of_data [simp]: "vs_type (vs_of_data h data) = header_type h"
  by (simp add: vs_of_data_def)

lemma stamped_signal:
  assumes "stamped rid sig c"
  shows "vs_signal c = Inr sig" and "vs_request_id c = Inr rid" and "vs_type c = 2"
  using assms
  by (auto simp: stamped_def vs_signal_def vs_request_id_def split: list.splits header.splits)

lemma restamp_append:
  "restamp r cs = (cs', Inr ()) \<Longrightarrow> restamp r (cs @ ds) = (cs' @ fst (restamp r ds), snd (restamp r ds))"
  by (induction cs arbitrary: cs') (auto split: sum.splits prod.splits if_splits)

lemma restamp_append_Inr [simp]:
  "restamp r cs = (cs', Inr ()) \<Longrightarrow> restamp r ds = (ds', Inr ()) \<Longrightarrow> restamp r (cs @ ds) = (cs' @ ds', Inr ())"
  by (simp add: restamp_append)

lemma long_rest_stamped: "list_all (stamped rid sig) (long_rest rid sig s)"
proof (induction rid sig s rule: long_rest.induct)
  case (1 rid sig s)
  then show ?case by (cases "s = []") (simp, subst long_rest.simps, simp add: Let_def)
qed

lemma long_rest_restamp [simp]: "restamp r (long_rest rid sig s) = (long_rest r sig s, Inr ())"
proof (induction rid sig s rule: long_rest.induct)
  case (1 rid sig s)
  then show ?case
    by (cases "s = []") (simp, subst (1 2) long_rest.simps, simp add: Let_def)
qed

lemma long_string_stamped [simp]: "list_all (stamped rid sig) (encode_long_string rid sig s)"
  by (simp add: encode_long_string_def Let_def long_rest_stamped)

lemma long_string_restamp [simp]:
  "restamp r (encode_long_string rid sig s) = (encode_long_string r sig s, Inr ())"
  by (simp add: encode_long_string_def Let_def)

lemma flatten_stamped [simp]: "list_all (stamped rid sig) (vs_flatten (Payload_Header sig rid d) s)"
  by (simp add: vs_flatten_def list_all_iff)

lemma flatten_restamp [simp]:
  "restamp r (vs_flatten (Payload_Header sig rid d) s) = (vs_flatten (Payload_Header sig r d) s, Inr ())"
proof -
  have "restamp r (map (\<lambda>c. vs_of_data (set_data_length (Payload_Header sig rid d) (length (vc_data c))) (vc_data c)) cs) =
      (map (\<lambda>c. vs_of_data (set_data_length (Payload_Header sig r d) (length (vc_data c))) (vc_data c)) cs, Inr ())" for cs
    by (induction cs) auto
  then show ?thesis by (simp add: vs_flatten_def)
qed

lemma stampsI:
  assumes "\<And>rid sig x cs. enc rid sig x = Inr cs \<Longrightarrow> list_all (stamped rid sig) cs"
    and "\<And>rid sig x cs r. enc rid sig x = Inr cs \<Longrightarrow> \<exists>cs'. enc r sig x = Inr cs' \<and> restamp r cs = (cs', Inr ())"
  shows "stamps enc"
  using assms by (simp add: stamps_def)

lemma stampsD:
  assumes "stamps enc" and "enc rid sig x = Inr cs"
  shows "list_all (stamped rid sig) cs" and "\<exists>cs'. enc r sig x = Inr cs' \<and> restamp r cs = (cs', Inr ())"
  using assms by (auto simp: stamps_def)

text \<open>Encoders put together from encoders that stamp do so too.\<close>

lemma stamps_map: "stamps enc \<Longrightarrow> stamps (\<lambda>rid sig x. enc rid sig (f x))"
  by (auto simp: stamps_def)

lemma stamps_seq:
  assumes "stamps e1" and "stamps e2"
  shows "stamps (\<lambda>rid sig x. rbind (e1 rid sig x) (\<lambda>cs. rbind (e2 rid sig x) (\<lambda>ds. Inr (cs @ ds))))"
proof (rule stampsI)
  fix rid sig x cs
  assume "rbind (e1 rid sig x) (\<lambda>cs. rbind (e2 rid sig x) (\<lambda>ds. Inr (cs @ ds))) = Inr cs"
  then obtain c1 c2 where c: "e1 rid sig x = Inr c1" "e2 rid sig x = Inr c2" "cs = c1 @ c2"
    by (auto simp: rbind_Inr_iff)
  show "list_all (stamped rid sig) cs"
    using stampsD(1) [OF assms(1) c(1)] stampsD(1) [OF assms(2) c(2)] by (simp add: c)
  show "\<exists>cs'. rbind (e1 r sig x) (\<lambda>cs. rbind (e2 r sig x) (\<lambda>ds. Inr (cs @ ds))) = Inr cs' \<and>
      restamp r cs = (cs', Inr ())" for r
    using stampsD(2) [OF assms(1) c(1), of r] stampsD(2) [OF assms(2) c(2), of r] by (auto simp: c)
qed

lemma stamps_all:
  assumes "stamps enc"
  shows "stamps (\<lambda>rid sig. encode_all (enc rid sig))"
proof (rule stampsI)
  show "list_all (stamped rid sig) cs" if "encode_all (enc rid sig) xs = Inr cs" for rid sig xs cs
    using that by (induction xs arbitrary: cs) (auto simp: rbind_Inr_iff dest: stampsD(1) [OF assms])
  show "\<exists>cs'. encode_all (enc r sig) xs = Inr cs' \<and> restamp r cs = (cs', Inr ())"
    if "encode_all (enc rid sig) xs = Inr cs" for rid sig xs cs r
    using that
  proof (induction xs arbitrary: cs)
    case (Cons x xs)
    then obtain c d where c: "enc rid sig x = Inr c" "encode_all (enc rid sig) xs = Inr d" "cs = c @ d"
      by (auto simp: rbind_Inr_iff)
    then show ?case using stampsD(2) [OF assms c(1), of r] Cons.IH [OF c(2)] by auto
  qed simp
qed

lemma label_stamps: "stamps encode_label"
  by (rule stampsI) (auto simp: encode_label_def split: if_splits)

lemma long_stamps: "stamps (\<lambda>rid sig s. Inr (encode_long_string rid sig s))"
  by (rule stampsI) auto

lemma node_stamps: "stamps encode_MaybeTreeNode"
  by (rule stampsI) (auto simp: encode_MaybeTreeNode_def rbind_Inr_iff Let_def split: option.splits)

lemma labelled_stamps:
  "stamps (\<lambda>rid sig x. rbind (encode_MaybeTreeNode rid sig (snd (snd x))) (\<lambda>ns.
     Inr (encode_long_string rid sig (text x) @ ns)))"
proof (rule stampsI)
  fix rid sig and x :: "'a \<times> 'b \<times> vspan node option" and cs
  assume "rbind (encode_MaybeTreeNode rid sig (snd (snd x))) (\<lambda>ns. Inr (encode_long_string rid sig (text x) @ ns)) = Inr cs"
  then obtain ns where ns: "encode_MaybeTreeNode rid sig (snd (snd x)) = Inr ns"
      "cs = encode_long_string rid sig (text x) @ ns"
    by (auto simp: rbind_Inr_iff)
  show "list_all (stamped rid sig) cs" using stampsD(1) [OF node_stamps ns(1)] by (simp add: ns)
  show "\<exists>cs'. rbind (encode_MaybeTreeNode r sig (snd (snd x))) (\<lambda>ns. Inr (encode_long_string r sig (text x) @ ns)) = Inr cs' \<and>
      restamp r cs = (cs', Inr ())" for r
    using stampsD(2) [OF node_stamps ns(1), of r] by (auto simp: ns)
qed

lemma sequential_stamps: "stamps encode_SequentialNotification"
  unfolding encode_SequentialNotification_def [abs_def] by (rule labelled_stamps)

lemma new_version_stamps: "stamps encode_NewNodeVersion"
  unfolding encode_NewNodeVersion_def [abs_def] by (rule labelled_stamps)

lemma notifications_stamps: "stamps encode_VectorSequentialNotification"
  unfolding encode_VectorSequentialNotification_def [abs_def]
  by (rule stamps_seq [OF stamps_map [OF label_stamps] stamps_all [OF sequential_stamps]])

lemma sub_stamps: "stamps encode_SubTransaction"
proof -
  have eq: "encode_SubTransaction = (\<lambda>rid sig st.
      rbind (encode_label rid sig (to_dec (length (snd st)))) (\<lambda>cs.
        rbind (rbind (encode_NewNodeVersion rid sig (fst st)) (\<lambda>ds.
          rbind (encode_all (encode_NewNodeVersion rid sig) (snd st)) (\<lambda>es. Inr (ds @ es)))) (\<lambda>ds. Inr (cs @ ds))))"
    by (intro ext) (simp add: encode_SubTransaction_def rbind_def split: sum.split)
  show ?thesis
    unfolding eq
    by (rule stamps_seq [OF stamps_map [OF label_stamps] stamps_seq [OF stamps_map [OF new_version_stamps]
          stamps_map [OF stamps_all [OF new_version_stamps]]]])
qed

lemma transaction_stamps: "stamps encode_Transaction"
  unfolding encode_Transaction_def [abs_def]
  by (rule stamps_seq [OF stamps_map [OF label_stamps] stamps_all [OF sub_stamps]])

lemma nodes_stamps: "stamps encode_VectorTreeNode"
  unfolding encode_VectorTreeNode_def [abs_def]
  by (rule stamps_seq [OF stamps_map [OF label_stamps] stamps_all [OF stamps_map [OF node_stamps]]])

section \<open>Delivery\<close>

text \<open>Push the chunks one after the other; the first exception ends it.\<close>

fun feed :: "(vspan \<Rightarrow> unit msg_op) \<Rightarrow> chunk_list \<Rightarrow> unit msg_op" where
  "feed push [] m = (m, Inr ())"
| "feed push (c # cs) m =
     (case push c m of (m1, Inl e) \<Rightarrow> (m1, Inl e) | (m1, Inr _) \<Rightarrow> feed push cs m1)"

lemma feed_append:
  "feed push cs m = (m1, Inr ()) \<Longrightarrow> feed push (cs @ ds) m = feed push ds m1"
  by (induction cs arbitrary: m) (auto split: prod.splits sum.splits)

lemma call_of_signal [simp]:
  "call_of_request (request_signal c) = Some c"
  "call_of_response (response_signal c) = Some c"
  by (cases c; simp add: call_of_request_def call_of_response_def calls_def)+

locale transport =
  fixes enc :: "u16 \<Rightarrow> u8 \<Rightarrow> 'a \<Rightarrow> chunk_list result"
    and dec :: "chunk_list \<Rightarrow> (nat \<times> 'b) result"
    and arrived :: "chunk_list \<Rightarrow> nat option result"
    and sendable :: "'a \<Rightarrow> bool"
    and received :: "u16 \<Rightarrow> u8 \<Rightarrow> 'a \<Rightarrow> 'b"
  assumes stamping: "stamps enc"
    and encodes: "sendable x \<Longrightarrow> \<exists>cs. enc rid sig x = Inr cs \<and> cs \<noteq> []"
    and decodes: "sendable x \<Longrightarrow> enc rid sig x = Inr cs \<Longrightarrow> length cs < 2 ^ 64 \<Longrightarrow>
      \<exists>k. dec cs = Inr (k, received rid sig x)"
    and arrives: "sendable x \<Longrightarrow> enc rid sig x = Inr cs \<Longrightarrow> length cs < 2 ^ 64 \<Longrightarrow>
      \<exists>k. arrived cs = Inr (Some k)"
    and waits: "sendable x \<Longrightarrow> enc rid sig x = Inr cs \<Longrightarrow> length cs < 2 ^ 64 \<Longrightarrow>
      k < length cs \<Longrightarrow> 0 < k \<Longrightarrow> arrived (take k cs) = Inr None"
begin

text \<open>The sender: the chunks that stand in the message once the stream's id is known.\<close>

lemma sent:
  assumes "sendable x" and "\<not> is_initialized m" and "request_chunks m = []"
  obtains m1 m2 cs where "begin_request c (\<lambda>rid sig. enc rid sig x) m = (m1, Inr ())"
    and "setRequestId r m1 = (m2, Inr ())" and "request_chunks m2 = cs"
    and "enc r (request_signal c) x = Inr cs" and "is_initialized m2" and "request_complete m2"
proof -
  obtain cs where cs: "enc (msg_request_id m) (request_signal c) x = Inr cs" using encodes [OF assms(1)] by blast
  obtain cs' where cs': "enc r (request_signal c) x = Inr cs'" "restamp r cs = (cs', Inr ())"
    using stampsD(2) [OF stamping cs, of r] by blast
  show thesis
    by (rule that) (use assms cs cs' in \<open>auto simp: begin_request_def setRequestId_def Let_def\<close>)
qed

text \<open>The receiver: after each chunk the request is complete if and only if it was the last one.\<close>

lemma pushed:
  assumes "sendable x" and cs: "enc r (request_signal c) x = Inr cs" and "length cs < 2 ^ 64"
    and c: "request_ready c = arrived"
    and m: "request_chunks m = []" "\<not> request_complete m" and "k \<le> length cs" and "0 < k"
  shows "feed pushRequestChunk (take k cs) m =
    (m\<lparr>request_chunks := take k cs, msg_request_id := r, is_initialized := True,
       request_complete := k = length cs\<rparr>, Inr ())"
  using assms(7,8)
proof (induction k)
  case (Suc k)
  let ?m = "\<lambda>k. m\<lparr>request_chunks := take k cs, msg_request_id := r, is_initialized := True,
      request_complete := k = length cs\<rparr>"
  let ?c = "cs ! k"
  have "stamped r (request_signal c) ?c"
    using stampsD(1) [OF stamping cs] Suc.prems by (simp add: list_all_length)
  note st = stamped_signal [OF this]
  have ready: "request_ready c (take (Suc k) cs) = Inr None \<or> (Suc k = length cs \<and> (\<exists>j. request_ready c cs = Inr (Some j)))"
    using waits [OF assms(1) cs assms(3), of "Suc k"] arrives [OF assms(1) cs assms(3)] Suc.prems
    by (cases "Suc k = length cs") (auto simp: c)
  have ready': "Suc k = length cs \<Longrightarrow> \<exists>j. request_ready c (take (Suc k) cs) = Inr (Some j)"
    using arrives [OF assms(1) cs assms(3)] by (auto simp: c)
  have snoc: "take (Suc k) cs = take k cs @ [?c]" using Suc.prems by (simp add: take_Suc_conv_app_nth)
  show ?case
  proof (cases "k = 0")
    case True
    then show ?thesis
      using st m ready ready' Suc.prems snoc
      by (cases m, cases cs) (auto simp: pushRequestChunk_def Let_def split: option.splits)
  next
    case False
    then have "feed pushRequestChunk (take k cs) m = (?m k, Inr ())" using Suc by simp
    then have "feed pushRequestChunk (take (Suc k) cs) m = feed pushRequestChunk [?c] (?m k)"
      unfolding snoc by (rule feed_append)
    also have "\<dots> = (?m (Suc k), Inr ())"
    proof -
      have n: "length (take k cs @ [?c]) \<noteq> 1" using False Suc.prems by simp
      show ?thesis
      proof (cases "Suc k = length cs")
        case True
        then have all: "take k cs @ [?c] = cs" using snoc by simp
        from ready' [OF True] all snoc obtain j where "request_ready c cs = Inr (Some j)" by auto
        then show ?thesis
          using st n m True Suc.prems by (cases m) (auto simp: pushRequestChunk_def Let_def all)
      next
        case last: False
        then have "request_ready c (take k cs @ [?c]) = Inr None" using ready snoc by simp
        then show ?thesis
          using st n m last Suc.prems by (cases m) (auto simp: pushRequestChunk_def Let_def snoc)
      qed
    qed
    finally show ?thesis .
  qed
qed simp

lemma request_received:
  assumes "sendable x" and "enc r (request_signal c) x = Inr cs" and "length cs < 2 ^ 64"
    and "request_ready c = arrived" and "request_chunks m = []" and "\<not> request_complete m"
  shows "\<exists>m'. feed pushRequestChunk cs m = (m', Inr ()) \<and> request_complete m' \<and> msg_request_id m' = r \<and>
      take_request dec m' = (m', Inr (received r (request_signal c) x))"
proof -
  have "cs \<noteq> []" using encodes [OF assms(1), of r "request_signal c"] assms(2) by auto
  then show ?thesis
    using pushed [OF assms(1-6), of "length cs"] decodes [OF assms(1-3)] by (auto simp: take_request_def)
qed

text \<open>The way back.\<close>

lemma answered:
  assumes "sendable x" and "response_chunks m = []"
  obtains m1 cs where "put_response c (\<lambda>rid sig. enc rid sig x) m = (m1, Inr ())"
    and "enc (msg_request_id m) (response_signal c) x = Inr cs" and "response_chunks m1 = cs" and "response_complete m1"
  using encodes [OF assms(1), of "msg_request_id m" "response_signal c"] assms(2)
  by (auto simp: put_response_def Let_def intro: that)

lemma response_pushed:
  assumes "sendable x" and cs: "enc r (response_signal c) x = Inr cs" and "length cs < 2 ^ 64"
    and c: "response_ready c = arrived"
    and m: "response_chunks m = []" "\<not> response_complete m" and "k \<le> length cs"
  shows "feed pushResponseChunk (take k cs) m =
    ((if k = length cs then m\<lparr>response_chunks := cs, msg_signal := response_signal c, response_complete := True\<rparr>
      else m\<lparr>response_chunks := take k cs\<rparr>), Inr ())"
  using assms(7)
proof (induction k)
  case 0
  have "cs \<noteq> []" using encodes [OF assms(1), of r "response_signal c"] cs by auto
  then show ?case using m by simp
next
  case (Suc k)
  let ?c = "cs ! k"
  have "stamped r (response_signal c) ?c"
    using stampsD(1) [OF stamping cs] Suc.prems by (simp add: list_all_length)
  note st = stamped_signal [OF this]
  have w: "Suc k \<noteq> length cs \<Longrightarrow> response_ready c (take (Suc k) cs) = Inr None"
    using waits [OF assms(1) cs assms(3), of "Suc k"] Suc.prems by (auto simp: c)
  have a: "Suc k = length cs \<Longrightarrow> \<exists>j. response_ready c cs = Inr (Some j)"
    using arrives [OF assms(1) cs assms(3)] by (auto simp: c)
  have snoc: "take (Suc k) cs = take k cs @ [?c]" using Suc.prems by (simp add: take_Suc_conv_app_nth)
  have "feed pushResponseChunk (take k cs) m = (m\<lparr>response_chunks := take k cs\<rparr>, Inr ())"
    using Suc by simp
  then have fed: "feed pushResponseChunk (take (Suc k) cs) m = feed pushResponseChunk [?c] (m\<lparr>response_chunks := take k cs\<rparr>)"
    unfolding snoc by (rule feed_append)
  have "pushResponseChunk ?c (m\<lparr>response_chunks := take k cs\<rparr>) =
      ((if Suc k = length cs then m\<lparr>response_chunks := cs, msg_signal := response_signal c, response_complete := True\<rparr>
        else m\<lparr>response_chunks := take (Suc k) cs\<rparr>), Inr ())"
  proof (cases "Suc k = length cs")
    case True
    then have "take k cs @ [?c] = cs" using snoc by simp
    then show ?thesis using True st a by (auto simp: pushResponseChunk_def Let_def)
  next
    case False
    then show ?thesis using st w by (simp add: pushResponseChunk_def Let_def snoc)
  qed
  then show ?case unfolding fed by simp
qed

lemma response_received:
  assumes "sendable x" and "enc r (response_signal c) x = Inr cs" and "length cs < 2 ^ 64"
    and "response_ready c = arrived" and "response_chunks m = []" and "\<not> response_complete m"
  shows "\<exists>m'. feed pushResponseChunk cs m = (m', Inr ()) \<and> response_complete m' \<and> msg_signal m' = response_signal c \<and>
      take_response dec m' = (m'\<lparr>processing_finished := True\<rparr>, Inr (received r (response_signal c) x))"
  using response_pushed [OF assms, of "length cs"] decodes [OF assms(1-3)] by (auto simp: take_response_def)

end

section \<open>The values of the fourteen calls\<close>

lemma codec_transport:
  assumes "\<And>rid sig. codec (enc rid sig) dec can sendable (received rid sig)" and "stamps enc"
  shows "transport enc dec (can 0) sendable received"
proof
  fix x rid sig cs and k :: nat
  assume x: "sendable x"
  note laws = codec.encodes [OF assms(1)] codec.decodes [OF assms(1)]
    codec.complete [OF assms(1)] codec.incomplete [OF assms(1)]
  show "\<exists>cs. enc rid sig x = Inr cs \<and> cs \<noteq> []" by (rule laws(1) [OF x])
  assume e: "enc rid sig x = Inr cs" and len: "length cs < 2 ^ 64"
  show "\<exists>k. dec cs = Inr (k, received rid sig x)" using laws(2) [OF x e, of "[]"] len by simp
  show "\<exists>k. can 0 cs = Inr (Some k)" using laws(3) [OF x e, of "[]" "[]"] len by simp
  show "can 0 (take k cs) = Inr None" if "k < length cs" using laws(4) [OF x e, of "[]"] len that by simp
qed (rule assms(2))

text \<open>Values that travel as the text of one label chunk.\<close>

lemma text_transport:
  assumes "\<And>x. sendable x \<Longrightarrow> length (wording x) \<le> payload_max"
    and "\<And>x c. sendable x \<Longrightarrow> vs_bytes c = wording x \<Longrightarrow> \<exists>k. dec [c] = Inr (k, received x)"
  shows "transport (\<lambda>rid sig x. encode_label rid sig (wording x)) dec (can_decode_label 0) sendable (\<lambda>_ _. received)"
proof
  show "stamps (\<lambda>rid sig x. encode_label rid sig (wording x))" by (rule stamps_map [OF label_stamps])
next
  fix x rid sig cs and k :: nat
  assume x: "sendable x"
  note e = encode_label_eq [OF assms(1) [OF x]]
  show "\<exists>cs. encode_label rid sig (wording x) = Inr cs \<and> cs \<noteq> []" by (simp add: e)
  assume "encode_label rid sig (wording x) = Inr cs"
  then have cs: "cs = [vs_of_data (Payload_Header sig rid (of_nat (length (wording x)))) (wording x)]" by (simp add: e)
  show "\<exists>k. dec cs = Inr (k, received x)" using assms(2) [OF x] by (simp add: cs)
  show "\<exists>k. can_decode_label 0 cs = Inr (Some k)"
    using can_decode_label_here [OF assms(1) [OF x], of "[]" sig rid "[]"] by (simp add: cs)
  show "can_decode_label 0 (take k cs) = Inr None" if "k < length cs" "0 < k" using that by (simp add: cs)
qed

definition flag_text :: "bool \<Rightarrow> string" where
  "flag_text b = (if b then ''1'' else ''0'')"

lemma rd_flag_text: "rd_bool None (ready (flag_text b)) = Inr (b, after [])"
proof -
  have "rd_bool None (ready (flag_text True)) = Inr (True, after [])" "rd_bool None (ready (flag_text False)) = Inr (False, after [])"
    by code_simp+
  then show ?thesis by (cases b) simp_all
qed

lemma rd_flag_blank: "rd_bool None (ready (CHR '' '' # flag_text b)) = Inr (b, after [])"
proof -
  have "rd_bool None (ready (CHR '' '' # flag_text True)) = Inr (True, after [])" "rd_bool None (ready (CHR '' '' # flag_text False)) = Inr (False, after [])"
    by code_simp+
  then show ?thesis by (cases b) simp_all
qed

interpretation label_t: transport encode_label decode_label "can_decode_label 0"
    "\<lambda>s. length s \<le> payload_max" "\<lambda>_ _. id"
  by (rule codec_transport [OF label.codec_axioms label_stamps])

interpretation empty_t: transport "\<lambda>rid sig (x :: unit). encode_label rid sig ''''" decode_nothing
    "can_decode_label 0" "\<lambda>_. True" "\<lambda>_ _. id"
  by (rule text_transport [where wording = "\<lambda>_. ''''"]) (simp_all add: decode_nothing_def)

lemma flag_enc: "(\<lambda>rid sig b. encode_flag b rid sig) = (\<lambda>rid sig b. encode_label rid sig (flag_text b))"
  by (simp add: encode_flag_def flag_text_def fun_eq_iff)

interpretation flag_t: transport "\<lambda>rid sig b. encode_flag b rid sig" decode_flag "can_decode_label 0" "\<lambda>_. True" "\<lambda>_ _. id"
  unfolding flag_enc
proof (rule text_transport)
  show "length (flag_text b) \<le> payload_max" for b by (simp add: flag_text_def payload_max_def chunk_size_def)
  show "\<exists>k. decode_flag [c] = Inr (k, id b)" if "vs_bytes c = flag_text b" for b c
    using that rd_flag_text [of b] by (simp add: decode_flag_def decode_label_def)
qed

interpretation node_t: transport encode_MaybeTreeNode decode_MaybeTreeNode "can_decode_MaybeTreeNode 0"
    maybe_sendable "\<lambda>rid sig. map_option (received_node rid sig)"
  by (rule codec_transport [OF node.codec_axioms node_stamps])

interpretation nodes_t: transport encode_VectorTreeNode decode_VectorTreeNode "can_decode_VectorTreeNode 0"
    "vector_sendable node_sendable" "\<lambda>rid sig. map (received_node rid sig)"
  by (rule codec_transport [OF nodes.codec_axioms nodes_stamps])

interpretation transaction_t: transport encode_Transaction decode_Transaction "can_decode_Transaction 0"
    "vector_sendable sub_sendable" "\<lambda>rid sig. map (received_sub rid sig)"
  by (rule codec_transport [OF transaction.codec_axioms transaction_stamps])

interpretation notifications_t: transport encode_VectorSequentialNotification decode_VectorSequentialNotification
    "can_decode_VectorSequentialNotification 0" "vector_sendable (labelled_sendable sequence_text)"
    "\<lambda>rid sig. map (received_notification rid sig)"
  by (rule codec_transport [OF notifications.codec_axioms notifications_stamps])

interpretation layer_t: transport "\<lambda>rid sig n. encode_MaybeTreeNode rid sig (Some n)"
    "\<lambda>enc. rbind (decode_MaybeTreeNode enc) (\<lambda>(k, m). case m of
       None \<Rightarrow> Inl (Invalid_Argument ''TreeNode is nothing'') | Some n \<Rightarrow> Inr (k, n))"
    "can_decode_MaybeTreeNode 0" node_sendable received_node
proof
  show "stamps (\<lambda>rid sig n. encode_MaybeTreeNode rid sig (Some n))" by (rule stamps_map [OF node_stamps])
next
  fix n rid sig cs and k :: nat
  assume "node_sendable n"
  then have m: "maybe_sendable (Some n)" by (simp add: maybe_sendable_def)
  show "\<exists>cs. encode_MaybeTreeNode rid sig (Some n) = Inr cs \<and> cs \<noteq> []" by (rule node_t.encodes [OF m])
  assume e: "encode_MaybeTreeNode rid sig (Some n) = Inr cs" and len: "length cs < 2 ^ 64"
  show "\<exists>k. rbind (decode_MaybeTreeNode cs) (\<lambda>(k, m). case m of
       None \<Rightarrow> Inl (Invalid_Argument ''TreeNode is nothing'') | Some n \<Rightarrow> Inr (k, n)) =
      Inr (k, received_node rid sig n)"
    using node_t.decodes [OF m e len] by auto
  show "\<exists>k. can_decode_MaybeTreeNode 0 cs = Inr (Some k)" by (rule node_t.arrives [OF m e len])
  show "can_decode_MaybeTreeNode 0 (take k cs) = Inr None" if "k < length cs" "0 < k"
    by (rule node_t.waits [OF m e len that])
qed

text \<open>A journal request carries a sequence number only.\<close>

definition journal_key :: "sequential_notification \<Rightarrow> sequential_notification" where
  "journal_key sn = (fst sn, '''', None)"

lemma journal_key_sendable: "labelled_sendable sequence_text (journal_key sn)"
proof -
  have "unat (fst sn) < 2 ^ 64" by (rule order_less_le_trans [OF unsigned_less]) simp
  then have "length (to_dec (unat (fst sn))) \<le> 20" using length_to_dec [of "unat (fst sn)" 19] by simp
  then show ?thesis
    by (simp add: labelled_sendable_def journal_key_def maybe_sendable_def label_fits_def sequence_text_def
        payload_max_def chunk_size_def)
qed

lemma transport_map:
  assumes "transport enc dec arrived sendable received"
  shows "transport (\<lambda>rid sig x. enc rid sig (f x)) dec arrived (\<lambda>x. sendable (f x)) (\<lambda>rid sig x. received rid sig (f x))"
proof -
  note laws = transport.stamping [OF assms] transport.encodes [OF assms] transport.decodes [OF assms]
    transport.arrives [OF assms] transport.waits [OF assms]
  show ?thesis by unfold_locales (rule stamps_map, rule laws, (erule (3) laws | erule (2) laws | erule laws)+)
qed

lemma received_journal_key [simp]: "received_notification rid sig (journal_key sn) = journal_key sn"
  by (simp add: received_notification_def journal_key_def)

interpretation journal_t: transport "\<lambda>rid sig sn. encode_SequentialNotification rid sig (journal_key sn)"
    "used_some ''SequentialNotification'' decode_SequentialNotification" "can_decode_SequentialNotification 0"
    "\<lambda>_. True" "\<lambda>_ _. journal_key"
  using transport_map [OF codec_transport [OF sequential.checked [of _ _ "''SequentialNotification''"] sequential_stamps],
      of journal_key]
  by (simp add: journal_key_sendable)

subsection \<open>Listeners and notifications\<close>

lemma rd_field_text [stream_simps]:
  assumes "no_space w"
  shows "rd_field (ready (w @ CHR '' '' # r)) = Inr (w, ready (CHR '' '' # r))"
proof (cases w)
  case Nil
  then show ?thesis by (simp add: rd_field_def rd_simps rd_peek_ready)
next
  case (Cons c cs)
  then have "rd_word [] (ready (w @ CHR '' '' # r)) = Inr (w, ready (CHR '' '' # r))"
    using assms by (intro rd_word_here) (simp_all add: word_ok_def)
  then show ?thesis using assms Cons by (simp add: rd_field_def rd_simps rd_peek_ready)
qed

lemma rd_last_word:
  assumes "no_space w"
  obtains s where "rd_word [] (ready w) = Inr (w, s)"
proof (cases w)
  case Nil
  then show thesis using that by (simp add: rd_word_def sentry_def is_good_def ready_def)
next
  case (Cons c cs)
  then have "dropWhile is_space w = w" using assms by simp
  then have "sentry (ready w) = (Some w, ready w)" using Cons by (intro sentry_ready) simp_all
  moreover have "takeWhile (\<lambda>c. \<not> is_space c) w = w" using assms by (simp add: no_space_def takeWhile_eq_all_conv)
  ultimately show thesis using that by (simp add: rd_word_def Let_def)
qed

definition listener_text :: "string \<times> string \<times> bool \<Rightarrow> string" where
  "listener_text x = fst x @ '' '' @ fst (snd x) @ '' '' @ flag_text (snd (snd x))"

definition listener_sendable :: "string \<times> string \<times> bool \<Rightarrow> bool" where
  "listener_sendable x \<longleftrightarrow> no_space (fst x) \<and> no_space (fst (snd x)) \<and> length (listener_text x) \<le> payload_max"

lemma rd_listener_text:
  assumes "listener_sendable x"
  shows "rd_listener (ready (listener_text x)) = Inr (x, after [])"
  using assms
  by (cases x) (simp add: listener_sendable_def listener_text_def rd_listener_def rd_simps rd_field_text
      rd_get_ready rd_flag_text)

interpretation listener_t: transport "\<lambda>rid sig x. encode_label rid sig (listener_text x)"
    "decode_text rd_listener" "can_decode_label 0" listener_sendable "\<lambda>_ _. id"
proof (rule text_transport)
  show "\<exists>k. decode_text rd_listener [c] = Inr (k, id x)" if "listener_sendable x" "vs_bytes c = listener_text x" for x c
    using that rd_listener_text [of x] by (simp add: decode_text_def decode_label_def)
qed (simp add: listener_sendable_def)

definition unlisten_text :: "string \<times> string \<Rightarrow> string" where
  "unlisten_text x = fst x @ '' '' @ snd x"

definition unlisten_sendable :: "string \<times> string \<Rightarrow> bool" where
  "unlisten_sendable x \<longleftrightarrow> no_space (fst x) \<and> no_space (snd x) \<and> length (unlisten_text x) \<le> payload_max"

interpretation unlisten_t: transport "\<lambda>rid sig x. encode_label rid sig (unlisten_text x)"
    "decode_text rd_unlisten" "can_decode_label 0" unlisten_sendable "\<lambda>_ _. id"
proof (rule text_transport)
  show "\<exists>k. decode_text rd_unlisten [c] = Inr (k, id x)" if x: "unlisten_sendable x" and c: "vs_bytes c = unlisten_text x" for x c
  proof -
    obtain s where "rd_word [] (ready (snd x)) = Inr (snd x, s)"
      using x rd_last_word by (auto simp: unlisten_sendable_def)
    then show ?thesis
      using x c by (simp add: decode_text_def decode_label_def rd_unlisten_def rd_simps unlisten_text_def
          rd_field_text rd_get_ready unlisten_sendable_def)
  qed
qed (simp add: unlisten_sendable_def)

definition notice_sendable :: "notification \<Rightarrow> bool" where
  "notice_sendable x \<longleftrightarrow> no_space (fst x) \<and> length (fst x) \<le> payload_max \<and> maybe_sendable (snd x)"

definition encode_notice :: "u16 \<Rightarrow> u8 \<Rightarrow> notification \<Rightarrow> chunk_list result" where
  "encode_notice rid sig x =
     rbind (encode_label rid sig (fst x)) (\<lambda>cs. rbind (encode_MaybeTreeNode rid sig (snd x)) (\<lambda>ds. Inr (cs @ ds)))"

definition decode_notice :: "chunk_list \<Rightarrow> (nat \<times> notification) result" where
  "decode_notice enc =
     rbind (decode_text (rd_word '''') enc) (\<lambda>(k, lbl). rbind (list_from k enc) (\<lambda>tail.
       rbind (used_some ''TreeNode'' decode_MaybeTreeNode tail) (\<lambda>(_, n). Inr (k, lbl, n))))"

interpretation notice_t: transport encode_notice decode_notice "request_ready Notify_Listeners" notice_sendable
    "\<lambda>rid sig. map_prod id (map_option (received_node rid sig))"
proof
  show "stamps encode_notice"
    unfolding encode_notice_def [abs_def] by (rule stamps_seq [OF stamps_map [OF label_stamps] stamps_map [OF node_stamps]])
next
  fix x rid sig cs and k :: nat
  assume "notice_sendable x"
  then have l: "no_space (fst x)" "length (fst x) \<le> payload_max" and m: "maybe_sendable (snd x)"
    by (simp_all add: notice_sendable_def)
  define c where "c = vs_of_data (Payload_Header sig rid (of_nat (length (fst x)))) (fst x)"
  obtain ds where ds: "encode_MaybeTreeNode rid sig (snd x) = Inr ds" using node.encodes [OF m] by blast
  have e: "encode_notice rid sig x = Inr (c # ds)" by (simp add: encode_notice_def encode_label_eq l(2) ds c_def)
  then show "\<exists>cs. encode_notice rid sig x = Inr cs \<and> cs \<noteq> []" by simp
  assume "encode_notice rid sig x = Inr cs" and len: "length cs < 2 ^ 64"
  then have cs: "cs = c # ds" using e by simp
  have can: "can_decode_label 0 (c # es) = Inr (Some 1)" for es
    using can_decode_label_here [OF l(2), of "[]" sig rid es] by (simp add: c_def)
  obtain s where s: "rd_word [] (ready (fst x)) = Inr (fst x, s)" using rd_last_word [OF l(1)] by blast
  have b: "vs_bytes c = fst x" by (simp add: c_def)
  show "\<exists>k. decode_notice cs = Inr (k, map_prod id (map_option (received_node rid sig)) x)"
    using codec.decodes [OF node.checked [of rid sig "''TreeNode''"] m ds, of "[]"] len s b
    by (cases x) (simp add: decode_notice_def cs decode_text_def decode_label_def list_from_def)
  show "\<exists>k. request_ready Notify_Listeners cs = Inr (Some k)"
    using node.complete [OF m ds, of "[c]" "[]"] len by (simp add: cs can with_default_def)
  show "request_ready Notify_Listeners (take k cs) = Inr None" if "k < length cs" "0 < k"
    using node.incomplete [OF m ds, of "[c]" "k - 1"] len that by (cases k) (simp_all add: cs can with_default_def)
qed

end
