(* ===== verification/Http3_Calls.thy ===== *)
theory Http3_Calls
  imports Http3_Transport
begin

text \<open>
  Every call of the backend interface as a request and a response, and the theorem that both arrive.
\<close>

section \<open>Delivery of one message\<close>

text \<open>
  The chunks \<open>cs\<close> of a request arrive as \<open>y\<close> in the message \<open>n\<close>: they carry the stream's id and the call's
  signal, \<open>n\<close> accepts them one by one, is complete after the last of them and not before, and then gives
  \<open>y\<close>. A request is delivered when a fresh message accepts it and its chunks, stamped with the stream's
  id, arrive.
\<close>

definition arrives_as :: "call \<Rightarrow> 'b msg_op \<Rightarrow> u16 \<Rightarrow> message \<Rightarrow> 'b \<Rightarrow> chunk_list \<Rightarrow> bool" where
  "arrives_as c rcv r n y cs \<longleftrightarrow>
     cs \<noteq> [] \<and> list_all (stamped r (request_signal c)) cs \<and>
     (length cs < 2 ^ 64 \<longrightarrow>
       (\<forall>k. 0 < k \<and> k \<le> length cs \<longrightarrow>
         (let m = n\<lparr>request_chunks := take k cs, msg_request_id := r, is_initialized := True,
                    request_complete := k = length cs\<rparr> in
          feed pushRequestChunk (take k cs) n = (m, Inr ()) \<and> (k = length cs \<longrightarrow> snd (rcv m) = Inr y))))"

definition delivers_request :: "call \<Rightarrow> unit msg_op \<Rightarrow> 'b msg_op \<Rightarrow> u16 \<Rightarrow> message \<Rightarrow> 'b \<Rightarrow> bool" where
  "delivers_request c send rcv r n y \<longleftrightarrow>
     (\<exists>m1 m2. send (message_new 0 0) = (m1, Inr ()) \<and> setRequestId r m1 = (m2, Inr ()) \<and>
        arrives_as c rcv r n y (request_chunks m2))"

definition fresh_request :: "message \<Rightarrow> bool" where
  "fresh_request m \<longleftrightarrow> request_chunks m = [] \<and> \<not> request_complete m"

definition delivers_response :: "unit msg_op \<Rightarrow> 'b msg_op \<Rightarrow> message \<Rightarrow> message \<Rightarrow> 'b \<Rightarrow> bool" where
  "delivers_response answer rcv m n y \<longleftrightarrow>
     (\<exists>m1. answer m = (m1, Inr ()) \<and> response_complete m1 \<and>
        (length (response_chunks m1) < 2 ^ 64 \<longrightarrow>
          (\<forall>k \<le> length (response_chunks m1).
            (\<exists>n1. feed pushResponseChunk (take k (response_chunks m1)) n = (n1, Inr ()) \<and>
               (response_complete n1 \<longleftrightarrow> k = length (response_chunks m1)) \<and>
               (k = length (response_chunks m1) \<longrightarrow>
                  snd (rcv n1) = Inr y \<and> processing_finished (fst (rcv n1)))))))"

context transport
begin

lemma delivers_request:
  assumes "sendable x" and "request_ready c = arrived" and "fresh_request n"
  shows "delivers_request c (begin_request c (\<lambda>rid sig. enc rid sig x)) (take_request dec) r n
    (received r (request_signal c) x)"
proof -
  have fresh: "\<not> is_initialized (message_new 0 0)" "request_chunks (message_new 0 0) = []"
    by (simp_all add: message_new_def)
  obtain m1 m2 cs where m: "begin_request c (\<lambda>rid sig. enc rid sig x) (message_new 0 0) = (m1, Inr ())"
      "setRequestId r m1 = (m2, Inr ())" "request_chunks m2 = cs" "enc r (request_signal c) x = Inr cs"
    using sent [OF assms(1) fresh, where c = c and r = r] by blast
  have "cs \<noteq> []" using encodes [OF assms(1), of r "request_signal c"] m(4) by auto
  moreover have "list_all (stamped r (request_signal c)) cs" by (rule stampsD(1) [OF stamping m(4)])
  moreover have "feed pushRequestChunk (take k cs) n =
      (n\<lparr>request_chunks := take k cs, msg_request_id := r, is_initialized := True,
         request_complete := k = length cs\<rparr>, Inr ())"
    if "length cs < 2 ^ 64" "0 < k" "k \<le> length cs" for k
    using assms(3) that by (intro pushed [OF assms(1) m(4) that(1) assms(2)]) (auto simp: fresh_request_def)
  moreover have "length cs < 2 ^ 64 \<Longrightarrow>
      snd (take_request dec (n\<lparr>request_chunks := cs, msg_request_id := r, is_initialized := True,
         request_complete := True\<rparr>)) = Inr (received r (request_signal c) x)"
    using decodes [OF assms(1) m(4)] by (auto simp: take_request_def)
  ultimately have "arrives_as c (take_request dec) r n (received r (request_signal c) x) cs"
    by (simp add: arrives_as_def Let_def)
  then show ?thesis using m(1-3) unfolding delivers_request_def by blast
qed

lemma delivers_response:
  assumes "sendable x" and "response_ready c = arrived"
    and "response_chunks m = []" and "response_chunks n = []" and "\<not> response_complete n"
  shows "delivers_response (put_response c (\<lambda>rid sig. enc rid sig x)) (take_response dec) m n
    (received (msg_request_id m) (response_signal c) x)"
proof -
  obtain m1 cs where m: "put_response c (\<lambda>rid sig. enc rid sig x) m = (m1, Inr ())"
      "enc (msg_request_id m) (response_signal c) x = Inr cs" "response_chunks m1 = cs" "response_complete m1"
    using answered [OF assms(1,3)] .
  have "\<exists>n1. feed pushResponseChunk (take k cs) n = (n1, Inr ()) \<and> (response_complete n1 \<longleftrightarrow> k = length cs) \<and>
      (k = length cs \<longrightarrow> snd (take_response dec n1) = Inr (received (msg_request_id m) (response_signal c) x) \<and>
         processing_finished (fst (take_response dec n1)))"
    if "length cs < 2 ^ 64" "k \<le> length cs" for k
    using response_pushed [OF assms(1) m(2) that(1) assms(2,4,5) that(2)] assms(5)
      decodes [OF assms(1) m(2) that(1)] by (auto simp: take_response_def)
  then show ?thesis using m unfolding delivers_response_def by blast
qed

end

section \<open>The calls\<close>

datatype request =
    Rq_Get_Node string
  | Rq_Upsert_Node "vspan node list"
  | Rq_Delete_Node string
  | Rq_Get_Page_Tree string
  | Rq_Query_Nodes string
  | Rq_Open_Layer "vspan node"
  | Rq_Close_Layers
  | Rq_Apply "vspan transaction"
  | Rq_Full_Tree
  | Rq_Register string string bool
  | Rq_Deregister string string
  | Rq_Notify string "vspan node option"
  | Rq_Process
  | Rq_Journal sequential_notification

fun send_request :: "request \<Rightarrow> unit msg_op" where
  "send_request (Rq_Get_Node l) = encode_getNodeRequest l"
| "send_request (Rq_Upsert_Node ns) = encode_upsertNodeRequest ns"
| "send_request (Rq_Delete_Node l) = encode_deleteNodeRequest l"
| "send_request (Rq_Get_Page_Tree l) = encode_getPageTreeRequest l"
| "send_request (Rq_Query_Nodes l) = encode_getQueryNodesRequest l"
| "send_request (Rq_Open_Layer n) = encode_openTransactionLayerRequest n"
| "send_request Rq_Close_Layers = encode_closeTransactionLayersRequest"
| "send_request (Rq_Apply t) = encode_applyTransactionRequest t"
| "send_request Rq_Full_Tree = encode_getFullTreeRequest"
| "send_request (Rq_Register nm l b) = encode_registerNodeListenerRequest nm l b"
| "send_request (Rq_Deregister nm l) = encode_deregisterNodeListenerRequest nm l"
| "send_request (Rq_Notify l n) = encode_notifyListenersRequest l n"
| "send_request Rq_Process = encode_processNotificationRequest"
| "send_request (Rq_Journal sn) = encode_getJournalRequest sn"

fun request_call :: "request \<Rightarrow> call" where
  "request_call (Rq_Get_Node l) = Get_Node"
| "request_call (Rq_Upsert_Node ns) = Upsert_Node"
| "request_call (Rq_Delete_Node l) = Delete_Node"
| "request_call (Rq_Get_Page_Tree l) = Get_Page_Tree"
| "request_call (Rq_Query_Nodes l) = Query_Nodes"
| "request_call (Rq_Open_Layer n) = Open_Transaction_Layer"
| "request_call Rq_Close_Layers = Close_Transaction_Layers"
| "request_call (Rq_Apply t) = Apply_Transaction"
| "request_call Rq_Full_Tree = Get_Full_Tree"
| "request_call (Rq_Register nm l b) = Register_Listener"
| "request_call (Rq_Deregister nm l) = Deregister_Listener"
| "request_call (Rq_Notify l n) = Notify_Listeners"
| "request_call Rq_Process = Process_Notification"
| "request_call (Rq_Journal sn) = Get_Journal"

definition op_map :: "('a \<Rightarrow> 'b) \<Rightarrow> 'a msg_op \<Rightarrow> 'b msg_op" where
  "op_map f g m = (case g m of (m', Inl e) \<Rightarrow> (m', Inl e) | (m', Inr x) \<Rightarrow> (m', Inr (f x)))"

fun receive_request :: "call \<Rightarrow> request msg_op" where
  "receive_request Get_Node = op_map Rq_Get_Node decode_getNodeRequest"
| "receive_request Upsert_Node = op_map Rq_Upsert_Node decode_upsertNodeRequest"
| "receive_request Delete_Node = op_map Rq_Delete_Node decode_deleteNodeRequest"
| "receive_request Get_Page_Tree = op_map Rq_Get_Page_Tree decode_getPageTreeRequest"
| "receive_request Query_Nodes = op_map Rq_Query_Nodes decode_getQueryNodesRequest"
| "receive_request Open_Transaction_Layer = op_map Rq_Open_Layer decode_openTransactionLayerRequest"
| "receive_request Close_Transaction_Layers = op_map (\<lambda>_. Rq_Close_Layers) decode_closeTransactionLayersRequest"
| "receive_request Apply_Transaction = op_map Rq_Apply decode_applyTransactionRequest"
| "receive_request Get_Full_Tree = op_map (\<lambda>_. Rq_Full_Tree) decode_getFullTreeRequest"
| "receive_request Register_Listener = op_map (\<lambda>(nm, l, b). Rq_Register nm l b) decode_registerNodeListenerRequest"
| "receive_request Deregister_Listener = op_map (\<lambda>(nm, l). Rq_Deregister nm l) decode_deregisterNodeListenerRequest"
| "receive_request Notify_Listeners = op_map (\<lambda>(l, n). Rq_Notify l n) decode_notifyListenersRequest"
| "receive_request Process_Notification = op_map (\<lambda>_. Rq_Process) decode_processNotificationRequest"
| "receive_request Get_Journal = op_map Rq_Journal decode_getJournalRequest"

text \<open>What the wire can carry of a request, and what it becomes on the other side.\<close>

fun request_sendable :: "request \<Rightarrow> bool" where
  "request_sendable (Rq_Get_Node l) \<longleftrightarrow> length l \<le> payload_max"
| "request_sendable (Rq_Upsert_Node ns) \<longleftrightarrow> vector_sendable node_sendable ns"
| "request_sendable (Rq_Delete_Node l) \<longleftrightarrow> length l \<le> payload_max"
| "request_sendable (Rq_Get_Page_Tree l) \<longleftrightarrow> length l \<le> payload_max"
| "request_sendable (Rq_Query_Nodes l) \<longleftrightarrow> length l \<le> payload_max"
| "request_sendable (Rq_Open_Layer n) \<longleftrightarrow> node_sendable n"
| "request_sendable Rq_Close_Layers \<longleftrightarrow> True"
| "request_sendable (Rq_Apply t) \<longleftrightarrow> vector_sendable sub_sendable t"
| "request_sendable Rq_Full_Tree \<longleftrightarrow> True"
| "request_sendable (Rq_Register nm l b) \<longleftrightarrow> listener_sendable (nm, l, b)"
| "request_sendable (Rq_Deregister nm l) \<longleftrightarrow> unlisten_sendable (nm, l)"
| "request_sendable (Rq_Notify l n) \<longleftrightarrow> notice_sendable (l, n)"
| "request_sendable Rq_Process \<longleftrightarrow> True"
| "request_sendable (Rq_Journal sn) \<longleftrightarrow> True"

fun received_request :: "u16 \<Rightarrow> request \<Rightarrow> request" where
  "received_request r (Rq_Upsert_Node ns) = Rq_Upsert_Node (map (received_node r (request_signal Upsert_Node)) ns)"
| "received_request r (Rq_Open_Layer n) = Rq_Open_Layer (received_node r (request_signal Open_Transaction_Layer) n)"
| "received_request r (Rq_Apply t) = Rq_Apply (map (received_sub r (request_signal Apply_Transaction)) t)"
| "received_request r (Rq_Notify l n) = Rq_Notify l (map_option (received_node r (request_signal Notify_Listeners)) n)"
| "received_request r (Rq_Journal sn) = Rq_Journal (journal_key sn)"
| "received_request r q = q"

lemma arrives_as_mono:
  assumes "arrives_as c rcv r n y cs" and "\<And>m. request_complete m \<Longrightarrow> snd (rcv m) = Inr y \<Longrightarrow> snd (rcv' m) = Inr y'"
  shows "arrives_as c rcv' r n y' cs"
  using assms unfolding arrives_as_def Let_def by simp

lemma delivers_mono:
  assumes "delivers_request c send rcv r n y"
    and "\<And>m. request_complete m \<Longrightarrow> snd (rcv m) = Inr y \<Longrightarrow> snd (rcv' m) = Inr y'"
  shows "delivers_request c send rcv' r n y'"
proof -
  obtain m1 m2 where m: "send (message_new 0 0) = (m1, Inr ())" "setRequestId r m1 = (m2, Inr ())"
    and a: "arrives_as c rcv r n y (request_chunks m2)"
    using assms(1) unfolding delivers_request_def by blast
  have "arrives_as c rcv' r n y' (request_chunks m2)"
    by (rule arrives_as_mono [OF a]) (rule assms(2))
  then show ?thesis using m unfolding delivers_request_def by blast
qed

lemma delivers_op_map:
  assumes "delivers_request c send rcv r n y"
  shows "delivers_request c send (op_map f rcv) r n (f y)"
  by (rule delivers_mono [OF assms]) (auto simp: op_map_def split: prod.splits sum.splits)

lemma delivers_marking:
  assumes "delivers_request c send rcv r n y"
  shows "delivers_request c (marking_journal send) (marking_journal rcv) r n y"
proof -
  obtain m1 m2 where m: "send (message_new 0 0) = (m1, Inr ())" "setRequestId r m1 = (m2, Inr ())"
    and a: "arrives_as c rcv r n y (request_chunks m2)"
    using assms unfolding delivers_request_def by blast
  have "arrives_as c (marking_journal rcv) r n y (request_chunks m2)"
    by (rule arrives_as_mono [OF a]) (auto simp: marking_journal_def split: prod.splits sum.splits)
  moreover have "setRequestId r (m1\<lparr>is_journal_request := True\<rparr>) = (m2\<lparr>is_journal_request := True\<rparr>, Inr ())"
    using m(2) by (auto simp: setRequestId_def Let_def split: prod.splits sum.splits)
  moreover have "marking_journal send (message_new 0 0) = (m1\<lparr>is_journal_request := True\<rparr>, Inr ())"
    using m(1) by (simp add: marking_journal_def)
  ultimately show ?thesis
    unfolding delivers_request_def by (metis message.select_convs(4) message.surjective message.update_convs(5))
qed

text \<open>The answers.\<close>

datatype response =
    Rs_Get_Node "vspan node option"
  | Rs_Upsert_Node bool
  | Rs_Delete_Node bool
  | Rs_Get_Page_Tree "vspan node list"
  | Rs_Query_Nodes "vspan node list"
  | Rs_Open_Layer bool
  | Rs_Close_Layers bool
  | Rs_Apply bool
  | Rs_Full_Tree "vspan node list"
  | Rs_Register bool
  | Rs_Deregister bool
  | Rs_Notify bool
  | Rs_Process
  | Rs_Journal "sequential_notification list"

fun send_response :: "response \<Rightarrow> unit msg_op" where
  "send_response (Rs_Get_Node x) = encode_getNodeResponse x"
| "send_response (Rs_Upsert_Node x) = encode_upsertNodeResponse x"
| "send_response (Rs_Delete_Node x) = encode_deleteNodeResponse x"
| "send_response (Rs_Get_Page_Tree x) = encode_getPageTreeResponse x"
| "send_response (Rs_Query_Nodes x) = encode_getQueryNodesResponse x"
| "send_response (Rs_Open_Layer x) = encode_openTransactionLayerResponse x"
| "send_response (Rs_Close_Layers x) = encode_closeTransactionLayersResponse x"
| "send_response (Rs_Apply x) = encode_applyTransactionResponse x"
| "send_response (Rs_Full_Tree x) = encode_getFullTreeResponse x"
| "send_response (Rs_Register x) = encode_registerNodeListenerResponse x"
| "send_response (Rs_Deregister x) = encode_deregisterNodeListenerResponse x"
| "send_response (Rs_Notify x) = encode_notifyListenersResponse x"
| "send_response Rs_Process = encode_processNotificationResponse"
| "send_response (Rs_Journal x) = encode_getJournalResponse x"

fun response_call :: "response \<Rightarrow> call" where
  "response_call (Rs_Get_Node x) = Get_Node"
| "response_call (Rs_Upsert_Node x) = Upsert_Node"
| "response_call (Rs_Delete_Node x) = Delete_Node"
| "response_call (Rs_Get_Page_Tree x) = Get_Page_Tree"
| "response_call (Rs_Query_Nodes x) = Query_Nodes"
| "response_call (Rs_Open_Layer x) = Open_Transaction_Layer"
| "response_call (Rs_Close_Layers x) = Close_Transaction_Layers"
| "response_call (Rs_Apply x) = Apply_Transaction"
| "response_call (Rs_Full_Tree x) = Get_Full_Tree"
| "response_call (Rs_Register x) = Register_Listener"
| "response_call (Rs_Deregister x) = Deregister_Listener"
| "response_call (Rs_Notify x) = Notify_Listeners"
| "response_call Rs_Process = Process_Notification"
| "response_call (Rs_Journal x) = Get_Journal"

fun receive_response :: "call \<Rightarrow> response msg_op" where
  "receive_response Get_Node = op_map Rs_Get_Node decode_getNodeResponse"
| "receive_response Upsert_Node = op_map Rs_Upsert_Node decode_upsertNodeResponse"
| "receive_response Delete_Node = op_map Rs_Delete_Node decode_deleteNodeResponse"
| "receive_response Get_Page_Tree = op_map Rs_Get_Page_Tree decode_getPageTreeResponse"
| "receive_response Query_Nodes = op_map Rs_Query_Nodes decode_getQueryNodesResponse"
| "receive_response Open_Transaction_Layer = op_map Rs_Open_Layer decode_openTransactionLayerResponse"
| "receive_response Close_Transaction_Layers = op_map Rs_Close_Layers decode_closeTransactionLayersResponse"
| "receive_response Apply_Transaction = op_map Rs_Apply decode_applyTransactionResponse"
| "receive_response Get_Full_Tree = op_map Rs_Full_Tree decode_getFullTreeResponse"
| "receive_response Register_Listener = op_map Rs_Register decode_registerNodeListenerResponse"
| "receive_response Deregister_Listener = op_map Rs_Deregister decode_deregisterNodeListenerResponse"
| "receive_response Notify_Listeners = op_map Rs_Notify decode_notifyListenersResponse"
| "receive_response Process_Notification = op_map (\<lambda>_. Rs_Process) decode_processNotificationResponse"
| "receive_response Get_Journal = op_map Rs_Journal decode_getJournalResponse"

fun response_sendable :: "response \<Rightarrow> bool" where
  "response_sendable (Rs_Get_Node x) \<longleftrightarrow> maybe_sendable x"
| "response_sendable (Rs_Upsert_Node x) \<longleftrightarrow> True"
| "response_sendable (Rs_Delete_Node x) \<longleftrightarrow> True"
| "response_sendable (Rs_Get_Page_Tree x) \<longleftrightarrow> vector_sendable node_sendable x"
| "response_sendable (Rs_Query_Nodes x) \<longleftrightarrow> vector_sendable node_sendable x"
| "response_sendable (Rs_Open_Layer x) \<longleftrightarrow> True"
| "response_sendable (Rs_Close_Layers x) \<longleftrightarrow> True"
| "response_sendable (Rs_Apply x) \<longleftrightarrow> True"
| "response_sendable (Rs_Full_Tree x) \<longleftrightarrow> vector_sendable node_sendable x"
| "response_sendable (Rs_Register x) \<longleftrightarrow> True"
| "response_sendable (Rs_Deregister x) \<longleftrightarrow> True"
| "response_sendable (Rs_Notify x) \<longleftrightarrow> True"
| "response_sendable Rs_Process \<longleftrightarrow> True"
| "response_sendable (Rs_Journal x) \<longleftrightarrow> vector_sendable (labelled_sendable sequence_text) x"

fun received_response :: "u16 \<Rightarrow> response \<Rightarrow> response" where
  "received_response r (Rs_Get_Node x) = Rs_Get_Node (map_option (received_node r (response_signal Get_Node)) x)"
| "received_response r (Rs_Upsert_Node x) = Rs_Upsert_Node x"
| "received_response r (Rs_Delete_Node x) = Rs_Delete_Node x"
| "received_response r (Rs_Get_Page_Tree x) = Rs_Get_Page_Tree (map (received_node r (response_signal Get_Page_Tree)) x)"
| "received_response r (Rs_Query_Nodes x) = Rs_Query_Nodes (map (received_node r (response_signal Query_Nodes)) x)"
| "received_response r (Rs_Open_Layer x) = Rs_Open_Layer x"
| "received_response r (Rs_Close_Layers x) = Rs_Close_Layers x"
| "received_response r (Rs_Apply x) = Rs_Apply x"
| "received_response r (Rs_Full_Tree x) = Rs_Full_Tree (map (received_node r (response_signal Get_Full_Tree)) x)"
| "received_response r (Rs_Register x) = Rs_Register x"
| "received_response r (Rs_Deregister x) = Rs_Deregister x"
| "received_response r (Rs_Notify x) = Rs_Notify x"
| "received_response r Rs_Process = Rs_Process"
| "received_response r (Rs_Journal x) = Rs_Journal (map (received_notification r (response_signal Get_Journal)) x)"

lemma op_map_Inr: "snd (f m) = Inr y \<Longrightarrow> snd (op_map g f m) = Inr (g y) \<and> fst (op_map g f m) = fst (f m)"
  by (auto simp: op_map_def split: prod.splits sum.splits)

lemma delivers_response_map:
  assumes "delivers_response answer rcv m n y"
  shows "delivers_response answer (op_map f rcv) m n (f y)"
  using assms op_map_Inr [of rcv _ y f] unfolding delivers_response_def by (metis (no_types, lifting))

section \<open>Both arrive\<close>

lemmas request_codes = encode_getNodeRequest_def decode_getNodeRequest_def encode_upsertNodeRequest_def
  decode_upsertNodeRequest_def encode_deleteNodeRequest_def decode_deleteNodeRequest_def
  encode_getPageTreeRequest_def decode_getPageTreeRequest_def encode_getQueryNodesRequest_def
  decode_getQueryNodesRequest_def encode_openTransactionLayerRequest_def decode_openTransactionLayerRequest_def
  encode_closeTransactionLayersRequest_def encode_applyTransactionRequest_def decode_applyTransactionRequest_def
  encode_getFullTreeRequest_def encode_registerNodeListenerRequest_def decode_registerNodeListenerRequest_def
  encode_deregisterNodeListenerRequest_def decode_deregisterNodeListenerRequest_def
  encode_notifyListenersRequest_def decode_notifyListenersRequest_def encode_processNotificationRequest_def
  decode_processNotificationRequest_def encode_getJournalRequest_def decode_getJournalRequest_def

lemma request_ready_simps [simp]:
  "request_ready Get_Node = can_decode_label 0" "request_ready Upsert_Node = can_decode_VectorTreeNode 0"
  "request_ready Delete_Node = can_decode_label 0" "request_ready Get_Page_Tree = can_decode_label 0"
  "request_ready Query_Nodes = can_decode_label 0" "request_ready Open_Transaction_Layer = can_decode_MaybeTreeNode 0"
  "request_ready Close_Transaction_Layers = can_decode_label 0" "request_ready Apply_Transaction = can_decode_Transaction 0"
  "request_ready Get_Full_Tree = can_decode_label 0" "request_ready Register_Listener = can_decode_label 0"
  "request_ready Deregister_Listener = can_decode_label 0" "request_ready Process_Notification = can_decode_label 0"
  "request_ready Get_Journal = can_decode_SequentialNotification 0"
  by (simp_all add: fun_eq_iff)

lemma empty_request:
  assumes "request_ready c = can_decode_label 0" and "fresh_request n" and "\<And>m. snd (rcv m) = Inr y"
  shows "delivers_request c (begin_request c (\<lambda>rid sig. encode_label rid sig '''')) rcv r n y"
  by (rule delivers_mono [OF empty_t.delivers_request [OF TrueI assms(1,2)]]) (rule assms(3))

lemma requests_delivered_core:
  assumes "request_sendable q" and "fresh_request w"
  shows "delivers_request (request_call q) (send_request q) (receive_request (request_call q)) r w (received_request r q)"
proof (cases q)
  case (Rq_Get_Node l)
  then show ?thesis
    using assms(1) delivers_op_map [OF label_t.delivers_request [where x = l and c = Get_Node and r = r and n = w, OF _ _ assms(2)], of Rq_Get_Node]
    by (simp add: request_codes)
next
  case (Rq_Upsert_Node ns)
  then show ?thesis
    using assms(1) delivers_op_map [OF nodes_t.delivers_request [where x = ns and c = Upsert_Node and r = r and n = w, OF _ _ assms(2)], of Rq_Upsert_Node]
    by (simp add: request_codes)
next
  case (Rq_Delete_Node l)
  then show ?thesis
    using assms(1) delivers_op_map [OF label_t.delivers_request [where x = l and c = Delete_Node and r = r and n = w, OF _ _ assms(2)], of Rq_Delete_Node]
    by (simp add: request_codes)
next
  case (Rq_Get_Page_Tree l)
  then show ?thesis
    using assms(1) delivers_op_map [OF label_t.delivers_request [where x = l and c = Get_Page_Tree and r = r and n = w, OF _ _ assms(2)], of Rq_Get_Page_Tree]
    by (simp add: request_codes)
next
  case (Rq_Query_Nodes l)
  then show ?thesis
    using assms(1) delivers_op_map [OF label_t.delivers_request [where x = l and c = Query_Nodes and r = r and n = w, OF _ _ assms(2)], of Rq_Query_Nodes]
    by (simp add: request_codes)
next
  case (Rq_Open_Layer n)
  then show ?thesis
    using assms(1) delivers_op_map [OF layer_t.delivers_request [where x = n and c = Open_Transaction_Layer and r = r and n = w, OF _ _ assms(2)], of Rq_Open_Layer]
    by (simp add: request_codes)
next
  case Rq_Close_Layers
  then show ?thesis
    by (simp add: request_codes) (rule empty_request [OF _ assms(2)]; simp add: op_map_def decode_closeTransactionLayersRequest_def)
next
  case (Rq_Apply t)
  then show ?thesis
    using assms(1) delivers_op_map [OF transaction_t.delivers_request [where x = t and c = Apply_Transaction and r = r and n = w, OF _ _ assms(2)], of Rq_Apply]
    by (simp add: request_codes)
next
  case Rq_Full_Tree
  then show ?thesis
    by (simp add: request_codes) (rule empty_request [OF _ assms(2)]; simp add: op_map_def decode_getFullTreeRequest_def)
next
  case (Rq_Register nm l b)
  then show ?thesis
    using assms(1) delivers_op_map [OF listener_t.delivers_request [where x = "(nm, l, b)" and c = Register_Listener and r = r and n = w, OF _ _ assms(2)], of "\<lambda>(nm, l, b). Rq_Register nm l b"]
    by (simp add: request_codes listener_text_def flag_text_def)
next
  case (Rq_Deregister nm l)
  then show ?thesis
    using assms(1) delivers_op_map [OF unlisten_t.delivers_request [where x = "(nm, l)" and c = Deregister_Listener and r = r and n = w, OF _ _ assms(2)], of "\<lambda>(nm, l). Rq_Deregister nm l"]
    by (simp add: request_codes unlisten_text_def)
next
  case (Rq_Notify l n)
  then show ?thesis
    using assms(1) delivers_op_map [OF notice_t.delivers_request [where x = "(l, n)" and c = Notify_Listeners and r = r and n = w, OF _ _ assms(2)], of "\<lambda>(l, n). Rq_Notify l n"]
    by (simp add: request_codes encode_notice_def decode_notice_def [abs_def])
next
  case Rq_Process
  then show ?thesis
    using delivers_op_map [OF empty_t.delivers_request [where c = Process_Notification and r = r and n = w, OF _ _ assms(2)], of "\<lambda>_. Rq_Process"]
    by (simp add: request_codes)
next
  case (Rq_Journal sn)
  then show ?thesis
    using assms(1) delivers_op_map [OF delivers_marking [OF journal_t.delivers_request [where x = sn and c = Get_Journal and r = r and n = w, OF _ _ assms(2)]], of Rq_Journal]
    by (simp add: request_codes journal_key_def)
qed

text \<open>
  Every request the wire can carry is delivered: a client message encodes it, the server's message
  accepts the chunks one by one, is complete exactly after the last one, and decodes what was sent.
\<close>

theorem requests_delivered:
  assumes "request_sendable q" and "fresh_request w"
  shows "delivers_request (request_call q) (send_request q) (receive_request (request_call q)) r w (received_request r q)"
  by (rule requests_delivered_core [OF assms])

lemmas response_codes = encode_getNodeResponse_def decode_getNodeResponse_def encode_upsertNodeResponse_def
  decode_upsertNodeResponse_def encode_deleteNodeResponse_def decode_deleteNodeResponse_def
  encode_getPageTreeResponse_def decode_getPageTreeResponse_def encode_getQueryNodesResponse_def
  decode_getQueryNodesResponse_def encode_openTransactionLayerResponse_def decode_openTransactionLayerResponse_def
  encode_closeTransactionLayersResponse_def decode_closeTransactionLayersResponse_def
  encode_applyTransactionResponse_def decode_applyTransactionResponse_def encode_getFullTreeResponse_def
  decode_getFullTreeResponse_def encode_registerNodeListenerResponse_def decode_registerNodeListenerResponse_def
  encode_deregisterNodeListenerResponse_def decode_deregisterNodeListenerResponse_def
  encode_notifyListenersResponse_def decode_notifyListenersResponse_def encode_processNotificationResponse_def
  decode_processNotificationResponse_def encode_getJournalResponse_def decode_getJournalResponse_def

lemma response_ready_simps [simp]:
  "response_ready Get_Node = can_decode_MaybeTreeNode 0"
  "response_ready Upsert_Node = can_decode_label 0"
  "response_ready Delete_Node = can_decode_label 0"
  "response_ready Get_Page_Tree = can_decode_VectorTreeNode 0"
  "response_ready Query_Nodes = can_decode_VectorTreeNode 0"
  "response_ready Open_Transaction_Layer = can_decode_label 0"
  "response_ready Close_Transaction_Layers = can_decode_label 0"
  "response_ready Apply_Transaction = can_decode_label 0"
  "response_ready Get_Full_Tree = can_decode_VectorTreeNode 0"
  "response_ready Register_Listener = can_decode_label 0"
  "response_ready Deregister_Listener = can_decode_label 0"
  "response_ready Notify_Listeners = can_decode_label 0"
  "response_ready Process_Notification = can_decode_label 0"
  "response_ready Get_Journal = can_decode_VectorSequentialNotification 0"
  by (simp_all add: fun_eq_iff)

lemma delivers_response_marking:
  assumes "delivers_response answer rcv m n y"
  shows "delivers_response (marking_journal answer) (marking_journal rcv) m n y"
proof -
  obtain m1 where m: "answer m = (m1, Inr ())" "response_complete m1"
    and d: "length (response_chunks m1) < 2 ^ 64 \<longrightarrow> (\<forall>k \<le> length (response_chunks m1).
      \<exists>n1. feed pushResponseChunk (take k (response_chunks m1)) n = (n1, Inr ()) \<and>
         (response_complete n1 \<longleftrightarrow> k = length (response_chunks m1)) \<and>
         (k = length (response_chunks m1) \<longrightarrow> snd (rcv n1) = Inr y \<and> processing_finished (fst (rcv n1))))"
    using assms unfolding delivers_response_def by blast
  have "snd (rcv n1) = Inr y \<and> processing_finished (fst (rcv n1)) \<Longrightarrow>
      snd (marking_journal rcv n1) = Inr y \<and> processing_finished (fst (marking_journal rcv n1))" for n1
    by (auto simp: marking_journal_def split: prod.splits sum.splits)
  moreover have "marking_journal answer m = (m1\<lparr>is_journal_request := True\<rparr>, Inr ())"
    using m(1) by (simp add: marking_journal_def)
  ultimately show ?thesis
    unfolding delivers_response_def using m d
    by (intro exI [of _ "m1\<lparr>is_journal_request := True\<rparr>"]) (simp, blast)
qed

lemma responses_delivered_core:
  assumes "response_sendable a" and "response_chunks m = []" and "response_chunks n = []"
    and "\<not> response_complete n"
  shows "delivers_response (send_response a) (receive_response (response_call a)) m n
    (received_response (msg_request_id m) a)"
proof (cases a)
  case (Rs_Get_Node x)
  then show ?thesis
    using assms(1) delivers_response_map [OF node_t.delivers_response [where x = x and c = Get_Node and m = m and n = n, OF _ _ assms(2-4)], of Rs_Get_Node]
    by (simp add: response_codes)
next
  case (Rs_Upsert_Node x)
  then show ?thesis
    using assms(1) delivers_response_map [OF flag_t.delivers_response [where x = x and c = Upsert_Node and m = m and n = n, OF _ _ assms(2-4)], of Rs_Upsert_Node]
    by (simp add: response_codes)
next
  case (Rs_Delete_Node x)
  then show ?thesis
    using assms(1) delivers_response_map [OF flag_t.delivers_response [where x = x and c = Delete_Node and m = m and n = n, OF _ _ assms(2-4)], of Rs_Delete_Node]
    by (simp add: response_codes)
next
  case (Rs_Get_Page_Tree x)
  then show ?thesis
    using assms(1) delivers_response_map [OF nodes_t.delivers_response [where x = x and c = Get_Page_Tree and m = m and n = n, OF _ _ assms(2-4)], of Rs_Get_Page_Tree]
    by (simp add: response_codes)
next
  case (Rs_Query_Nodes x)
  then show ?thesis
    using assms(1) delivers_response_map [OF nodes_t.delivers_response [where x = x and c = Query_Nodes and m = m and n = n, OF _ _ assms(2-4)], of Rs_Query_Nodes]
    by (simp add: response_codes)
next
  case (Rs_Open_Layer x)
  then show ?thesis
    using assms(1) delivers_response_map [OF flag_t.delivers_response [where x = x and c = Open_Transaction_Layer and m = m and n = n, OF _ _ assms(2-4)], of Rs_Open_Layer]
    by (simp add: response_codes)
next
  case (Rs_Close_Layers x)
  then show ?thesis
    using assms(1) delivers_response_map [OF flag_t.delivers_response [where x = x and c = Close_Transaction_Layers and m = m and n = n, OF _ _ assms(2-4)], of Rs_Close_Layers]
    by (simp add: response_codes)
next
  case (Rs_Apply x)
  then show ?thesis
    using assms(1) delivers_response_map [OF flag_t.delivers_response [where x = x and c = Apply_Transaction and m = m and n = n, OF _ _ assms(2-4)], of Rs_Apply]
    by (simp add: response_codes)
next
  case (Rs_Full_Tree x)
  then show ?thesis
    using assms(1) delivers_response_map [OF nodes_t.delivers_response [where x = x and c = Get_Full_Tree and m = m and n = n, OF _ _ assms(2-4)], of Rs_Full_Tree]
    by (simp add: response_codes)
next
  case (Rs_Register x)
  then show ?thesis
    using assms(1) delivers_response_map [OF flag_t.delivers_response [where x = x and c = Register_Listener and m = m and n = n, OF _ _ assms(2-4)], of Rs_Register]
    by (simp add: response_codes)
next
  case (Rs_Deregister x)
  then show ?thesis
    using assms(1) delivers_response_map [OF flag_t.delivers_response [where x = x and c = Deregister_Listener and m = m and n = n, OF _ _ assms(2-4)], of Rs_Deregister]
    by (simp add: response_codes)
next
  case (Rs_Notify x)
  then show ?thesis
    using assms(1) delivers_response_map [OF flag_t.delivers_response [where x = x and c = Notify_Listeners and m = m and n = n, OF _ _ assms(2-4)], of Rs_Notify]
    by (simp add: response_codes)
next
  case Rs_Process
  then show ?thesis
    using assms(1) delivers_response_map [OF empty_t.delivers_response [where c = Process_Notification and m = m and n = n, OF _ _ assms(2-4)], of "\<lambda>_. Rs_Process"]
    by (simp add: response_codes)
next
  case (Rs_Journal x)
  then show ?thesis
    using assms(1) delivers_response_map [OF delivers_response_marking [OF notifications_t.delivers_response [where x = x and c = Get_Journal and m = m and n = n, OF _ _ assms(2-4)]], of Rs_Journal]
    by (simp add: response_codes)
qed

text \<open>
  Every answer the wire can carry is delivered: the server's message encodes it under the signal of
  its call, the client's message accepts the chunks one by one, is complete exactly after the last one,
  decodes the answer and is then finished.
\<close>

theorem responses_delivered:
  assumes "response_sendable a" and "response_chunks m = []" and "response_chunks n = []"
    and "\<not> response_complete n"
  shows "delivers_response (send_response a) (receive_response (response_call a)) m n
    (received_response (msg_request_id m) a)"
  by (rule responses_delivered_core [OF assms])

lemma printed_example_sendable: "node_sendable printed_example"
proof -
  have p: "node_printable printed_example"
    by (simp add: printed_example_def node_printable_def version_printable_def word_ok_def no_space_def
        info_printable_def child_printable_def with_default_def)
  have l: "length (node_text printed_example) = 390"
    by code_simp
  have c: "length (vs_chunks (property_data printed_example)) = 1"
    by (simp add: printed_example_def vs_of_data_def chunk_size_def)
  show ?thesis
    by (simp add: node_sendable_def p l c content_count_def string_sendable_def payload_max_def chunk_size_def)
qed

theorem requests_delivered_witness:
  "delivers_request Open_Transaction_Layer (send_request (Rq_Open_Layer printed_example)) (receive_request Open_Transaction_Layer) 4
     (message_new 4 0x11) (Rq_Open_Layer (received_node 4 0x11 printed_example))"
  using requests_delivered [of "Rq_Open_Layer printed_example" "message_new 4 0x11" 4] printed_example_sendable
  by (simp add: fresh_request_def message_new_def)

theorem responses_delivered_witness:
  "delivers_response (send_response (Rs_Get_Page_Tree [printed_example])) (receive_response Get_Page_Tree)
     (message_new 4 0x0D) (message_new 4 0x0D) (Rs_Get_Page_Tree [received_node 4 0x0E printed_example])"
  using responses_delivered [of "Rs_Get_Page_Tree [printed_example]" "message_new 4 0x0D" "message_new 4 0x0D"]
    printed_example_sendable
  by (simp add: message_new_def vector_sendable_def)

end
