(* ===== verification/Http3_Server.thy ===== *)
theory Http3_Server
  imports Http3_Calls Backend_Interface
begin

text \<open>
  The server side (\<open>common/frontend/http3_server_cpp/http3_server.h\<close> and \<open>.cpp\<close>): a route holds a
  backend, the messages of its streams and a journal of the notifications its listeners produced. The
  listener's callback of a route has a number, the argument \<open>me\<close>; when an operation of the backend
  reports that the callback was called, the route appends to the journal, as the callback does.
\<close>

section \<open>Stream identifiers\<close>

datatype stream_id = Stream_Id (si_cid: string) (si_logical: u16)

instantiation stream_id :: linorder
begin

definition less_stream_id :: "stream_id \<Rightarrow> stream_id \<Rightarrow> bool" where
  "less_stream_id a b \<longleftrightarrow>
     (if si_cid a < si_cid b then True else if si_cid b < si_cid a then False else si_logical a < si_logical b)"

definition less_eq_stream_id :: "stream_id \<Rightarrow> stream_id \<Rightarrow> bool" where
  "less_eq_stream_id a b \<longleftrightarrow> a < b \<or> a = (b :: stream_id)"

instance
proof
  fix a b :: stream_id
  show "a \<le> b \<or> b \<le> a"
    by (cases a; cases b) (auto simp: less_stream_id_def less_eq_stream_id_def)
qed (auto simp: less_stream_id_def less_eq_stream_id_def split: if_splits)

end

section \<open>Routes\<close>

record 's route =
  rt_backend :: 's
  ongoing :: "(stream_id \<times> message) list"
  last_notification_index :: u64
  journal :: "sequential_notification list"
  listening :: "(string \<times> bool) list"
  max_journal :: nat
  rt_url :: string
  mutable_page_label :: string

definition route_new :: "'s \<Rightarrow> nat \<Rightarrow> string \<Rightarrow> string \<Rightarrow> 's route" where
  "route_new s n url page = \<lparr>rt_backend = s, ongoing = [], last_notification_index = 0,
     journal = [(0, '''', None)], listening = [], max_journal = n, rt_url = url, mutable_page_label = page\<rparr>"

text \<open>The listener's callback.\<close>

definition journal_push :: "nat \<Rightarrow> notification \<Rightarrow> sequential_notification list \<Rightarrow> sequential_notification list" where
  "journal_push n x j =
     (let j' = j @ [(if 0 < length j then fst (last j) + 1 else 0, x)] in
      if n < length j' then tl j' else j')"

fun journal_event :: "nat \<Rightarrow> event \<Rightarrow> 's route \<Rightarrow> 's route" where
  "journal_event me (Called i l m) rt =
     (if i = me then rt\<lparr>journal := journal_push (max_journal rt) (l, m) (journal rt)\<rparr> else rt)"
| "journal_event me (Queued i cb l m) rt = rt"

definition journal_events :: "nat \<Rightarrow> event list \<Rightarrow> 's route \<Rightarrow> 's route" where
  "journal_events me es rt = fold (journal_event me) es rt"

text \<open>Actions on the route and the message at hand.\<close>

type_synonym ('s, 'a) server_act = "('s route \<times> message, 'a) act"

definition on_message :: "'a msg_op \<Rightarrow> ('s, 'a) server_act" where
  "on_message f = (\<lambda>(rt, m). case f m of (m', r) \<Rightarrow> ((rt, m'), [], r))"

definition on_route :: "('s route, 'a) act \<Rightarrow> ('s, 'a) server_act" where
  "on_route f = (\<lambda>(rt, m). case f rt of (rt', es, r) \<Rightarrow> ((rt', m), es, r))"

definition on_backend :: "nat \<Rightarrow> ('s, 'a) act \<Rightarrow> ('s route, 'a) act" where
  "on_backend me f rt =
     (case f (rt_backend rt) of (s, es, r) \<Rightarrow> (journal_events me es (rt\<lparr>rt_backend := s\<rparr>), es, r))"

definition ask_backend :: "('s \<Rightarrow> 'a result) \<Rightarrow> ('s route, 'a) act" where
  "ask_backend f rt = (rt, [], f (rt_backend rt))"

definition ask_route :: "('s route \<Rightarrow> 'a) \<Rightarrow> ('s route, 'a) act" where
  "ask_route f rt = (rt, [], Inr (f rt))"

definition change_route :: "('s route \<Rightarrow> 's route) \<Rightarrow> ('s route, unit) act" where
  "change_route f rt = (f rt, [], Inr ())"

text \<open>
  \<open>std::lower_bound\<close>: the elements before and from the position it gives, undefined when the elements
  below the bound do not all come first.
\<close>

definition lower_bound :: "('a \<Rightarrow> bool) \<Rightarrow> 'a list \<Rightarrow> ('a list \<times> 'a list) result" where
  "lower_bound below xs =
     (let rest = dropWhile below xs in
      if list_ex below rest then Inl Undefined_Behaviour else Inr (takeWhile below xs, rest))"

text \<open>The child names with one more in its place, \<open>None\<close> when it is there.\<close>

definition insert_child :: "string \<Rightarrow> string list \<Rightarrow> string list option result" where
  "insert_child l cs =
     rbind (lower_bound (\<lambda>c. c < l) cs) (\<lambda>(before, rest).
       Inr (if rest = [] \<or> hd rest \<noteq> l then Some (before @ l # rest) else None))"

text \<open>A label is listened to once for all clients, and is a child of the mutable page.\<close>

definition note_mutable_page :: "'s backend_ops \<Rightarrow> nat \<Rightarrow> string \<Rightarrow> ('s route, unit) act" where
  "note_mutable_page ops me lbl =
     act_bind (ask_route mutable_page_label) (\<lambda>page. act_bind (ask_backend (b_get_node ops page)) (\<lambda>found.
       case found of
         Some n \<Rightarrow>
           act_bind (act_lift (insert_child lbl (child_names n))) (\<lambda>added.
             case added of
               None \<Rightarrow> act_return ()
             | Some cs \<Rightarrow> act_bind (on_backend me (b_upsert ops [n\<lparr>child_names := cs\<rparr>])) (\<lambda>_. act_return ()))
       | None \<Rightarrow>
           act_bind (on_backend me (b_upsert ops
             [(node_default vs_empty)\<lparr>label_rule := page, child_names := [lbl]\<rparr>])) (\<lambda>_. act_return ())))"

definition register_label :: "'s backend_ops \<Rightarrow> nat \<Rightarrow> string \<Rightarrow> bool \<Rightarrow> ('s route, unit) act" where
  "register_label ops me lbl child =
     act_bind (ask_route listening) (\<lambda>ls.
       if map_of ls lbl = None \<or> (child \<and> map_of ls lbl = Some False) then
         act_bind (change_route (\<lambda>rt. rt\<lparr>listening := omap_insert lbl child (listening rt)\<rparr>)) (\<lambda>_.
         act_bind (ask_route rt_url) (\<lambda>url.
         act_bind (on_backend me (b_register ops url lbl child (User me))) (\<lambda>_.
         note_mutable_page ops me lbl)))
       else act_return ())"

text \<open>
  The journal's answer: everything from the client's last number on, its own entry included, or three
  marks when the number lies outside the journal. \<open>rbegin()\<close> of an empty journal is undefined.
\<close>

definition journal_answer :: "u64 \<Rightarrow> sequential_notification list \<Rightarrow> sequential_notification list result" where
  "journal_answer i j =
     rbind (lower_bound (\<lambda>n. fst n < i) j) (\<lambda>(_, found).
       if j = [] then Inl Undefined_Behaviour
       else if (found = [] \<and> i \<noteq> fst (last j)) \<or> i < fst (hd j)
       then Inr [(0, '''', None), (2, '''', None), (fst (last j), '''', None)]
       else Inr found)"

definition answer_call :: "'s backend_ops \<Rightarrow> nat \<Rightarrow> call \<Rightarrow> ('s, unit) server_act" where
  "answer_call ops me c =
     (case c of
        Get_Node \<Rightarrow>
          act_bind (on_message decode_getNodeRequest) (\<lambda>l. act_bind (on_route (ask_backend (b_get_node ops l))) (\<lambda>n.
            on_message (encode_getNodeResponse n)))
      | Upsert_Node \<Rightarrow>
          act_bind (on_message decode_upsertNodeRequest) (\<lambda>ns. act_bind (on_route (on_backend me (b_upsert ops ns))) (\<lambda>_.
            on_message (encode_upsertNodeResponse True)))
      | Delete_Node \<Rightarrow>
          act_bind (on_message decode_deleteNodeRequest) (\<lambda>l. act_bind (on_route (on_backend me (b_delete ops l))) (\<lambda>_.
            on_message (encode_deleteNodeResponse True)))
      | Get_Page_Tree \<Rightarrow>
          act_bind (on_message decode_getPageTreeRequest) (\<lambda>l. act_bind (on_route (ask_backend (b_page_tree ops l))) (\<lambda>ns.
            on_message (encode_getPageTreeResponse ns)))
      | Query_Nodes \<Rightarrow>
          act_bind (on_message decode_getQueryNodesRequest) (\<lambda>l. act_bind (on_route (ask_backend (b_query ops l))) (\<lambda>ns.
            on_message (encode_getQueryNodesResponse ns)))
      | Open_Transaction_Layer \<Rightarrow>
          act_bind (on_message decode_openTransactionLayerRequest) (\<lambda>n. act_bind (on_route (on_backend me (b_open_layer ops n))) (\<lambda>_.
            on_message (encode_openTransactionLayerResponse True)))
      | Close_Transaction_Layers \<Rightarrow>
          act_bind (on_route (on_backend me (b_close_layers ops))) (\<lambda>_.
            on_message (encode_closeTransactionLayersResponse True))
      | Apply_Transaction \<Rightarrow>
          act_bind (on_message decode_applyTransactionRequest) (\<lambda>t. act_bind (on_route (on_backend me (b_apply ops t))) (\<lambda>_.
            on_message (encode_applyTransactionResponse True)))
      | Get_Full_Tree \<Rightarrow>
          act_bind (on_route (ask_backend (b_full_tree ops))) (\<lambda>ns. on_message (encode_getFullTreeResponse ns))
      | Register_Listener \<Rightarrow>
          act_bind (on_message decode_registerNodeListenerRequest) (\<lambda>(_, lbl, child).
            act_bind (on_route (register_label ops me lbl child)) (\<lambda>_. on_message (encode_registerNodeListenerResponse True)))
      | Deregister_Listener \<Rightarrow>
          act_bind (on_message decode_deregisterNodeListenerRequest) (\<lambda>_.
            on_message (encode_deregisterNodeListenerResponse False))
      | Notify_Listeners \<Rightarrow>
          act_bind (on_message decode_notifyListenersRequest) (\<lambda>(l, n).
            act_bind (on_route (on_backend me (b_notify ops l n))) (\<lambda>_. on_message (encode_notifyListenersResponse True)))
      | Process_Notification \<Rightarrow>
          act_bind (on_route (on_backend me (b_process ops))) (\<lambda>_. on_message encode_processNotificationResponse)
      | Get_Journal \<Rightarrow>
          act_bind (on_message decode_getJournalRequest) (\<lambda>sn. act_bind (on_route (ask_route journal)) (\<lambda>j.
            act_bind (act_lift (journal_answer (fst sn) j)) (\<lambda>ns. on_message (encode_getJournalResponse ns)))))"

definition build_response :: "'s backend_ops \<Rightarrow> nat \<Rightarrow> ('s, unit) server_act" where
  "build_response ops me = (\<lambda>(rt, m).
     case call_of_request (msg_signal m) of
       None \<Rightarrow> ((rt, m), [], Inl (Invalid_Argument ''Unknown signal''))
     | Some c \<Rightarrow> answer_call ops me c (rt, m))"

section \<open>Streams\<close>

definition initialize_message :: "stream_id \<Rightarrow> chunk_list \<Rightarrow> message result" where
  "initialize_message sid request =
     (case request of
        [] \<Rightarrow> Inl Undefined_Behaviour
      | c # _ \<Rightarrow>
          rbind (vs_request_id c) (\<lambda>r.
            if si_logical sid \<noteq> r then Inl (Invalid_Argument ''Stream logical ID does not match request ID'')
            else rbind (vs_signal c) (\<lambda>sig. Inr (message_new (si_logical sid) sig))))"

text \<open>The chunks of a request into its message; heartbeats are skipped.\<close>

fun take_in :: "chunk_list \<Rightarrow> unit msg_op" where
  "take_in [] m = (m, Inr ())"
| "take_in (c # cs) m =
     (case vs_payload_header c of
        Inl e \<Rightarrow> (m, Inl e)
      | Inr h \<Rightarrow>
          if h_signal h = signal_heartbeat then take_in cs m
          else (case pushRequestChunk c m of (m1, Inl e) \<Rightarrow> (m1, Inl e) | (m1, Inr _) \<Rightarrow> take_in cs m1))"

function drain :: "message \<Rightarrow> message \<times> chunk_list" where
  "drain m =
     (case popResponseChunk m of
        (m1, None) \<Rightarrow> (m1, [])
      | (m1, Some c) \<Rightarrow> (case drain m1 of (m2, cs) \<Rightarrow> (m2, c # cs)))"
  by pat_completeness auto
termination drain
  by (relation "measure (\<lambda>m. length (response_chunks m))")
    (auto simp: popResponseChunk_def split: list.splits if_splits)

declare drain.simps [simp del]

text \<open>A chunk that closes the stream; \<open>fresh\<close> is what its memory holds.\<close>

definition close_chunk :: "stream_id \<Rightarrow> byte list \<Rightarrow> vspan" where
  "close_chunk sid fresh =
     \<lparr>vs_chunks = [\<lparr>vc_head = Signal_Header signal_close_stream (si_logical sid), vc_data = fresh\<rparr>], vs_type = 1\<rparr>"

definition closes :: "chunk_list \<Rightarrow> bool result" where
  "closes request =
     (if length request = 1 \<and> vs_type (hd request) = 1
      then rbind (vs_signal (hd request)) (\<lambda>s. Inr (s = signal_close_stream)) else Inr False)"

definition keep_message :: "stream_id \<Rightarrow> message \<Rightarrow> 's route \<Rightarrow> 's route" where
  "keep_message sid m rt = rt\<lparr>ongoing := omap_insert sid m (ongoing rt)\<rparr>"

text \<open>One call on a stream that has a message and has not been answered yet.\<close>

definition serve :: "'s backend_ops \<Rightarrow> nat \<Rightarrow> chunk_list \<Rightarrow> ('s, chunk_list) server_act" where
  "serve ops me request =
     act_bind (on_message (take_in request)) (\<lambda>_ (rt, m).
       if \<not> request_complete m then ((rt, m), [], Inr [])
       else act_bind (\<lambda>(rt, m). if response_complete m then ((rt, m), [], Inr ()) else build_response ops me (rt, m))
              (\<lambda>_. on_message (\<lambda>m. case drain m of (m1, cs) \<Rightarrow> (m1, Inr cs))) (rt, m))"

definition process_response_stream ::
  "'s backend_ops \<Rightarrow> nat \<Rightarrow> byte list \<Rightarrow> stream_id \<Rightarrow> chunk_list \<Rightarrow> ('s route, chunk_list) act" where
  "process_response_stream ops me fresh sid request rt =
     (case (case map_of (ongoing rt) sid of
              Some m \<Rightarrow> Inr (Some m)
            | None \<Rightarrow> if request = [] then Inr None else rbind (initialize_message sid request) (\<lambda>m. Inr (Some m))) of
        Inl e \<Rightarrow> (rt, [], Inl e)
      | Inr None \<Rightarrow> (rt, [], Inr [])
      | Inr (Some m) \<Rightarrow>
          let rt1 = (if map_of (ongoing rt) sid = None then keep_message sid m rt else rt) in
          if processing_finished m then
            (case closes request of
               Inl e \<Rightarrow> (rt1, [], Inl e)
             | Inr b \<Rightarrow>
                 (if b then rt1\<lparr>ongoing := omap_erase sid (ongoing rt1)\<rparr> else rt1, [], Inr [close_chunk sid fresh]))
          else
            (case serve ops me request (rt1, m) of
               ((rt2, m2), es, r) \<Rightarrow> (keep_message sid m2 rt2, es, r)))"

section \<open>The server\<close>

record 's server =
  sv_name :: string
  sv_routes :: "(string \<times> 's route) list"
  static_assets :: "(string \<times> chunk_list) list"

definition is_chunk_stream :: "string \<Rightarrow> bool" where
  "is_chunk_stream url \<longleftrightarrow> str_find url ''wwatp/'' \<noteq> None"

definition static_asset :: "string \<Rightarrow> 's server \<Rightarrow> chunk_list" where
  "static_asset url sv = (case map_of (static_assets sv) url of Some cs \<Rightarrow> cs | None \<Rightarrow> [])"

definition omap_emplace :: "'k::linorder \<Rightarrow> 'v \<Rightarrow> ('k \<times> 'v) list \<Rightarrow> ('k \<times> 'v) list" where
  "omap_emplace k v m = (if map_of m k = None then omap_insert k v m else m)"

definition add_backend_route :: "'s \<Rightarrow> nat \<Rightarrow> string \<Rightarrow> 's server \<Rightarrow> 's server" where
  "add_backend_route s n url sv =
     sv\<lparr>sv_routes := omap_emplace url (route_new s n url ''MutableNodes'') (sv_routes sv)\<rparr>"

definition add_static_asset :: "string \<Rightarrow> chunk_list \<Rightarrow> 's server \<Rightarrow> 's server" where
  "add_static_asset url cs sv = sv\<lparr>static_assets := omap_emplace url cs (static_assets sv)\<rparr>"

record uri_response_info =
  can_handle :: bool
  is_live_stream :: bool
  is_file :: bool
  dyn_length :: nat

datatype responder = No_Responder | Route_Responder string | Asset_Responder string

definition get_response_callback :: "string \<Rightarrow> 's server \<Rightarrow> uri_response_info \<times> responder" where
  "get_response_callback path sv =
     (if str_find path ''wwatp/'' \<noteq> None then
        (case map_of (sv_routes sv) path of
           Some rt \<Rightarrow> (\<lparr>can_handle = True, is_live_stream = True, is_file = False, dyn_length = 0\<rparr>, Route_Responder path)
         | None \<Rightarrow> (\<lparr>can_handle = False, is_live_stream = False, is_file = False, dyn_length = 0\<rparr>, No_Responder))
      else
        (case map_of (static_assets sv) path of
           Some cs \<Rightarrow> (\<lparr>can_handle = True, is_live_stream = False, is_file = False,
                         dyn_length = sum_list (map vs_size cs)\<rparr>, Asset_Responder path)
         | None \<Rightarrow> (\<lparr>can_handle = False, is_live_stream = False, is_file = False, dyn_length = 0\<rparr>, No_Responder)))"

text \<open>Calling the responder of a path.\<close>

definition respond ::
  "'s backend_ops \<Rightarrow> nat \<Rightarrow> byte list \<Rightarrow> responder \<Rightarrow> stream_id \<Rightarrow> chunk_list \<Rightarrow> ('s server, chunk_list) act" where
  "respond ops me fresh rsp sid request sv =
     (case rsp of
        No_Responder \<Rightarrow> (sv, [], Inl Undefined_Behaviour)
      | Asset_Responder path \<Rightarrow> (sv, [], Inr (static_asset path sv))
      | Route_Responder path \<Rightarrow>
          (case map_of (sv_routes sv) path of
             None \<Rightarrow> (sv, [], Inl Undefined_Behaviour)
           | Some rt \<Rightarrow>
               (case process_response_stream ops me fresh sid request rt of
                  (rt', es, r) \<Rightarrow> (sv\<lparr>sv_routes := omap_insert path rt' (sv_routes sv)\<rparr>, es, r))))"

end
