(* ===== verification/Http_Request.thy ===== *)
theory Http_Request
  imports Prelude
begin

text \<open>
  The request that opens a stream (\<open>common/transport/include/request.h\<close>) and its order, under which it is
  the key of ordered maps.
\<close>

datatype http_request = Http_Request
  (rq_scheme: string) (rq_authority: string) (rq_path: string) (rq_method: string)
  (rq_urgency: int) (rq_inc: int)

definition is_wwatp :: "http_request \<Rightarrow> bool" where
  "is_wwatp r \<longleftrightarrow> str_find (rq_path r) ''wwatp/'' \<noteq> None"

text \<open>One field of the comparison: decide, or go on with the next field.\<close>

definition lex_then :: "'a::linorder \<Rightarrow> 'a \<Rightarrow> bool \<Rightarrow> bool" where
  "lex_then x y go_on \<longleftrightarrow> (if x < y then True else if x > y then False else go_on)"

lemma lex_then_same [simp]: "lex_then x x p \<longleftrightarrow> p"
  by (simp add: lex_then_def)

lemma lex_then_trans: "lex_then x y p \<Longrightarrow> lex_then y z q \<Longrightarrow> (p \<Longrightarrow> q \<Longrightarrow> r) \<Longrightarrow> lex_then x z r"
  by (auto simp: lex_then_def split: if_splits)

lemma lex_then_totalE: "\<not> lex_then x y p \<Longrightarrow> \<not> lex_then y x q \<Longrightarrow> (x = y \<Longrightarrow> \<not> p \<Longrightarrow> \<not> q \<Longrightarrow> R) \<Longrightarrow> R"
  by (auto simp: lex_then_def split: if_splits)

instantiation http_request :: linorder
begin

definition less_http_request :: "http_request \<Rightarrow> http_request \<Rightarrow> bool" where
  "less_http_request a b \<longleftrightarrow>
     lex_then (rq_path a) (rq_path b) (lex_then (rq_authority a) (rq_authority b)
       (lex_then (rq_scheme a) (rq_scheme b) (lex_then (rq_method a) (rq_method b)
         (lex_then (rq_urgency a) (rq_urgency b) (rq_inc a < rq_inc b)))))"

definition less_eq_http_request :: "http_request \<Rightarrow> http_request \<Rightarrow> bool" where
  "less_eq_http_request a b \<longleftrightarrow> a < b \<or> a = (b :: http_request)"

instance
proof
  have irrefl: "\<not> a < a" for a :: http_request
    by (simp add: less_http_request_def)
  have trans: "a < c" if "a < b" "b < c" for a b c :: http_request
    using that unfolding less_http_request_def
    by - ((erule (1) lex_then_trans)+, erule (1) less_trans)
  fix a b c :: http_request
  show "a < b \<longleftrightarrow> a \<le> b \<and> \<not> b \<le> a"
    using irrefl trans by (auto simp: less_eq_http_request_def)
  show "a \<le> a" by (simp add: less_eq_http_request_def)
  show "a \<le> b \<Longrightarrow> b \<le> c \<Longrightarrow> a \<le> c" using trans by (auto simp: less_eq_http_request_def)
  show "a \<le> b \<Longrightarrow> b \<le> a \<Longrightarrow> a = b" using irrefl trans by (auto simp: less_eq_http_request_def)
  show "a \<le> b \<or> b \<le> a"
  proof (rule ccontr)
    assume n: "\<not> (a \<le> b \<or> b \<le> a)"
    then have "\<not> a < b" "\<not> b < a" by (auto simp: less_eq_http_request_def)
    then have "a = b"
      unfolding less_http_request_def
      by - ((erule (1) lex_then_totalE)+, rule http_request.expand, simp)
    then show False using n by (simp add: less_eq_http_request_def)
  qed
qed

end

end
