(* ===== verification/Http3_Client.thy ===== *)
theory Http3_Client
  imports Http3_Server Http_Request
begin

text \<open>
  The client side (\<open>common/backend_cpp/http3_client/http3_client_backend.h\<close> and \<open>.cpp\<close>): a backend that keeps
  a local replica and sends what changes it to a server. An operation of a client in blocking mode stops
  in the middle and waits; it is split there, \<open>Blocked w\<close> says what it waits for and \<open>resume\<close> is the rest
  of it. Times are \<open>double\<close>s; the two tests on them are an argument, \<open>clock\<close>.
\<close>

section \<open>State\<close>

record ('s, 't) client =
  local_backend :: 's
  need_page_sync :: bool
  last_notification :: sequential_notification
  mutable_page_rule :: string
  server_sync :: bool
  blocking :: bool
  answer_ready :: bool
  bool_response :: bool
  maybe_tree_response :: "vnode option"
  vector_tree_response :: "vnode list"
  chunks_response :: chunk_list
  url_info :: http_request
  pending_requests :: "message list"
  journal_rate :: nat
  last_journal_time :: 't
  journal_waiting :: bool
  static_node :: "vnode option"
  notification_block :: bool

text \<open>\<open>0.0\<close>, \<open>2.0\<close>, \<open>t <= 1.0\<close> and \<open>(t - last) * rate > 60.0\<close>.\<close>

record 't clock =
  clock_zero :: 't
  clock_two :: 't
  clock_unset :: "'t \<Rightarrow> bool"
  clock_due :: "'t \<Rightarrow> 't \<Rightarrow> nat \<Rightarrow> bool"

datatype waiting =
    Wait_Bool
  | Wait_Layer
  | Wait_Transaction "vspan transaction"
  | Wait_Full_Tree
  | Wait_Static
  | Wait_Page_Tree
  | Wait_Process
  | Wait_Stale_Journal
  | Wait_Journal

datatype 'a outcome = Returned 'a | Blocked waiting

type_synonym ('s, 't, 'a) client_act = "(('s, 't) client, 'a) act"

definition on_local :: "('s, 'a) act \<Rightarrow> ('s, 't, 'a) client_act" where
  "on_local f c = (case f (local_backend c) of (s, es, r) \<Rightarrow> (c\<lparr>local_backend := s\<rparr>, es, r))"

definition ask_local :: "('s \<Rightarrow> 'a result) \<Rightarrow> ('s, 't, 'a) client_act" where
  "ask_local f c = (c, [], f (local_backend c))"

definition ask :: "(('s, 't) client \<Rightarrow> 'a) \<Rightarrow> ('s, 't, 'a) client_act" where
  "ask f c = (c, [], Inr (f c))"

definition change :: "(('s, 't) client \<Rightarrow> ('s, 't) client) \<Rightarrow> ('s, 't, unit) client_act" where
  "change f c = (f c, [], Inr ())"

section \<open>Requests\<close>

text \<open>A request of the right kind at the end of the queue; an encoder that throws leaves the queue alone.\<close>

definition enqueue :: "unit msg_op \<Rightarrow> ('s, 't, unit) client_act" where
  "enqueue enc c =
     (case enc (message_new 0 0) of
        (_, Inl e) \<Rightarrow> (c, [], Inl e)
      | (m, Inr _) \<Rightarrow> (c\<lparr>pending_requests := pending_requests c @ [m]\<rparr>, [], Inr ()))"

definition enqueue_if_synced :: "unit msg_op \<Rightarrow> ('s, 't, unit) client_act" where
  "enqueue_if_synced enc = act_bind (ask server_sync) (\<lambda>on. if on then enqueue enc else act_return ())"

text \<open>
  What the changing operations do after the local one: nothing when not synchronising, else send, and
  wait for the server's answer in blocking mode.
\<close>

definition send_and_wait :: "unit msg_op \<Rightarrow> waiting \<Rightarrow> 'a \<Rightarrow> ('s, 't, 'a outcome) client_act" where
  "send_and_wait enc w r =
     act_bind (ask server_sync) (\<lambda>on.
       if \<not> on then act_return (Returned r)
       else act_bind (enqueue enc) (\<lambda>_. act_bind (ask blocking) (\<lambda>b.
              act_return (if b then Blocked w else Returned r))))"

section \<open>The backend operations\<close>

definition client_get_node :: "'s backend_ops \<Rightarrow> string \<Rightarrow> ('s, 't) client \<Rightarrow> vnode option result" where
  "client_get_node ops l c = b_get_node ops l (local_backend c)"

definition client_upsert :: "'s backend_ops \<Rightarrow> vnode list \<Rightarrow> ('s, 't, bool outcome) client_act" where
  "client_upsert ops ns =
     act_bind (on_local (b_upsert ops ns)) (send_and_wait (encode_upsertNodeRequest ns) Wait_Bool)"

definition client_delete :: "'s backend_ops \<Rightarrow> string \<Rightarrow> ('s, 't, bool outcome) client_act" where
  "client_delete ops l =
     act_bind (on_local (b_delete ops l)) (send_and_wait (encode_deleteNodeRequest l) Wait_Bool)"

definition client_page_tree :: "'s backend_ops \<Rightarrow> string \<Rightarrow> ('s, 't) client \<Rightarrow> vnode list result" where
  "client_page_tree ops l c = b_page_tree ops l (local_backend c)"

definition client_relative_page_tree ::
  "'s backend_ops \<Rightarrow> vnode \<Rightarrow> string \<Rightarrow> ('s, 't) client \<Rightarrow> vnode list result" where
  "client_relative_page_tree ops n l c = client_page_tree ops (label_rule n @ ''/'' @ l) c"

definition client_query :: "'s backend_ops \<Rightarrow> string \<Rightarrow> ('s, 't) client \<Rightarrow> vnode list result" where
  "client_query ops l c = b_query ops l (local_backend c)"

definition client_relative_query ::
  "'s backend_ops \<Rightarrow> vnode \<Rightarrow> string \<Rightarrow> ('s, 't) client \<Rightarrow> vnode list result" where
  "client_relative_query ops n l c = client_query ops (label_rule n @ ''/'' @ l) c"

definition client_open_layer :: "'s backend_ops \<Rightarrow> vnode \<Rightarrow> ('s, 't, bool outcome) client_act" where
  "client_open_layer ops n =
     act_bind (on_local (b_open_layer ops n)) (\<lambda>r.
       if \<not> r then act_return (Returned False)
       else send_and_wait (encode_openTransactionLayerRequest n) Wait_Layer r)"

definition client_close_layers :: "'s backend_ops \<Rightarrow> ('s, 't, bool outcome) client_act" where
  "client_close_layers ops =
     act_bind (on_local (b_close_layers ops)) (send_and_wait encode_closeTransactionLayersRequest Wait_Bool)"

definition client_apply :: "'s backend_ops \<Rightarrow> vspan transaction \<Rightarrow> ('s, 't, bool outcome) client_act" where
  "client_apply ops tr =
     act_bind (enqueue_if_synced (encode_applyTransactionRequest tr)) (\<lambda>_.
     act_bind (ask (\<lambda>c. \<not> blocking c \<or> \<not> server_sync c)) (\<lambda>alone.
       if alone then act_bind (on_local (b_apply ops tr)) (\<lambda>r. act_return (Returned r))
       else act_return (Blocked (Wait_Transaction tr))))"

definition client_full_tree :: "'s backend_ops \<Rightarrow> ('s, 't) client \<Rightarrow> vnode list result" where
  "client_full_tree ops c = b_full_tree ops (local_backend c)"

text \<open>The callback registered locally passes its label and node on to the given one.\<close>

definition client_register ::
  "'s backend_ops \<Rightarrow> string \<Rightarrow> string \<Rightarrow> bool \<Rightarrow> callback \<Rightarrow> ('s, 't, unit) client_act" where
  "client_register ops name l child cb =
     act_bind (on_local (b_register ops name l child cb)) (\<lambda>_.
       enqueue_if_synced (encode_registerNodeListenerRequest name l child))"

definition client_deregister :: "'s backend_ops \<Rightarrow> string \<Rightarrow> string \<Rightarrow> ('s, 't, unit) client_act" where
  "client_deregister ops name l =
     act_bind (on_local (b_deregister ops name l)) (\<lambda>_.
       enqueue_if_synced (encode_deregisterNodeListenerRequest name l))"

definition client_notify :: "'s backend_ops \<Rightarrow> string \<Rightarrow> vnode option \<Rightarrow> ('s, 't, unit) client_act" where
  "client_notify ops l m =
     act_bind (on_local (b_notify ops l m)) (\<lambda>_. enqueue_if_synced (encode_notifyListenersRequest l m))"

definition client_process :: "'s backend_ops \<Rightarrow> ('s, 't, unit outcome) client_act" where
  "client_process ops =
     act_bind (change (\<lambda>c. c\<lparr>notification_block := True\<rparr>)) (\<lambda>_.
     act_bind (on_local (b_process ops)) (\<lambda>_.
       send_and_wait encode_processNotificationRequest Wait_Process ()))"

section \<open>Static data\<close>

definition request_static_data :: "byte list \<Rightarrow> ('s, 't, unit outcome) client_act" where
  "request_static_data fresh =
     act_bind (enqueue (setup_staticNodeDataRequest fresh)) (\<lambda>_. act_bind (ask blocking) (\<lambda>b.
       act_return (if b then Blocked Wait_Static else Returned ())))"

definition set_node_chunks :: "'s backend_ops \<Rightarrow> chunk_list \<Rightarrow> ('s, 't, unit) client_act" where
  "set_node_chunks ops cs =
     act_bind (ask static_node) (\<lambda>m.
       case m of
         None \<Rightarrow> act_return ()
       | Some n \<Rightarrow>
           let n' = n\<lparr>property_data := vs_concat cs\<rparr> in
           act_bind (change (\<lambda>c. c\<lparr>static_node := Some n'\<rparr>)) (\<lambda>_.
           act_bind (on_local (b_upsert ops [n'])) (\<lambda>_. act_return ())))"

definition client_new ::
  "'t clock \<Rightarrow> byte list \<Rightarrow> 's \<Rightarrow> bool \<Rightarrow> http_request \<Rightarrow> nat \<Rightarrow> vnode option \<Rightarrow> ('s, 't) client result" where
  "client_new clk fresh s b req rate static =
     (let c = \<lparr>local_backend = s, need_page_sync = False, last_notification = (0, '''', None),
          mutable_page_rule = ''MutableNodes'', server_sync = True, blocking = b, answer_ready = False,
          bool_response = False, maybe_tree_response = None, vector_tree_response = [], chunks_response = [],
          url_info = req, pending_requests = [], journal_rate = rate, last_journal_time = clock_zero clk,
          journal_waiting = False, static_node = static, notification_block = False\<rparr> in
      if static \<noteq> None \<and> is_wwatp req
      then Inl (Runtime_Error ''Static node must be used with static request (not WWATP).'')
      else if static \<noteq> None \<and> 0 < rate
      then Inl (Runtime_Error ''Static node mode should not be used with journaling.'')
      else if static \<noteq> None \<and> \<not> b
      then (case request_static_data fresh c of (c', _, Inl e) \<Rightarrow> Inl e | (c', _, Inr _) \<Rightarrow> Inr c')
      else Inr c)"

text \<open>The node of a static client; when it has to be fetched first, what is returned when it is there.\<close>

definition get_static_node :: "byte list \<Rightarrow> ('s, 't, unit outcome) client_act" where
  "get_static_node fresh =
     act_bind (ask blocking) (\<lambda>b. if b then request_static_data fresh else act_return (Returned ()))"

section \<open>Synchronisation\<close>

text \<open>A change of the replica that is not sent back to the server.\<close>

definition silently :: "('s, 't, 'a) client_act \<Rightarrow> ('s, 't, unit) client_act" where
  "silently f =
     act_bind (change (\<lambda>c. c\<lparr>server_sync := False\<rparr>)) (\<lambda>_.
     act_bind f (\<lambda>_. change (\<lambda>c. c\<lparr>server_sync := True\<rparr>)))"

definition set_mutable_page_rule :: "string \<Rightarrow> ('s, 't, unit) client_act" where
  "set_mutable_page_rule l = change (\<lambda>c. c\<lparr>mutable_page_rule := l\<rparr>)"

text \<open>The label of the mutable page is read into a variable of an inner block; the request has the default.\<close>

definition get_mutable_page_tree_in_mode :: "bool \<Rightarrow> bool \<Rightarrow> ('s, 't, unit outcome) client_act" where
  "get_mutable_page_tree_in_mode b jr =
     act_bind (enqueue (\<lambda>m. case encode_getPageTreeRequest ''MutableNodes'' m of
         (m', r) \<Rightarrow> (set_is_journal_request jr m', r))) (\<lambda>_.
       act_return (if b then Blocked Wait_Page_Tree else Returned ()))"

definition get_mutable_page_tree :: "('s, 't, unit outcome) client_act" where
  "get_mutable_page_tree = act_bind (ask blocking) (\<lambda>b. get_mutable_page_tree_in_mode b False)"

definition request_full_tree_sync :: "byte list \<Rightarrow> ('s, 't, unit outcome) client_act" where
  "request_full_tree_sync fresh =
     act_bind (ask static_node) (\<lambda>m.
       if m \<noteq> None then request_static_data fresh
       else act_bind (enqueue encode_getFullTreeRequest) (\<lambda>_. act_bind (ask blocking) (\<lambda>b.
              act_return (if b then Blocked Wait_Full_Tree else Returned ()))))"

definition replace_tree :: "'s backend_ops \<Rightarrow> vnode list \<Rightarrow> ('s, 't, unit) client_act" where
  "replace_tree ops ns = silently (act_bind (client_delete ops '''') (\<lambda>_. client_upsert ops ns))"

section \<open>Waiting\<close>

text \<open>
  A waiting thread first forgets earlier signals, then sleeps until the next one. The two waits for the
  journal only look at \<open>notificationBlock_\<close>.
\<close>

fun waits_for_signal :: "waiting \<Rightarrow> bool" where
  "waits_for_signal Wait_Stale_Journal = False"
| "waits_for_signal Wait_Journal = False"
| "waits_for_signal w = True"

definition await_begin :: "waiting \<Rightarrow> ('s, 't) client \<Rightarrow> ('s, 't) client" where
  "await_begin w c = (if waits_for_signal w then c\<lparr>answer_ready := False\<rparr> else c)"

definition may_resume :: "waiting \<Rightarrow> ('s, 't) client \<Rightarrow> bool" where
  "may_resume w c \<longleftrightarrow> (if waits_for_signal w then answer_ready c else \<not> notification_block c)"

definition signal_response :: "('s, 't, unit) client_act" where
  "signal_response = change (\<lambda>c. c\<lparr>answer_ready := True\<rparr>)"

definition take_bool :: "('s, 't, bool) client_act" where
  "take_bool = act_bind (ask bool_response) (\<lambda>b. act_bind (change (\<lambda>c. c\<lparr>bool_response := False\<rparr>)) (\<lambda>_. act_return b))"

definition take_tree :: "('s, 't, vnode option) client_act" where
  "take_tree = act_bind (ask maybe_tree_response) (\<lambda>n.
     act_bind (change (\<lambda>c. c\<lparr>maybe_tree_response := None\<rparr>)) (\<lambda>_. act_return n))"

definition take_vector_tree :: "('s, 't, vnode list) client_act" where
  "take_vector_tree = act_bind (ask vector_tree_response) (\<lambda>ns.
     act_bind (change (\<lambda>c. c\<lparr>vector_tree_response := []\<rparr>)) (\<lambda>_. act_return ns))"

definition take_chunks :: "('s, 't, chunk_list) client_act" where
  "take_chunks = act_bind (ask chunks_response) (\<lambda>cs.
     act_bind (change (\<lambda>c. c\<lparr>chunks_response := []\<rparr>)) (\<lambda>_. act_return cs))"

text \<open>The rest of a waiting operation. One without a result returns \<open>True\<close>.\<close>

fun resume :: "'t clock \<Rightarrow> 's backend_ops \<Rightarrow> waiting \<Rightarrow> ('s, 't, bool outcome) client_act" where
  "resume clk ops Wait_Bool = act_bind take_bool (\<lambda>b. act_return (Returned b))"
| "resume clk ops Wait_Layer =
     act_bind take_bool (\<lambda>b.
       if b then act_return (Returned True)
       else act_bind (on_local (b_close_layers ops)) (\<lambda>_. act_return (Returned False)))"
| "resume clk ops (Wait_Transaction tr) =
     act_bind take_bool (\<lambda>b.
       if b then act_bind (on_local (b_apply ops tr)) (\<lambda>r. act_return (Returned r))
       else act_return (Returned False))"
| "resume clk ops Wait_Full_Tree =
     act_bind take_vector_tree (\<lambda>ns. act_bind (replace_tree ops ns) (\<lambda>_. act_return (Returned True)))"
| "resume clk ops Wait_Static =
     act_bind take_chunks (\<lambda>cs. act_bind (silently (set_node_chunks ops cs)) (\<lambda>_. act_return (Returned True)))"
| "resume clk ops Wait_Page_Tree =
     act_bind take_vector_tree (\<lambda>ns. act_bind (silently (client_upsert ops ns)) (\<lambda>_.
     act_bind (change (\<lambda>c. c\<lparr>need_page_sync := False\<rparr>)) (\<lambda>_. act_return (Returned True))))"
| "resume clk ops Wait_Process =
     act_bind (ask journal_waiting) (\<lambda>b. act_return (Blocked (if b then Wait_Stale_Journal else Wait_Journal)))"
| "resume clk ops Wait_Stale_Journal =
     act_bind (change (\<lambda>c. c\<lparr>notification_block := True, last_journal_time := clock_two clk\<rparr>)) (\<lambda>_.
       act_return (Blocked Wait_Journal))"
| "resume clk ops Wait_Journal = act_return (Returned True)"

section \<open>Responses\<close>

text \<open>A change in the journal, as the replica follows it.\<close>

definition process_one_notification :: "'s backend_ops \<Rightarrow> sequential_notification \<Rightarrow> ('s, 't, unit) client_act" where
  "process_one_notification ops sn =
     (case sn of (_, l, m) \<Rightarrow>
        if l = '''' then act_return ()
        else (case m of
                Some n \<Rightarrow> silently (client_upsert ops [n])
              | None \<Rightarrow> silently (client_delete ops l)))"

definition update_last_notification :: "sequential_notification \<Rightarrow> ('s, 't, unit) client_act" where
  "update_last_notification sn =
     (if fst sn = - 1 then act_return ()
      else change (\<lambda>c. c\<lparr>notification_block := False, last_notification := sn\<rparr>))"

text \<open>Unsolicited notifications have the number \<open>-1\<close>; the others must follow each other.\<close>

fun numbers_jump :: "u64 \<Rightarrow> sequential_notification list \<Rightarrow> bool" where
  "numbers_jump cur [] = False"
| "numbers_jump cur (sn # ns) =
     (if fst sn = - 1 then numbers_jump cur ns
      else if cur + 1 < fst sn then True
      else numbers_jump (fst sn) ns)"

fun last_valid :: "sequential_notification \<Rightarrow> sequential_notification list \<Rightarrow> sequential_notification" where
  "last_valid v [] = v"
| "last_valid v (sn # ns) = last_valid (if fst sn = - 1 then v else sn) ns"

definition process_journal :: "'s backend_ops \<Rightarrow> sequential_notification list \<Rightarrow> ('s, 't, unit) client_act" where
  "process_journal ops ns =
     (case ns of
        [] \<Rightarrow> act_lift (Inl Undefined_Behaviour)
      | first # _ \<Rightarrow>
          act_bind (ask (\<lambda>c. fst (last_notification c))) (\<lambda>known.
            let gap = known < fst first \<or> numbers_jump (fst first) ns in
            act_bind (act_each (\<lambda>sn.
                if \<not> gap \<and> known < fst sn then process_one_notification ops sn else act_return ()) ns) (\<lambda>_.
            act_bind (if gap then act_bind (get_mutable_page_tree_in_mode False True) (\<lambda>_. act_return ())
                      else change (\<lambda>c. c\<lparr>notification_block := False\<rparr>)) (\<lambda>_.
              update_last_notification (last_valid first ns)))))"

text \<open>Actions on the client and the message whose response is complete.\<close>

type_synonym ('s, 't, 'a) exchange_act = "(('s, 't) client \<times> message, 'a) act"

definition of_message :: "'a msg_op \<Rightarrow> ('s, 't, 'a) exchange_act" where
  "of_message f = (\<lambda>(c, m). case f m of (m', r) \<Rightarrow> ((c, m'), [], r))"

definition of_client :: "('s, 't, 'a) client_act \<Rightarrow> ('s, 't, 'a) exchange_act" where
  "of_client f = (\<lambda>(c, m). case f c of (c', es, r) \<Rightarrow> ((c', m), es, r))"

text \<open>In blocking mode the waiting thread is woken, otherwise the response is used at once.\<close>

definition wake_or :: "('s, 't, unit) client_act \<Rightarrow> ('s, 't, unit) client_act" where
  "wake_or f = act_bind (ask blocking) (\<lambda>b. if b then signal_response else f)"

definition take_flag_response :: "bool msg_op \<Rightarrow> ('s, 't, unit) exchange_act" where
  "take_flag_response dec =
     act_bind (of_message dec) (\<lambda>b.
     act_bind (of_client (change (\<lambda>c. c\<lparr>bool_response := b\<rparr>))) (\<lambda>_. of_client (wake_or (act_return ()))))"

definition take_nodes_response ::
  "vnode list msg_op \<Rightarrow> (vnode list \<Rightarrow> ('s, 't, unit) client_act) \<Rightarrow> ('s, 't, unit) exchange_act" where
  "take_nodes_response dec use_nodes =
     act_bind (of_message dec) (\<lambda>ns.
     act_bind (of_client (change (\<lambda>c. c\<lparr>vector_tree_response := ns\<rparr>))) (\<lambda>_.
       of_client (wake_or (use_nodes ns))))"

definition take_node_response :: "'s backend_ops \<Rightarrow> ('s, 't, unit) exchange_act" where
  "take_node_response ops =
     act_bind (of_message decode_getNodeResponse) (\<lambda>n.
     act_bind (of_client (change (\<lambda>c. c\<lparr>maybe_tree_response := n\<rparr>))) (\<lambda>_.
     act_bind (of_client (ask blocking)) (\<lambda>b.
       if b then of_client signal_response
       else act_bind (of_client (change (\<lambda>c. c\<lparr>server_sync := False\<rparr>))) (\<lambda>_.
            act_bind (case n of
                Some x \<Rightarrow> of_client (client_upsert ops [x])
              | None \<Rightarrow> act_bind (of_message decode_deleteNodeRequest) (\<lambda>l. of_client (client_delete ops l))) (\<lambda>_.
              of_client (change (\<lambda>c. c\<lparr>server_sync := True\<rparr>)))))))"

definition take_page_response :: "'s backend_ops \<Rightarrow> ('s, 't, unit) exchange_act" where
  "take_page_response ops = (\<lambda>(c, m).
     if is_journal_request m then
       act_bind (of_message decode_getPageTreeResponse) (\<lambda>ns.
       act_bind (of_client (silently (client_upsert ops ns))) (\<lambda>_.
         of_client (change (\<lambda>c. c\<lparr>notification_block := False\<rparr>)))) (c, m)
     else take_nodes_response decode_getPageTreeResponse (\<lambda>ns. silently (client_upsert ops ns)) (c, m))"

definition take_static_response :: "'s backend_ops \<Rightarrow> ('s, 't, unit) exchange_act" where
  "take_static_response ops =
     act_bind (of_message (\<lambda>m. case drain m of (m1, cs) \<Rightarrow> (m1, Inr cs))) (\<lambda>cs.
     act_bind (of_client (change (\<lambda>c. c\<lparr>chunks_response := chunks_response c @ cs\<rparr>))) (\<lambda>_.
       of_client (wake_or (silently (act_bind (ask chunks_response) (set_node_chunks ops))))))"

definition process_response :: "'s backend_ops \<Rightarrow> ('s, 't, unit) exchange_act" where
  "process_response ops = (\<lambda>(c, m).
     if msg_signal m = signal_other_chunk then take_static_response ops (c, m)
     else (case call_of_response (msg_signal m) of
       None \<Rightarrow> ((c, m), [], Inr ())
     | Some k \<Rightarrow>
         (case k of
            Get_Node \<Rightarrow> take_node_response ops
          | Upsert_Node \<Rightarrow> take_flag_response decode_upsertNodeResponse
          | Delete_Node \<Rightarrow> take_flag_response decode_deleteNodeResponse
          | Get_Page_Tree \<Rightarrow> take_page_response ops
          | Query_Nodes \<Rightarrow> take_nodes_response decode_getQueryNodesResponse (\<lambda>ns. silently (client_upsert ops ns))
          | Open_Transaction_Layer \<Rightarrow> take_flag_response decode_openTransactionLayerResponse
          | Close_Transaction_Layers \<Rightarrow> take_flag_response decode_closeTransactionLayersResponse
          | Apply_Transaction \<Rightarrow> take_flag_response decode_applyTransactionResponse
          | Get_Full_Tree \<Rightarrow> take_nodes_response decode_getFullTreeResponse (replace_tree ops)
          | Register_Listener \<Rightarrow> take_flag_response decode_registerNodeListenerResponse
          | Deregister_Listener \<Rightarrow> take_flag_response decode_deregisterNodeListenerResponse
          | Notify_Listeners \<Rightarrow> take_flag_response decode_notifyListenersResponse
          | Process_Notification \<Rightarrow>
              act_bind (of_message decode_processNotificationResponse) (\<lambda>_. of_client (wake_or (act_return ())))
          | Get_Journal \<Rightarrow> act_bind (of_message decode_getJournalResponse) (\<lambda>ns. of_client (process_journal ops ns))) (c, m)))"

section \<open>The queue of requests\<close>

definition has_next_request :: "('s, 't) client \<Rightarrow> bool" where
  "has_next_request c \<longleftrightarrow> pending_requests c \<noteq> []"

definition pop_next_request :: "('s, 't, message) client_act" where
  "pop_next_request c =
     (case pending_requests c of
        [] \<Rightarrow> (c, [], Inl (Runtime_Error ''No pending requests''))
      | m # ms \<Rightarrow> (c\<lparr>pending_requests := ms\<rparr>, [], Inr m))"

definition solicit_journal_request :: "('s, 't) client \<Rightarrow> message result" where
  "solicit_journal_request c =
     (case encode_getJournalRequest (last_notification c) (message_new 0 0) of
        (_, Inl e) \<Rightarrow> Inl e
      | (m, Inr _) \<Rightarrow> Inr m)"

definition need_journal_request :: "'t clock \<Rightarrow> 't \<Rightarrow> ('s, 't) client \<Rightarrow> ('s, 't) client \<times> bool" where
  "need_journal_request clk now c =
     (if journal_waiting c then (c, False)
      else if journal_rate c = 0 \<or> clock_unset clk (last_journal_time c) then (c\<lparr>last_journal_time := now\<rparr>, False)
      else if clock_due clk now (last_journal_time c) (journal_rate c)
      then (c\<lparr>journal_waiting := True, last_journal_time := now\<rparr>, True)
      else (c, False))"

definition set_journal_request_complete :: "('s, 't) client \<Rightarrow> ('s, 't) client" where
  "set_journal_request_complete c = c\<lparr>journal_waiting := False\<rparr>"

end
