(* ===== verification/Server_Properties.thy ===== *)
theory Server_Properties
  imports Http3_Server Simple_Backend
begin

text \<open>
  What a server route guarantees: a call is decoded, performed on the backend and its answer encoded
  (\<open>perform\<close> is the call on the route alone), the journal stays a gapless sequence within its bound, and
  a journal request is answered with the entries the client lacks.
\<close>

section \<open>A call without its message\<close>

fun perform :: "'s backend_ops \<Rightarrow> nat \<Rightarrow> request \<Rightarrow> ('s route, response) act" where
  "perform ops me (Rq_Get_Node l) = act_bind (ask_backend (b_get_node ops l)) (\<lambda>n. act_return (Rs_Get_Node n))"
| "perform ops me (Rq_Upsert_Node ns) =
     act_bind (on_backend me (b_upsert ops ns)) (\<lambda>_. act_return (Rs_Upsert_Node True))"
| "perform ops me (Rq_Delete_Node l) =
     act_bind (on_backend me (b_delete ops l)) (\<lambda>_. act_return (Rs_Delete_Node True))"
| "perform ops me (Rq_Get_Page_Tree l) =
     act_bind (ask_backend (b_page_tree ops l)) (\<lambda>ns. act_return (Rs_Get_Page_Tree ns))"
| "perform ops me (Rq_Query_Nodes l) =
     act_bind (ask_backend (b_query ops l)) (\<lambda>ns. act_return (Rs_Query_Nodes ns))"
| "perform ops me (Rq_Open_Layer n) =
     act_bind (on_backend me (b_open_layer ops n)) (\<lambda>_. act_return (Rs_Open_Layer True))"
| "perform ops me Rq_Close_Layers =
     act_bind (on_backend me (b_close_layers ops)) (\<lambda>_. act_return (Rs_Close_Layers True))"
| "perform ops me (Rq_Apply t) =
     act_bind (on_backend me (b_apply ops t)) (\<lambda>_. act_return (Rs_Apply True))"
| "perform ops me Rq_Full_Tree = act_bind (ask_backend (b_full_tree ops)) (\<lambda>ns. act_return (Rs_Full_Tree ns))"
| "perform ops me (Rq_Register nm l b) = act_bind (register_label ops me l b) (\<lambda>_. act_return (Rs_Register True))"
| "perform ops me (Rq_Deregister nm l) = act_return (Rs_Deregister False)"
| "perform ops me (Rq_Notify l n) = act_bind (on_backend me (b_notify ops l n)) (\<lambda>_. act_return (Rs_Notify True))"
| "perform ops me Rq_Process = act_bind (on_backend me (b_process ops)) (\<lambda>_. act_return Rs_Process)"
| "perform ops me (Rq_Journal sn) =
     act_bind (ask_route journal) (\<lambda>j. act_bind (act_lift (journal_answer (fst sn) j)) (\<lambda>ns. act_return (Rs_Journal ns)))"

lemma on_route_bind: "on_route (act_bind f g) = act_bind (on_route f) (\<lambda>x. on_route (g x))"
  by (rule ext) (auto simp: on_route_def act_bind_def split: prod.splits sum.splits)

lemma on_route_return [simp]: "on_route (act_return x) = act_return x"
  by (rule ext) (auto simp: on_route_def act_return_def)

lemma on_route_lift [simp]: "on_route (act_lift r) = act_lift r"
  by (rule ext) (auto simp: on_route_def act_lift_def)

lemma on_message_map: "act_bind (on_message (op_map f g)) h = act_bind (on_message g) (\<lambda>x. h (f x))"
  by (rule ext) (auto simp: on_message_def op_map_def act_bind_def split: prod.splits sum.splits)

lemma on_message_noop: "f m = (m, Inr x) \<Longrightarrow> act_bind (on_message f) h (rt, m) = h x (rt, m)"
  by (simp add: on_message_def act_bind_def split: prod.split)

lemma receive_empty:
  "request_complete m \<Longrightarrow> decode_closeTransactionLayersRequest m = (m, Inr ())"
  "request_complete m \<Longrightarrow> decode_getFullTreeRequest m = (m, Inr ())"
  "request_complete m \<Longrightarrow> decode_processNotificationRequest m = (m, Inr ())"
  by (cases m; simp add: decode_closeTransactionLayersRequest_def decode_getFullTreeRequest_def
      decode_processNotificationRequest_def take_request_def decode_nothing_def)+

lemma answer_call_refines_core:
  assumes "request_complete m"
  shows "answer_call ops me c (rt, m) =
    act_bind (on_message (receive_request c)) (\<lambda>q.
      act_bind (on_route (perform ops me q)) (\<lambda>a. on_message (send_response a))) (rt, m)"
proof -
  note simps = answer_call_def on_message_map on_route_bind act_bind_assoc on_message_noop receive_empty [OF assms]
  show ?thesis
    by (cases c) (simp_all add: simps case_prod_unfold)
qed



section \<open>The journal\<close>

definition journal_ok :: "nat \<Rightarrow> sequential_notification list \<Rightarrow> bool" where
  "journal_ok n j \<longleftrightarrow> j \<noteq> [] \<and> length j \<le> max 1 n \<and>
     (\<forall>k < length j. fst (j ! k) = fst (hd j) + of_nat k)"

definition route_ok :: "'s route \<Rightarrow> bool" where
  "route_ok rt \<longleftrightarrow> journal_ok (max_journal rt) (journal rt)"

lemma route_new_ok: "route_ok (route_new s n url page)"
  by (simp add: route_ok_def route_new_def journal_ok_def)

lemma journal_push_ok:
  assumes "journal_ok n j"
  shows "journal_ok n (journal_push n x j)"
proof -
  obtain a as where j: "j = a # as" using assms by (cases j) (auto simp: journal_ok_def)
  have seq: "fst (j ! k) = fst a + of_nat k" if "k < length j" for k
    using assms that by (auto simp: journal_ok_def j)
  have last: "fst (last j) = fst a + of_nat (length as)"
    using seq [of "length as"] last_conv_nth [of j] by (simp add: j)
  define j' where "j' = j @ [(fst (last j) + 1, x)]"
  have seq': "fst (j' ! k) = fst a + of_nat k" if "k < length j'" for k
  proof (cases "k < length j")
    case True
    then show ?thesis using seq by (simp add: j'_def nth_append)
  next
    case False
    then have k: "k = length j" using that by (simp add: j'_def)
    have "fst (j' ! length j) = fst (last j) + 1" by (simp add: j'_def nth_append)
    then show ?thesis by (simp add: k last) (simp add: j)
  qed
  have push: "journal_push n x j = (if n < length j' then tl j' else j')"
    by (simp add: journal_push_def j'_def j)
  show ?thesis
  proof (cases "n < length j'")
    case True
    have "fst (tl j' ! k) = fst (hd (tl j')) + of_nat k" if "k < length (tl j')" for k
      using seq' [of "Suc k"] seq' [of 1] that by (simp add: nth_tl hd_conv_nth j'_def j add.commute add.left_commute)
    moreover have "length (tl j') \<le> max 1 n" using assms by (simp add: journal_ok_def j'_def j)
    ultimately have "journal_ok n (tl j')" by (auto simp: journal_ok_def j'_def j)
    then show ?thesis using True by (simp add: push)
  next
    case False
    then have "journal_ok n j'" using seq' by (auto simp: journal_ok_def j'_def j)
    then show ?thesis using False by (simp add: push)
  qed
qed

lemma journal_events_ok [simp]: "route_ok rt \<Longrightarrow> route_ok (journal_events me es rt)"
proof (induction es arbitrary: rt)
  case (Cons e es)
  have "route_ok (journal_event me e rt)"
    using Cons.prems by (cases e) (auto simp: route_ok_def journal_push_ok)
  then show ?case using Cons.IH by (simp add: journal_events_def)
qed (simp add: journal_events_def)

text \<open>An action that leads from a good route to a good route.\<close>

definition keeps_ok :: "('s route, 'a) act \<Rightarrow> bool" where
  "keeps_ok f \<longleftrightarrow> (\<forall>rt. route_ok rt \<longrightarrow> route_ok (fst (f rt)))"

lemma keeps_ok_bind [intro]: "keeps_ok f \<Longrightarrow> (\<And>x. keeps_ok (g x)) \<Longrightarrow> keeps_ok (act_bind f g)"
  unfolding keeps_ok_def
  by (auto simp: act_bind_def split: prod.splits sum.splits) (metis fst_conv)+

lemma keeps_ok_basic [intro]:
  "keeps_ok (act_return x)" "keeps_ok (act_lift r)" "keeps_ok (ask_backend h)" "keeps_ok (ask_route k)"
  "keeps_ok (on_backend me f)"
  "keeps_ok (change_route (\<lambda>rt. rt\<lparr>listening := omap_insert lbl child (listening rt)\<rparr>))"
proof -
  show "keeps_ok (on_backend me f)"
    by (auto simp: keeps_ok_def on_backend_def split: prod.split intro!: journal_events_ok) (simp add: route_ok_def)
qed (auto simp: keeps_ok_def act_return_def act_lift_def ask_backend_def ask_route_def change_route_def route_ok_def)

lemma keeps_ok_page: "keeps_ok (note_mutable_page ops me lbl)"
  unfolding note_mutable_page_def
  by (intro keeps_ok_bind keeps_ok_basic) (auto split: option.split intro!: keeps_ok_bind keeps_ok_basic)

lemma keeps_ok_register: "keeps_ok (register_label ops me lbl child)"
  unfolding register_label_def
  by (intro keeps_ok_bind keeps_ok_basic) (auto intro!: keeps_ok_bind keeps_ok_basic keeps_ok_page)

lemma keeps_ok_perform: "keeps_ok (perform ops me q)"
  by (cases q) (auto intro!: keeps_ok_bind keeps_ok_basic keeps_ok_register)

text \<open>The same for actions that carry the message along.\<close>

definition keeps_ok2 :: "('s, 'a) server_act \<Rightarrow> bool" where
  "keeps_ok2 f \<longleftrightarrow> (\<forall>rt m. route_ok rt \<longrightarrow> route_ok (fst (fst (f (rt, m)))))"

lemma keeps_ok2_bind: "keeps_ok2 f \<Longrightarrow> (\<And>x. keeps_ok2 (g x)) \<Longrightarrow> keeps_ok2 (act_bind f g)"
  unfolding keeps_ok2_def
  by (auto simp: act_bind_def split: prod.splits sum.splits) (metis fst_conv)+

lemma keeps_ok2_message: "keeps_ok2 (on_message f)"
  by (auto simp: keeps_ok2_def on_message_def split: prod.split)

lemma keeps_ok2_route: "keeps_ok f \<Longrightarrow> keeps_ok2 (on_route f)"
  by (auto simp: keeps_ok_def keeps_ok2_def on_route_def split: prod.splits)

lemma keeps_ok2_lift: "keeps_ok2 (act_lift r)"
  by (simp add: keeps_ok2_def act_lift_def)

lemmas keeps_ok2_rules = keeps_ok2_bind keeps_ok2_lift keeps_ok2_message keeps_ok2_route keeps_ok_basic keeps_ok_register

lemma keeps_ok2_answer: "keeps_ok2 (answer_call ops me c)"
  by (cases c) (auto simp: answer_call_def intro!: keeps_ok2_rules)

lemma keeps_ok2_serve: "keeps_ok2 (serve ops me request)"
proof -
  have b: "keeps_ok2 (build_response ops me)"
    using keeps_ok2_answer [of ops me] by (auto simp: build_response_def keeps_ok2_def split: option.split)
  have "keeps_ok2 (\<lambda>(rt, m). if response_complete m then ((rt, m), [], Inr ()) else build_response ops me (rt, m))"
    using b by (auto simp: keeps_ok2_def)
  then have tail: "keeps_ok2 (act_bind (\<lambda>(rt, m). if response_complete m then ((rt, m), [], Inr ())
      else build_response ops me (rt, m)) (\<lambda>_. on_message (\<lambda>m. case drain m of (m1, cs) \<Rightarrow> (m1, Inr cs))))"
    by (intro keeps_ok2_rules)
  show ?thesis
    unfolding serve_def
  proof (rule keeps_ok2_bind [OF keeps_ok2_message])
    fix u :: unit
    show "keeps_ok2 (\<lambda>(rt, m). if \<not> request_complete m then ((rt, m), [], Inr [])
       else act_bind (\<lambda>(rt, m). if response_complete m then ((rt, m), [], Inr ()) else build_response ops me (rt, m))
              (\<lambda>_. on_message (\<lambda>m. case drain m of (m1, cs) \<Rightarrow> (m1, Inr cs))) (rt, m))"
      using tail by (auto simp: keeps_ok2_def)
  qed
qed

lemma journal_kept: "route_ok (keep_message sid m rt) \<longleftrightarrow> route_ok rt"
  by (simp add: route_ok_def keep_message_def)

text \<open>
  C11: whatever a stream sends, the journal of a route stays nonempty, numbered without gaps and within
  its bound (one entry when the bound is 0).
\<close>

theorem journal_invariant:
  assumes "route_ok rt"
  shows "route_ok (fst (process_response_stream ops me fresh sid request rt))"
proof -
  define rt1 where "rt1 m = (if map_of (ongoing rt) sid = None then keep_message sid m rt else rt)" for m
  have ok: "route_ok (rt1 m)" for m
    using assms by (simp add: rt1_def route_ok_def keep_message_def)
  have served: "route_ok (keep_message sid m2 rt2)" if "serve ops me request (rt1 m, m) = ((rt2, m2), es, r)" for m rt2 m2 es r
    using keeps_ok2_serve [of ops me request] ok [of m] that
    unfolding keeps_ok2_def by (metis fst_conv journal_kept)
  have closed: "route_ok ((rt1 m)\<lparr>ongoing := x\<rparr>)" for m x
    using ok [of m] by (simp add: route_ok_def)
  show ?thesis
    unfolding process_response_stream_def Let_def rt1_def [symmetric]
    using assms ok served closed by (auto split: sum.split option.split prod.split)
qed

theorem journal_invariant_witness:
  "route_ok (fst (process_response_stream simple_ops 7 [] (Stream_Id ''c'' 4)
       [vs_of_data (Payload_Header 0x0B 4 3) ''zoo''] (route_new (simple_new []) 2 ''u'' ''MutableNodes'')))"
  by (rule journal_invariant) (rule route_new_ok)

section \<open>What a journal request is answered with\<close>

text \<open>The hypothesis on the numbers rules out that they wrap around inside the journal.\<close>

definition journal_numbers_fit :: "sequential_notification list \<Rightarrow> bool" where
  "journal_numbers_fit j \<longleftrightarrow> unat (fst (hd j)) + length j \<le> 2 ^ 64"

lemma journal_number:
  assumes "journal_ok n j" and "journal_numbers_fit j" and "k < length j"
  shows "unat (fst (j ! k)) = unat (fst (hd j)) + k"
proof -
  have "fst (j ! k) = fst (hd j) + of_nat k" using assms by (simp add: journal_ok_def)
  moreover have "unat (fst (hd j)) + k < 2 ^ 64" using assms(2,3) by (simp add: journal_numbers_fit_def)
  ultimately show ?thesis by (simp add: unat_word_ariths unat_of_nat)
qed

lemma journal_numbers_sorted:
  assumes "journal_ok n j" and "journal_numbers_fit j"
  shows "sorted (map fst j)"
  unfolding sorted_iff_nth_mono
  using journal_number [OF assms] by (auto simp: word_le_nat_alt)

lemma sorted_take_drop_while:
  fixes i :: "'a::linorder"
  assumes "sorted (map fst j)"
  shows "takeWhile (\<lambda>n. fst n < i) j = filter (\<lambda>n. fst n < i) j \<and>
    dropWhile (\<lambda>n. fst n < i) j = filter (\<lambda>n. i \<le> fst n) j"
  using assms
proof (induction j)
  case (Cons n j)
  show ?case
  proof (cases "fst n < i")
    case True
    then show ?thesis using Cons by auto
  next
    case False
    then have "\<forall>s \<in> set j. i \<le> fst s" using Cons.prems by (auto simp: not_less intro: order_trans)
    then have "filter (\<lambda>n. fst n < i) j = []" "filter (\<lambda>n. i \<le> fst n) j = j"
      by (auto simp: filter_empty_conv filter_id_conv not_less)
    then show ?thesis using False by (simp add: not_less)
  qed
qed simp

lemma lower_bound_sorted:
  assumes "sorted (map fst j)"
  shows "lower_bound (\<lambda>n. fst n < i) j = Inr (filter (\<lambda>n. fst n < i) j, filter (\<lambda>n. i \<le> fst n) j)"
  using sorted_take_drop_while [OF assms, of i]
  by (simp add: lower_bound_def Let_def list_ex_iff not_less)

lemma journal_answer_entries_core:
  assumes "journal_ok n j" and "journal_numbers_fit j"
  shows "journal_answer i j = Inr
    (if fst (hd j) \<le> i \<and> i \<le> fst (last j) then filter (\<lambda>s. i \<le> fst s) j
     else [(0, '''', None), (2, '''', None), (fst (last j), '''', None)])"
proof -
  have ne: "j \<noteq> []" using assms(1) by (simp add: journal_ok_def)
  have top: "fst s \<le> fst (last j)" if s: "s \<in> set j" for s
  proof -
    obtain k where k: "k < length j" "s = j ! k" using s by (auto simp: in_set_conv_nth)
    then show ?thesis
      using journal_number [OF assms, of k] journal_number [OF assms, of "length j - 1"] ne
      by (simp add: last_conv_nth word_le_nat_alt)
  qed
  have none: "filter (\<lambda>s. i \<le> fst s) j = [] \<longleftrightarrow> fst (last j) < i"
  proof
    show "fst (last j) < i" if "filter (\<lambda>s. i \<le> fst s) j = []"
      using that last_in_set [OF ne] by (simp add: filter_empty_conv not_le)
    show "filter (\<lambda>s. i \<le> fst s) j = []" if "fst (last j) < i"
      using top le_less_trans [OF _ that] by (simp add: filter_empty_conv not_le)
  qed
  have "journal_answer i j =
      (if fst (last j) < i \<and> i \<noteq> fst (last j) \<or> i < fst (hd j)
       then Inr [(0, '''', None), (2, '''', None), (fst (last j), '''', None)] else Inr (filter (\<lambda>s. i \<le> fst s) j))"
    using ne by (simp add: journal_answer_def lower_bound_sorted [OF journal_numbers_sorted [OF assms]] none)
  moreover have "(fst (last j) < i \<and> i \<noteq> fst (last j) \<or> i < fst (hd j)) \<longleftrightarrow> \<not> (fst (hd j) \<le> i \<and> i \<le> fst (last j))"
    by (auto simp: not_less not_le)
  ultimately show ?thesis by (simp only: if_not_P if_P if_cancel split: if_split) blast
qed



end
