(* ===== verification/Remote_Calls.thy ===== *)
theory Remote_Calls
  imports Server_Properties
begin

text \<open>
  A call end to end: the chunks of a request reach the route in batches, the route performs the call once
  on its backend when the last batch is in, and the chunks it returns are decoded by the client to the
  answer of the backend.
\<close>

section \<open>Actions do not see the streams of a route\<close>

definition blind :: "('s route, 'a) act \<Rightarrow> bool" where
  "blind f \<longleftrightarrow> (\<forall>rt x. f (rt\<lparr>ongoing := x\<rparr>) = (case f rt of (rt', es, r) \<Rightarrow> (rt'\<lparr>ongoing := x\<rparr>, es, r)))"

lemma blindD: "blind f \<Longrightarrow> f rt = (rt', es, r) \<Longrightarrow> f (rt\<lparr>ongoing := x\<rparr>) = (rt'\<lparr>ongoing := x\<rparr>, es, r)"
  by (simp add: blind_def)

lemma blind_bind: "blind f \<Longrightarrow> (\<And>x. blind (g x)) \<Longrightarrow> blind (act_bind f g)"
  unfolding blind_def act_bind_def by (auto split: prod.splits sum.splits)

lemma journal_events_ongoing [simp]:
  "journal_events me es (rt\<lparr>ongoing := x\<rparr>) = (journal_events me es rt)\<lparr>ongoing := x\<rparr>"
proof (induction es arbitrary: rt)
  case (Cons e es)
  have "journal_event me e (rt\<lparr>ongoing := x\<rparr>) = (journal_event me e rt)\<lparr>ongoing := x\<rparr>"
    by (cases e) simp_all
  then show ?case using Cons.IH by (simp add: journal_events_def)
qed (simp add: journal_events_def)

lemma journal_events_commute:
  "journal_events me es (rt\<lparr>ongoing := x, rt_backend := s\<rparr>) =
   (journal_events me es (rt\<lparr>rt_backend := s\<rparr>))\<lparr>ongoing := x\<rparr>"
proof -
  have "rt\<lparr>ongoing := x, rt_backend := s\<rparr> = rt\<lparr>rt_backend := s, ongoing := x\<rparr>" by simp
  then show ?thesis by (simp only: journal_events_ongoing)
qed

lemma blind_basic [intro]:
  "blind (act_return y)" "blind (act_lift r)" "blind (ask_backend h)" "blind (on_backend me f)"
  "(\<And>rt x. k (rt\<lparr>ongoing := x\<rparr>) = k rt) \<Longrightarrow> blind (ask_route k)"
  "blind (change_route (\<lambda>rt. rt\<lparr>listening := omap_insert lbl child (listening rt)\<rparr>))"
  by (simp_all add: blind_def act_return_def act_lift_def ask_backend_def ask_route_def change_route_def
      on_backend_def journal_events_commute split: prod.split)

lemmas blind_rules = blind_bind blind_basic

lemma blind_page: "blind (note_mutable_page ops me lbl)"
  unfolding note_mutable_page_def
  by (intro blind_rules) (auto split: option.split intro!: blind_rules)

lemma blind_register: "blind (register_label ops me lbl child)"
  unfolding register_label_def
  by (intro blind_rules) (auto intro!: blind_rules blind_page)

lemma blind_perform: "blind (perform ops me q)"
  by (cases q) (auto intro!: blind_rules blind_register)

lemma keep_message_twice [simp]: "keep_message sid m (keep_message sid m' rt) = keep_message sid m rt"
proof -
  have "omap_insert k v (omap_insert k v' xs) = omap_insert k v xs" for k :: stream_id and v v' :: message and xs
    by (induction k v' xs rule: omap_insert.induct) auto
  then show ?thesis by (simp add: keep_message_def)
qed

lemma perform_kept:
  assumes "perform ops me q rt = (rt', es, r)"
  shows "perform ops me q (keep_message sid m rt) = (keep_message sid m rt', es, r)"
    and "ongoing rt' = ongoing rt"
proof -
  show o: "ongoing rt' = ongoing rt"
    using blindD [OF blind_perform assms, of "ongoing rt"] assms
    by (metis (no_types, lifting) Pair_inject route.ext_inject route.surjective route.update_convs(2) route.select_convs(2))
  show "perform ops me q (keep_message sid m rt) = (keep_message sid m rt', es, r)"
    using blindD [OF blind_perform assms] by (simp add: keep_message_def o)
qed

section \<open>Chunks in and out\<close>

lemma take_in_feed:
  assumes "list_all (stamped r sig) cs" and "sig \<noteq> signal_heartbeat"
  shows "take_in cs m = feed pushRequestChunk cs m"
  using assms(1)
proof (induction cs arbitrary: m)
  case (Cons c cs)
  have "\<exists>h. vs_payload_header c = Inr h \<and> h_signal h \<noteq> signal_heartbeat"
    using Cons.prems assms(2)
    by (auto simp: stamped_def vs_payload_header_def split: list.splits header.splits)
  then show ?case using Cons by (auto split: prod.split sum.split)
qed simp

lemma request_signal_data: "request_signal c \<noteq> signal_heartbeat"
  by (cases c) (simp_all add: signal_heartbeat_def)

lemma drain_all:
  assumes "response_complete m"
  shows "drain m = (m\<lparr>response_chunks := [], processing_finished := True\<rparr>, response_chunks m)"
  using assms
proof (induction "response_chunks m" arbitrary: m)
  case Nil
  then show ?case by (subst drain.simps) (cases m; simp add: popResponseChunk_def)
next
  case (Cons c cs)
  have "popResponseChunk m = (m\<lparr>response_chunks := cs\<rparr>, Some c)"
    using Cons.hyps(2) [symmetric] by (simp add: popResponseChunk_def)
  moreover have "drain (m\<lparr>response_chunks := cs\<rparr>) =
      (m\<lparr>response_chunks := [], processing_finished := True\<rparr>, cs)"
    using Cons.hyps(1) [of "m\<lparr>response_chunks := cs\<rparr>"] Cons.prems by simp
  ultimately show ?case using Cons.hyps(2) by (subst drain.simps) simp
qed

text \<open>Decoding a request changes the message in its flags only.\<close>

lemma receive_request_frame:
  "fst (receive_request c m) \<in> {m, m\<lparr>request_complete := True\<rparr>, m\<lparr>is_journal_request := True\<rparr>}"
proof -
  have map: "fst (op_map f g m) = fst (g m)" for f and g :: "'a msg_op"
    by (simp add: op_map_def split: prod.split sum.split)
  show ?thesis
    by (cases c) (simp_all add: map request_codes decode_closeTransactionLayersRequest_def
        decode_getFullTreeRequest_def marking_journal_def take_request_def split: sum.split)
qed

lemma initialize_stamped:
  assumes "list_all (stamped (si_logical sid) sig) cs" and "cs \<noteq> []"
  shows "initialize_message sid cs = Inr (message_new (si_logical sid) sig)"
proof (cases cs)
  case (Cons c ds)
  then show ?thesis
    using assms stamped_signal [of "si_logical sid" sig c] by (simp add: initialize_message_def)
qed (use assms in simp)

text \<open>The message after the first \<open>k\<close> chunks of a request, and the route that keeps it.\<close>

definition partial :: "u16 \<Rightarrow> call \<Rightarrow> chunk_list \<Rightarrow> nat \<Rightarrow> message" where
  "partial r c cs k =
     (if k = 0 then message_new r (request_signal c)
      else (message_new r (request_signal c))\<lparr>request_chunks := take k cs, msg_request_id := r,
              is_initialized := True, request_complete := k = length cs\<rparr>)"

definition route_at :: "stream_id \<Rightarrow> call \<Rightarrow> chunk_list \<Rightarrow> nat \<Rightarrow> 's route \<Rightarrow> 's route" where
  "route_at sid c cs k rt = (if k = 0 then rt else keep_message sid (partial (si_logical sid) c cs k) rt)"

lemma stream_step:
  assumes "map_of (ongoing rt) sid = None" and "k = 0 \<Longrightarrow> b \<noteq> [] \<and> list_all (stamped (si_logical sid) (request_signal c)) b"
  shows "process_response_stream ops me fresh sid b (route_at sid c cs k rt) =
    (case serve ops me b (keep_message sid (partial (si_logical sid) c cs k) rt, partial (si_logical sid) c cs k) of
       ((rt2, m2), es, r) \<Rightarrow> (keep_message sid m2 rt2, es, r))"
proof (cases "k = 0")
  case True
  then show ?thesis
    using assms initialize_stamped [of sid "request_signal c" b]
    by (simp add: process_response_stream_def route_at_def partial_def) (simp add: message_new_def)
next
  case False
  have "map_of (ongoing (keep_message sid m rt)) sid = Some m" for m
    by (simp add: keep_message_def)
  moreover have "\<not> processing_finished (partial r c cs k)" for r
    by (simp add: partial_def message_new_def)
  ultimately show ?thesis
    using False by (simp add: process_response_stream_def route_at_def)
qed

text \<open>The chunks of a request that arrives, batch by batch.\<close>

definition arriving :: "stream_id \<Rightarrow> call \<Rightarrow> request \<Rightarrow> chunk_list \<Rightarrow> bool" where
  "arriving sid c y cs \<longleftrightarrow> length cs < 2 ^ 64 \<and>
     arrives_as c (receive_request c) (si_logical sid) (message_new (si_logical sid) (request_signal c)) y cs"

lemma stamped_batch:
  assumes "arriving sid c y cs" and "b = take (length b) (drop k cs)"
  shows "list_all (stamped (si_logical sid) (request_signal c)) b"
proof -
  have "list_all (stamped (si_logical sid) (request_signal c)) cs"
    using assms(1) by (simp add: arriving_def arrives_as_def)
  then show ?thesis
    by (subst assms(2)) (auto simp: list_all_iff dest!: in_set_takeD in_set_dropD)
qed

lemma fed:
  assumes "arriving sid c y cs" and "k \<le> length cs"
  shows "feed pushRequestChunk (take k cs) (partial (si_logical sid) c cs 0) = (partial (si_logical sid) c cs k, Inr ())"
  using assms by (cases "k = 0") (auto simp: arriving_def arrives_as_def partial_def Let_def)

lemma fed_on:
  assumes "arriving sid c y cs" and "k + length b \<le> length cs" and "b = take (length b) (drop k cs)"
  shows "take_in b (partial (si_logical sid) c cs k) = (partial (si_logical sid) c cs (k + length b), Inr ())"
proof -
  have b: "take k cs @ b = take (k + length b) cs" using assms(3) by (simp add: take_add)
  note stamped_batch [OF assms(1,3)]
  then have "take_in b (partial (si_logical sid) c cs k) = feed pushRequestChunk b (partial (si_logical sid) c cs k)"
    by (rule take_in_feed) (rule request_signal_data)
  also have "\<dots> = feed pushRequestChunk (take k cs @ b) (partial (si_logical sid) c cs 0)"
    using assms(2) by (simp add: feed_append [OF fed [OF assms(1)]])
  finally show ?thesis using fed [OF assms(1,2)] by (simp add: b)
qed

lemma not_yet:
  assumes "arriving sid c y cs" and "map_of (ongoing rt) sid = None" and "k + length b < length cs" and "b = take (length b) (drop k cs)"
  shows "process_response_stream ops me fresh sid b (route_at sid c cs k rt) =
    (route_at sid c cs (k + length b) rt, [], Inr [])"
proof (cases "k = 0 \<and> b = []")
  case True
  then show ?thesis using assms(2) by (simp add: process_response_stream_def route_at_def)
next
  case False
  have step: "process_response_stream ops me fresh sid b (route_at sid c cs k rt) =
    (case serve ops me b (keep_message sid (partial (si_logical sid) c cs k) rt, partial (si_logical sid) c cs k) of
       ((rt2, m2), es, r) \<Rightarrow> (keep_message sid m2 rt2, es, r))"
    using False by (intro stream_step [OF assms(2)]) (auto intro: stamped_batch [OF assms(1,4)])
  have "take_in b (partial (si_logical sid) c cs k) = (partial (si_logical sid) c cs (k + length b), Inr ())"
    using assms by (intro fed_on [OF assms(1)]) auto
  moreover have "\<not> request_complete (partial (si_logical sid) c cs (k + length b))"
    using assms(3) by (simp add: partial_def message_new_def)
  ultimately have "serve ops me b (rt', partial (si_logical sid) c cs k) =
      ((rt', partial (si_logical sid) c cs (k + length b)), [], Inr [])" for rt'
    by (simp add: serve_def act_bind_def on_message_def)
  then show ?thesis using False by (simp add: step) (auto simp: route_at_def)
qed

text \<open>The last batch: the call is performed once, its answer encoded and handed out.\<close>

lemma last_batch:
  assumes "arriving sid c y cs" and "map_of (ongoing rt) sid = None"
    and "k + length b = length cs" and "b = take (length b) (drop k cs)" and "b \<noteq> []"
    and "perform ops me y rt = (rt2, es, Inr a)"
    and "\<And>n. response_chunks n = [] \<Longrightarrow> msg_request_id n = si_logical sid \<Longrightarrow>
      send_response a n = (answered n, Inr ()) \<and> response_complete (answered n)"
  shows "\<exists>m n. process_response_stream ops me fresh sid b (route_at sid c cs k rt) =
      (keep_message sid m rt2, es, Inr (response_chunks (answered n))) \<and> processing_finished m \<and>
      response_chunks n = [] \<and> msg_request_id n = si_logical sid"
proof -
  define w where "w = partial (si_logical sid) c cs k"
  define n where "n = partial (si_logical sid) c cs (length cs)"
  define n' where "n' = fst (receive_request c n)"
  have ne: "cs \<noteq> []" using assms(3,5) by auto
  have n: "request_complete n" "\<not> response_complete n" "msg_signal n = request_signal c"
    "response_chunks n = []" "msg_request_id n = si_logical sid"
    using ne by (simp_all add: n_def partial_def message_new_def)
  have "snd (receive_request c n) = Inr y"
    using assms(1) ne by (auto simp: arriving_def arrives_as_def Let_def n_def partial_def)
  then have rcv: "receive_request c n = (n', Inr y)" by (simp add: n'_def prod_eq_iff)
  have n': "response_chunks n' = []" "msg_request_id n' = si_logical sid"
    using receive_request_frame [of c n] n by (auto simp: n'_def)
  note sent = assms(7) [OF n']
  have taken: "take_in b w = (n, Inr ())"
    using fed_on [OF assms(1) _ assms(4)] assms(3) by (simp add: w_def n_def)
  note performed = perform_kept(1) [OF assms(6), where m = w]
  have built: "build_response ops me (keep_message sid w rt, n) = ((keep_message sid w rt2, answered n'), es, Inr ())"
    using n(1,3) sent by (simp add: build_response_def answer_call_refines_core act_bind_def on_message_def rcv
        on_route_def performed)
  have "serve ops me b (keep_message sid w rt, w) =
      ((keep_message sid w rt2, (answered n')\<lparr>response_chunks := [], processing_finished := True\<rparr>), es,
       Inr (response_chunks (answered n')))"
    using n(1,2) sent by (simp add: serve_def act_bind_def on_message_def taken built drain_all)
  then show ?thesis
    using stream_step [OF assms(2), of k b c ops me fresh cs] stamped_batch [OF assms(1,4)] assms(5) n'
    by (simp add: w_def) (metis (no_types, lifting) message.select_convs(9) message.surjective message.update_convs(9))
qed

section \<open>A call in batches\<close>

text \<open>What the transport does with the batches of a stream: it hands them to the route one after the other.\<close>

fun serve_batches :: "'s backend_ops \<Rightarrow> nat \<Rightarrow> byte list \<Rightarrow> stream_id \<Rightarrow> chunk_list list \<Rightarrow>
    ('s route, chunk_list list) act" where
  "serve_batches ops me fresh sid [] = act_return []"
| "serve_batches ops me fresh sid (b # bs) =
     act_bind (process_response_stream ops me fresh sid b) (\<lambda>ds.
       act_bind (serve_batches ops me fresh sid bs) (\<lambda>dss. act_return (ds # dss)))"

lemma serve_first_batches:
  assumes "arriving sid c y cs" and "map_of (ongoing rt) sid = None"
    and "k + length (concat bs) < length cs" and "concat bs = take (length (concat bs)) (drop k cs)"
  shows "serve_batches ops me fresh sid (bs @ [b]) (route_at sid c cs k rt) =
    (case process_response_stream ops me fresh sid b (route_at sid c cs (k + length (concat bs)) rt) of
       (rt', es, Inl e) \<Rightarrow> (rt', es, Inl e)
     | (rt', es, Inr ds) \<Rightarrow> (rt', es, Inr (map (\<lambda>_. []) bs @ [ds])))"
  using assms(3,4)
proof (induction bs arbitrary: k)
  case Nil
  then show ?case by (simp add: act_bind_def act_return_def split: prod.split sum.split)
next
  case (Cons b1 bs)
  have first: "b1 = take (length b1) (drop k cs)"
    using arg_cong [OF Cons.prems(2), of "take (length b1)"] by (simp add: min_def)
  have rest: "concat bs = take (length (concat bs)) (drop (k + length b1) cs)"
    using arg_cong [OF Cons.prems(2), of "drop (length b1)"] by (simp add: drop_take add.commute)
  have step: "process_response_stream ops me fresh sid b1 (route_at sid c cs k rt) =
      (route_at sid c cs (k + length b1) rt, [], Inr [])"
    using Cons.prems(1) first by (intro not_yet [OF assms(1,2)]) auto
  have "serve_batches ops me fresh sid (bs @ [b]) (route_at sid c cs (k + length b1) rt) =
    (case process_response_stream ops me fresh sid b (route_at sid c cs (k + length b1 + length (concat bs)) rt) of
       (rt', es, Inl e) \<Rightarrow> (rt', es, Inl e)
     | (rt', es, Inr ds) \<Rightarrow> (rt', es, Inr (map (\<lambda>_. []) bs @ [ds])))"
    using Cons.prems(1) rest by (intro Cons.IH) auto
  then show ?case
    using step by (simp add: act_bind_def act_return_def add.assoc split: prod.splits sum.splits)
qed

lemma perform_call: "perform ops me q rt = (rt2, es, Inr a) \<Longrightarrow> response_call a = request_call q"
  by (cases q) (auto simp: act_bind_def act_return_def split: prod.splits sum.splits)

lemma received_call [simp]: "request_call (received_request r q) = request_call q"
  by (cases q) simp_all

lemma answer_stamped:
  assumes "send_response a m = (m1, Inr ())" and "response_chunks m = []"
  shows "list_all (stamped (msg_request_id m) (response_signal (response_call a))) (response_chunks m1)"
proof -
  have put: "list_all (stamped (msg_request_id m) (response_signal c)) (response_chunks m1)"
    if "put_response c (\<lambda>rid sig. enc rid sig x) m = (m1, Inr ())" "stamps enc"
    for c and enc :: "u16 \<Rightarrow> u8 \<Rightarrow> 'x \<Rightarrow> chunk_list result" and x m1
    using that assms(2) by (auto simp: put_response_def Let_def split: sum.splits dest: stampsD(1))
  have mark: "list_all (stamped (msg_request_id m) (response_signal c)) (response_chunks m1)"
    if "marking_journal (put_response c (\<lambda>rid sig. enc rid sig x)) m = (m1, Inr ())" "stamps enc"
    for c and enc :: "u16 \<Rightarrow> u8 \<Rightarrow> 'x \<Rightarrow> chunk_list result" and x m1
    using that assms(2)
    by (auto simp: marking_journal_def put_response_def Let_def split: sum.splits prod.splits dest: stampsD(1))
  have flag: "stamps (\<lambda>rid sig b. encode_flag b rid sig)"
    unfolding encode_flag_def by (rule stamps_map [OF label_stamps])
  have empty: "stamps (\<lambda>rid sig (_ :: unit). encode_label rid sig [])"
    by (rule stamps_map [OF label_stamps])
  show ?thesis
    using assms(1)
    by (cases a) (auto simp: response_codes simp del: response_signal.simps intro: put [OF _ node_stamps] put [OF _ nodes_stamps] put [OF _ flag]
        put [OF _ empty] mark [OF _ notifications_stamps])
qed

lemma remote_call_core:
  assumes "request_sendable q" and "send_request q (message_new 0 0) = (c1, Inr ())"
    and "setRequestId (si_logical sid) c1 = (c2, Inr ())" and "length (request_chunks c2) < 2 ^ 64"
    and "concat bs @ b = request_chunks c2" and "b \<noteq> []" and "map_of (ongoing rt) sid = None"
    and "perform ops me (received_request (si_logical sid) q) rt = (rt2, es, Inr a)" and "response_sendable a"
    and "response_chunks n = []" and "\<not> response_complete n"
  shows "\<exists>m ds. serve_batches ops me fresh sid (bs @ [b]) rt = (keep_message sid m rt2, es, Inr (map (\<lambda>_. []) bs @ [ds])) \<and>
    processing_finished m \<and> list_all (stamped (si_logical sid) (response_signal (request_call q))) ds \<and>
    (length ds < 2 ^ 64 \<longrightarrow> (\<exists>n1. feed pushResponseChunk ds n = (n1, Inr ()) \<and> response_complete n1 \<and>
       snd (receive_response (request_call q) n1) = Inr (received_response (si_logical sid) a)))"
proof -
  define c where "c = request_call q"
  define y where "y = received_request (si_logical sid) q"
  define cs where "cs = request_chunks c2"
  have "delivers_request c (send_request q) (receive_request c) (si_logical sid)
      (message_new (si_logical sid) (request_signal c)) y"
    unfolding c_def y_def by (rule requests_delivered_core [OF assms(1)]) (simp add: fresh_request_def message_new_def)
  then have arr: "arriving sid c y cs"
    using assms(2-4) by (auto simp: delivers_request_def arriving_def cs_def)
  have len: "length (concat bs) + length b = length cs"
    using arg_cong [OF assms(5), of length] by (simp add: cs_def)
  then have lens: "length (concat bs) + length b = length cs" "length (concat bs) < length cs"
    using assms(6) by (auto simp flip: length_greater_0_conv)
  have parts: "concat bs = take (length (concat bs)) (drop 0 cs)" "b = take (length b) (drop (length (concat bs)) cs)"
    unfolding cs_def assms(5) [symmetric] by simp_all
  have delivered: "delivers_response (send_response a) (receive_response c) m' n (received_response (si_logical sid) a)"
    if "response_chunks m' = []" "msg_request_id m' = si_logical sid" for m'
    using responses_delivered_core [OF assms(9) that(1) assms(10,11)] that(2) perform_call [OF assms(8)]
    by (simp add: c_def)
  have "send_response a m' = (fst (send_response a m'), Inr ()) \<and> response_complete (fst (send_response a m'))"
    if "response_chunks m' = []" "msg_request_id m' = si_logical sid" for m'
    using delivered [OF that] by (auto simp: delivers_response_def)
  then obtain m m' where last: "process_response_stream ops me fresh sid b (route_at sid c cs (length (concat bs)) rt) =
      (keep_message sid m rt2, es, Inr (response_chunks (fst (send_response a m'))))"
    and m: "processing_finished m" "response_chunks m' = []" "msg_request_id m' = si_logical sid"
    using last_batch [OF arr assms(7) lens(1) parts(2) assms(6) assms(8) [folded y_def], where answered = "\<lambda>m. fst (send_response a m)"]
    by blast
  have "serve_batches ops me fresh sid (bs @ [b]) (route_at sid c cs 0 rt) =
      (keep_message sid m rt2, es, Inr (map (\<lambda>_. []) bs @ [response_chunks (fst (send_response a m'))]))"
    by (subst serve_first_batches [OF arr assms(7) _ parts(1)]) (use lens(2) last in simp_all)
  moreover have "length (response_chunks (fst (send_response a m'))) < 2 ^ 64 \<longrightarrow>
      (\<exists>n1. feed pushResponseChunk (response_chunks (fst (send_response a m'))) n = (n1, Inr ()) \<and> response_complete n1 \<and>
        snd (receive_response c n1) = Inr (received_response (si_logical sid) a))"
    using delivered [OF m(2,3)] unfolding delivers_response_def by auto
  moreover have "list_all (stamped (si_logical sid) (response_signal c)) (response_chunks (fst (send_response a m')))"
    using answer_stamped [OF _ m(2), of a] delivered [OF m(2,3)] m(3) perform_call [OF assms(8)]
    by (auto simp: delivers_response_def c_def)
  ultimately show ?thesis using m(1) by (auto simp: route_at_def c_def)
qed

text \<open>
  C1: a remote call is a local call. Whatever the batches in which the chunks of a request reach a route,
  the route answers nothing before the last one, then performs the call on its backend exactly once, and
  the chunks it returns are the ones the client's message decodes to the backend's answer.
\<close>

theorem remote_call:
  assumes "request_sendable q" and "send_request q (message_new 0 0) = (c1, Inr ())"
    and "setRequestId (si_logical sid) c1 = (c2, Inr ())" and "length (request_chunks c2) < 2 ^ 64"
    and "concat bs @ b = request_chunks c2" and "b \<noteq> []" and "map_of (ongoing rt) sid = None"
    and "perform ops me (received_request (si_logical sid) q) rt = (rt2, es, Inr a)" and "response_sendable a"
    and "response_chunks n = []" and "\<not> response_complete n"
  shows "\<exists>m ds. serve_batches ops me fresh sid (bs @ [b]) rt = (keep_message sid m rt2, es, Inr (map (\<lambda>_. []) bs @ [ds])) \<and>
    processing_finished m \<and>
    (length ds < 2 ^ 64 \<longrightarrow> (\<exists>n1. feed pushResponseChunk ds n = (n1, Inr ()) \<and> response_complete n1 \<and>
       snd (receive_response (request_call q) n1) = Inr (received_response (si_logical sid) a)))"
  using remote_call_core [OF assms] by blast

lemma message_new_response [simp]:
  "response_chunks (message_new r s) = []" "\<not> response_complete (message_new r s)"
  by (simp_all add: message_new_def)

theorem remote_call_witness:
  "\<exists>m ds. serve_batches simple_ops 7 [] (Stream_Id ''c'' 4) [[], [vs_of_data (Payload_Header 0x07 4 3) ''zoo'']]
       (route_new (simple_new []) 2 ''u'' ''MutableNodes'') =
     (keep_message (Stream_Id ''c'' 4) m (route_new (simple_new []) 2 ''u'' ''MutableNodes''), [], Inr [[], ds]) \<and>
     processing_finished m \<and>
     (length ds < 2 ^ 64 \<longrightarrow> (\<exists>n1. feed pushResponseChunk ds (message_new 0 0) = (n1, Inr ()) \<and> response_complete n1 \<and>
        snd (receive_response Get_Node n1) = Inr (Rs_Get_Node None)))"
proof -
  have send: "send_request (Rq_Get_Node ''zoo'') (message_new 0 0) =
      ((message_new 0 0x07)\<lparr>request_chunks := [vs_of_data (Payload_Header 0x07 0 3) ''zoo''], is_initialized := True\<rparr>, Inr ())"
    by (simp add: encode_getNodeRequest_def begin_request_def encode_label_def message_new_def payload_max_def
        chunk_size_def)
  have stamp: "setRequestId 4
      ((message_new 0 0x07)\<lparr>request_chunks := [vs_of_data (Payload_Header 0x07 0 3) ''zoo''], is_initialized := True\<rparr>) =
      ((message_new 4 0x07)\<lparr>request_chunks := [vs_of_data (Payload_Header 0x07 4 3) ''zoo''], is_initialized := True,
         request_complete := True\<rparr>, Inr ())"
    by (simp add: setRequestId_def message_new_def)
  have local: "perform simple_ops 7 (received_request 4 (Rq_Get_Node ''zoo'')) (route_new (simple_new []) 2 ''u'' ''MutableNodes'') =
      (route_new (simple_new []) 2 ''u'' ''MutableNodes'', [], Inr (Rs_Get_Node None))"
    by (simp add: act_bind_def act_return_def ask_backend_def simple_ops_def route_new_def simple_new_def
        simple_get_node_def tree_get_node_def)
  have stamp': "setRequestId (si_logical (Stream_Id ''c'' 4))
      ((message_new 0 0x07)\<lparr>request_chunks := [vs_of_data (Payload_Header 0x07 0 3) ''zoo''], is_initialized := True\<rparr>) =
      ((message_new 4 0x07)\<lparr>request_chunks := [vs_of_data (Payload_Header 0x07 4 3) ''zoo''], is_initialized := True,
         request_complete := True\<rparr>, Inr ())"
    by (simp only: stream_id.sel stamp)
  have local': "perform simple_ops 7 (received_request (si_logical (Stream_Id ''c'' 4)) (Rq_Get_Node ''zoo''))
        (route_new (simple_new []) 2 ''u'' ''MutableNodes'') =
      (route_new (simple_new []) 2 ''u'' ''MutableNodes'', [], Inr (Rs_Get_Node None))"
    by (simp only: stream_id.sel local)
  have "request_sendable (Rq_Get_Node ''zoo'')" "response_sendable (Rs_Get_Node None)"
    by (simp_all add: payload_max_def chunk_size_def maybe_sendable_def)
  moreover have "map_of (ongoing (route_new (simple_new []) 2 ''u'' ''MutableNodes'')) (Stream_Id ''c'' 4) = None"
    by (simp add: route_new_def)
  ultimately show ?thesis
    using remote_call [OF _ send stamp' _ _ _ _ local', where bs = "[[]]" and n = "message_new 0 0" and fresh = "[]"
        and b = "[vs_of_data (Payload_Header 0x07 4 3) ''zoo'']"]
    by (simp del: serve_batches.simps receive_response.simps)
qed

end
