(* ===== verification/Client_Properties.thy ===== *)
theory Client_Properties
  imports Http3_Client Remote_Calls
begin

text \<open>
  What a client guarantees: it catches up with the journal of a route, its changes reach the server, and
  what a waiting operation of it needs to return.
\<close>

section \<open>Catching up with the journal\<close>

lemma process_journal_no_gap:
  assumes "fst (hd ns) \<le> fst (last_notification c)" and "\<not> numbers_jump (fst (hd ns)) ns" and "ns \<noteq> []"
    and "fst (last_valid (hd ns) ns) \<noteq> - 1"
  shows "process_journal ops ns c =
    act_bind (act_each (process_one_notification ops) (filter (\<lambda>s. fst (last_notification c) < fst s) ns))
      (\<lambda>_. change (\<lambda>c. c\<lparr>notification_block := False, last_notification := last_valid (hd ns) ns\<rparr>)) c"
proof -
  have each: "act_each (\<lambda>s. if P s then f s else act_return ()) xs = act_each f (filter P xs)"
    for P and f :: "'x \<Rightarrow> ('s, unit) act" and xs
    by (induction xs) auto
  have gap: "\<not> (fst (last_notification c) < fst (hd ns) \<or> numbers_jump (fst (hd ns)) ns)"
    using assms(1,2) by (simp add: not_less)
  obtain n ms where ns: "ns = n # ms" using assms(3) by (cases ns) auto
  have "process_journal ops ns c =
      act_bind (act_each (\<lambda>s. if fst (last_notification c) < fst s then process_one_notification ops s else act_return ()) ns)
       (\<lambda>_. act_bind (change (\<lambda>c. c\<lparr>notification_block := False\<rparr>)) (\<lambda>_. update_last_notification (last_valid (hd ns) ns))) c"
    using gap by (simp add: ns process_journal_def act_bind_def ask_def split: prod.split)
  also have "act_bind (change (\<lambda>c. c\<lparr>notification_block := False\<rparr>)) (\<lambda>_. update_last_notification (last_valid (hd ns) ns)) =
      change (\<lambda>c. c\<lparr>notification_block := False, last_notification := last_valid (hd ns) ns\<rparr>)"
    using assms(4) by (intro ext) (simp add: update_last_notification_def act_bind_def change_def)
  finally show ?thesis by (simp only: each)
qed

text \<open>A run of journal entries, as \<open>journal_ok\<close> describes it, whose numbers stay below \<open>-1\<close>.\<close>

definition numbered_from :: "nat \<Rightarrow> sequential_notification list \<Rightarrow> bool" where
  "numbered_from k ns \<longleftrightarrow> k + length ns < 2 ^ 64 \<and> (\<forall>i < length ns. unat (fst (ns ! i)) = k + i)"

lemma numbered_from_Cons [simp]:
  "numbered_from k (s # ns) \<longleftrightarrow> unat (fst s) = k \<and> numbered_from (Suc k) ns \<and> k + 1 < 2 ^ 64"
  by (auto simp: numbered_from_def less_Suc_eq_0_disj nth_Cons split: nat.splits)

lemma numbered_not_minus_one:
  assumes "unat (w :: u64) = k" and "k + 1 < 2 ^ 64"
  shows "w \<noteq> - 1" and "unat (w + 1) = k + 1"
proof -
  show "w \<noteq> - 1" using assms by (auto simp: unsigned_minus_1_eq_mask mask_eq_exp_minus_1)
  show "unat (w + 1) = k + 1" using assms by (simp add: unat_word_ariths)
qed

lemma numbered_no_jump:
  assumes "numbered_from k ns" and "unat cur = k \<or> unat cur + 1 = k"
  shows "\<not> numbers_jump cur ns"
  using assms
proof (induction ns arbitrary: k cur)
  case (Cons s ns)
  have k: "unat (fst s) = k" "k + 1 < 2 ^ 64" "numbered_from (Suc k) ns" using Cons.prems(1) by auto
  have "fst s \<noteq> - 1" by (rule numbered_not_minus_one(1) [OF k(1,2)])
  moreover have "\<not> cur + 1 < fst s"
  proof -
    have "unat cur + 1 < 2 ^ 64" using Cons.prems(2) k(2) by auto
    then have "unat (cur + 1) = unat cur + 1" using numbered_not_minus_one(2) [OF refl, of cur] by simp
    then show ?thesis using Cons.prems(2) k(1) by (auto simp: word_less_nat_alt)
  qed
  moreover have "\<not> numbers_jump (fst s) ns" by (rule Cons.IH [OF k(3)]) (simp add: k(1))
  ultimately show ?case by simp
qed simp

lemma numbered_last_valid:
  "numbered_from k ns \<Longrightarrow> last_valid v ns = (if ns = [] then v else last ns)"
proof (induction ns arbitrary: k v)
  case (Cons s ns)
  have "fst s \<noteq> - 1" using Cons.prems numbered_not_minus_one(1) [of "fst s" k] by auto
  then show ?case using Cons.IH [of "Suc k" s] Cons.prems by auto
qed simp

lemma journal_numbered:
  assumes "journal_ok n j" and "unat (fst (hd j)) + length j < 2 ^ 64"
  shows "numbered_from (unat (fst (hd j))) j"
  using assms journal_number [OF assms(1)] by (simp add: numbered_from_def journal_numbers_fit_def)

lemma numbered_drop: "numbered_from k ns \<Longrightarrow> d \<le> length ns \<Longrightarrow> numbered_from (k + d) (drop d ns)"
  by (auto simp: numbered_from_def)

lemma numbered_filter:
  assumes "numbered_from k ns" and "k \<le> unat i"
  shows "filter (\<lambda>s. i \<le> fst s) ns = drop (unat i - k) ns"
  using assms
proof (induction ns arbitrary: k)
  case (Cons s ns)
  show ?case
  proof (cases "unat i = k")
    case True
    have "i \<le> fst s'" if "s' \<in> set (s # ns)" for s'
      using Cons.prems(1) that True by (auto simp: numbered_from_def in_set_conv_nth word_le_nat_alt)
    then show ?thesis using True by (simp add: filter_id_conv)
  next
    case False
    then have "filter (\<lambda>s. i \<le> fst s) ns = drop (unat i - Suc k) ns"
      using Cons.prems by (intro Cons.IH) auto
    moreover have "unat i - k = Suc (unat i - Suc k)" using False Cons.prems(2) by simp
    ultimately show ?thesis using Cons.prems False by (simp add: word_le_nat_alt)
  qed
qed simp

lemma fst_received [simp]: "fst (received_notification r sig s) = fst s"
  by (simp add: received_notification_def)

lemma filter_received [simp]:
  "filter (\<lambda>s. P (fst s)) (map (received_notification r sig) ns) = map (received_notification r sig) (filter (\<lambda>s. P (fst s)) ns)"
  by (induction ns) simp_all

lemma numbered_received [simp]:
  "numbered_from k (map (received_notification r sig) ns) \<longleftrightarrow> numbered_from k ns"
  by (simp add: numbered_from_def)

text \<open>
  C5: a client whose last number is still in the journal of a route catches up: from the route's answer it
  applies exactly the entries it has not seen, each once and in order, and its last number is then the
  last one of the journal.
\<close>

theorem journal_catch_up:
  assumes "journal_ok n j" and "unat (fst (hd j)) + length j < 2 ^ 64"
    and "fst (hd j) \<le> fst (last_notification c)" and "fst (last_notification c) \<le> fst (last j)"
  shows "\<exists>ns. journal_answer (fst (last_notification c)) j = Inr ns \<and>
    process_journal ops (map (received_notification r sig) ns) c =
    act_bind (act_each (process_one_notification ops)
        (map (received_notification r sig) (filter (\<lambda>s. fst (last_notification c) < fst s) j)))
      (\<lambda>_. change (\<lambda>c. c\<lparr>notification_block := False, last_notification := received_notification r sig (last j)\<rparr>)) c"
proof -
  define i where "i = fst (last_notification c)"
  define k where "k = unat (fst (hd j))"
  define ns where "ns = filter (\<lambda>s. i \<le> fst s) j"
  have j: "numbered_from k j" "j \<noteq> []"
    using journal_numbered [OF assms(1,2)] assms(1) by (simp_all add: k_def journal_ok_def)
  have fits: "journal_numbers_fit j" using assms(2) by (simp add: journal_numbers_fit_def)
  have top: "unat (fst (last j)) = k + (length j - 1)"
    using j by (simp add: numbered_from_def last_conv_nth)
  have i: "k \<le> unat i" "unat i - k < length j"
    using assms(3,4) top j(2) by (auto simp: i_def k_def word_le_nat_alt simp flip: length_greater_0_conv)
  have drop: "ns = drop (unat i - k) j" unfolding ns_def by (rule numbered_filter [OF j(1) i(1)])
  have ns: "numbered_from (unat i) ns" "ns \<noteq> []" "last ns = last j"
    using numbered_drop [OF j(1), of "unat i - k"] i by (simp_all add: drop)
  then have hd: "unat (fst (hd ns)) = unat i" by (simp add: numbered_from_def hd_conv_nth)
  let ?ms = "map (received_notification r sig) ns"
  have ms: "numbered_from (unat i) ?ms" "?ms \<noteq> []" "unat (fst (hd ?ms)) = unat i"
      "last_valid (hd ?ms) ?ms = received_notification r sig (last j)"
    using ns hd numbered_last_valid [of "unat i" ?ms] by (simp_all add: hd_map last_map)
  have sub: "filter (\<lambda>s. i < fst s) ns = filter (\<lambda>s. i < fst s) j"
    by (auto simp: ns_def intro!: filter_cong)
  have answer: "journal_answer i j = Inr ns"
    using journal_answer_entries_core [OF assms(1) fits, of i] assms(3,4) by (simp add: i_def ns_def)
  have "k + (length j - 1) + 1 < 2 ^ 64"
    using j(2) assms(2) by (cases j) (simp_all add: k_def)
  then have "fst (last j) \<noteq> - 1" by (rule numbered_not_minus_one(1) [OF top])
  then have last: "fst (last_valid (hd ?ms) ?ms) \<noteq> - 1"
    by (simp add: ms(4))
  have "\<not> numbers_jump (fst (hd ?ms)) ?ms" by (rule numbered_no_jump [OF ms(1)]) (simp add: ms(3))
  moreover have "fst (hd ?ms) \<le> i" using ms(3) by (simp add: word_le_nat_alt)
  ultimately show ?thesis
    using process_journal_no_gap [of ?ms c ops] ms(2,4) last answer sub by (simp add: i_def)
qed

text \<open>A client of the examples: a fresh replica, nothing sent yet.\<close>

definition example_client :: "bool \<Rightarrow> sequential_notification \<Rightarrow> (simple_backend, nat) client" where
  "example_client b sn = \<lparr>local_backend = simple_new [], need_page_sync = False, last_notification = sn,
     mutable_page_rule = ''MutableNodes'', server_sync = True, blocking = b, answer_ready = False,
     bool_response = False, maybe_tree_response = None, vector_tree_response = [], chunks_response = [],
     url_info = Http_Request ''https'' ''localhost'' ''/wwatp/test'' ''GET'' 0 0, pending_requests = [],
     journal_rate = 0, last_journal_time = 0, journal_waiting = False, static_node = None,
     notification_block = False\<rparr>"

theorem journal_catch_up_witness:
  "\<exists>ns. journal_answer 8 [(7, ''a'', None), (8, ''b'', None), (9, ''c'', None)] = Inr ns \<and>
    process_journal simple_ops (map (received_notification 4 0x22) ns) (example_client True (8, ''b'', None)) =
    act_bind (act_each (process_one_notification simple_ops) [(9, ''c'', None)])
      (\<lambda>_. change (\<lambda>c. c\<lparr>notification_block := False, last_notification := (9, ''c'', None)\<rparr>))
      (example_client True (8, ''b'', None))"
proof -
  have "journal_ok 3 [(7, ''a'', None), (8, ''b'', None), (9, ''c'', None)]"
    by (auto simp: journal_ok_def less_Suc_eq_0_disj numeral_3_eq_3)
  from journal_catch_up [OF this, where c = "example_client True (8, ''b'', None)" and r = 4 and sig = "0x22" and ops = simple_ops]
  show ?thesis by (simp add: example_client_def received_notification_def del: act_each.simps)
qed

section \<open>A client that has lost the thread\<close>

text \<open>
  C21: a client whose last number lies outside the journal leaves its replica alone, asks for the mutable
  page tree, and goes on from the latest number. The notification block is lifted at once, before the page
  tree is there.
\<close>

theorem journal_gap_resyncs:
  assumes "journal_ok n j" and "journal_numbers_fit j" and "fst (last j) \<noteq> - 1"
    and "fst (last_notification c) < fst (hd j) \<or> fst (last j) < fst (last_notification c)"
  shows "\<exists>ns m. journal_answer (fst (last_notification c)) j = Inr ns \<and>
    process_journal ops (map (received_notification r sig) ns) c =
      (c\<lparr>pending_requests := pending_requests c @ [m], notification_block := False,
         last_notification := (fst (last j), '''', None)\<rparr>, [], Inr ()) \<and>
    is_journal_request m \<and> encode_getPageTreeRequest ''MutableNodes'' (message_new 0 0) =
      (m\<lparr>is_journal_request := False\<rparr>, Inr ())"
proof -
  let ?marks = "[(0, '''', None), (2, '''', None), (fst (last j), '''', None)] :: sequential_notification list"
  have answer: "journal_answer (fst (last_notification c)) j = Inr ?marks"
    using journal_answer_entries_core [OF assms(1,2), of "fst (last_notification c)"] assms(4) by auto
  have marks: "map (received_notification r sig) ?marks = ?marks" by (simp add: received_notification_def)
  have two: "(2 :: u64) \<noteq> - 1" "(0 :: u64) + 1 < 2" "(0 :: u64) \<noteq> - 1" by simp_all
  have gap: "numbers_jump (fst (hd ?marks)) ?marks" using two by simp
  have valid: "last_valid (hd ?marks) ?marks = (fst (last j), '''', None)" using assms(3) two by simp
  define m0 where "m0 = fst (encode_getPageTreeRequest ''MutableNodes'' (message_new 0 0))"
  have enc: "encode_getPageTreeRequest ''MutableNodes'' (message_new 0 0) = (m0, Inr ())" "\<not> is_journal_request m0"
    by (simp_all add: m0_def encode_getPageTreeRequest_def begin_request_def encode_label_def message_new_def
        payload_max_def chunk_size_def)
  have each: "act_each (\<lambda>s. act_return ()) xs = act_return ()" for xs :: "'x list"
    by (induction xs) auto
  have "process_journal ops ?marks c =
      (c\<lparr>pending_requests := pending_requests c @ [set_is_journal_request True m0], notification_block := False,
         last_notification := (fst (last j), '''', None)\<rparr>, [], Inr ())"
    using gap valid assms(3) unfolding process_journal_def
    by (simp add: act_bind_def ask_def act_return_def get_mutable_page_tree_in_mode_def enqueue_def enc(1)
        update_last_notification_def change_def Let_def)
  moreover have "(set_is_journal_request True m0)\<lparr>is_journal_request := False\<rparr> = m0"
    using enc(2) by (cases m0) (simp add: set_is_journal_request_def)
  ultimately show ?thesis
    using answer marks enc(1) by (intro exI [of _ ?marks] exI [of _ "set_is_journal_request True m0"])
      (simp add: set_is_journal_request_def)
qed

theorem journal_gap_resyncs_witness:
  "\<exists>ns m. journal_answer 3 [(7, ''a'', None), (8, ''b'', None)] = Inr ns \<and>
    process_journal simple_ops (map (received_notification 4 0x22) ns) (example_client True (3, ''b'', None)) =
      ((example_client True (3, ''b'', None))\<lparr>pending_requests := [m], notification_block := False,
         last_notification := (8, '''', None)\<rparr>, [], Inr ()) \<and>
    is_journal_request m \<and> encode_getPageTreeRequest ''MutableNodes'' (message_new 0 0) =
      (m\<lparr>is_journal_request := False\<rparr>, Inr ())"
proof -
  have "journal_ok 3 [(7, ''a'', None), (8, ''b'', None)]"
    by (auto simp: journal_ok_def less_Suc_eq_0_disj)
  from journal_gap_resyncs [OF this, where c = "example_client True (3, ''b'', None)" and r = 4 and sig = "0x22" and ops = simple_ops]
  show ?thesis by (simp add: example_client_def journal_numbers_fit_def)
qed

section \<open>The replica\<close>

context tree_backend
begin

text \<open>Following changes that set nodes, the replica holds under each label the last node set.\<close>

lemma replica_follows:
  assumes "inv (local_backend c)" and "\<forall>s \<in> set ns. fst (snd s) \<noteq> '''' \<and> (\<exists>n. snd (snd s) = Some n \<and> accepts n)"
  shows "\<exists>c' es. act_each (process_one_notification ops) ns c = (c', es, Inr ()) \<and> inv (local_backend c') \<and>
    view (local_backend c') = view_store (map (\<lambda>s. the (snd (snd s))) ns) (view (local_backend c)) \<and>
    pending_requests c' = pending_requests c \<and> (ns \<noteq> [] \<longrightarrow> server_sync c')"
  using assms
proof (induction ns arbitrary: c)
  case Nil
  then show ?case by (simp add: act_return_def)
next
  case (Cons s ns)
  obtain k l n where s: "s = (k, l, Some n)" "accepts n" "l \<noteq> ''''"
    using Cons.prems(2) by (cases s) auto
  obtain s1 es1 where up: "b_upsert ops [n] (local_backend c) = (s1, es1, Inr True)" "inv s1"
      "view s1 = view_store [n] (view (local_backend c))"
    using upsert [OF Cons.prems(1), of "[n]"] s(2) by auto
  define c1 where "c1 = c\<lparr>server_sync := True, local_backend := s1\<rparr>"
  have one: "process_one_notification ops s c = (c1, es1, Inr ())"
    using s(3) by (simp add: s(1) process_one_notification_def silently_def act_bind_def change_def client_upsert_def
        on_local_def up(1) send_and_wait_def ask_def act_return_def c1_def)
  have "inv (local_backend c1)" "\<forall>s \<in> set ns. fst (snd s) \<noteq> '''' \<and> (\<exists>n. snd (snd s) = Some n \<and> accepts n)"
    using Cons.prems(2) up(2) by (simp_all add: c1_def)
  then obtain c2 es2 where rest: "act_each (process_one_notification ops) ns c1 = (c2, es2, Inr ())"
      "inv (local_backend c2)"
      "view (local_backend c2) = view_store (map (\<lambda>s. the (snd (snd s))) ns) (view s1)"
      "pending_requests c2 = pending_requests c" "ns \<noteq> [] \<longrightarrow> server_sync c2"
    using Cons.IH [of c1] unfolding c1_def by auto
  have "server_sync c2" using rest(1,5) by (cases ns) (auto simp: act_return_def c1_def)
  moreover have "view (local_backend c2) = view_store (map (\<lambda>s. the (snd (snd s))) (s # ns)) (view (local_backend c))"
    using rest(3) up(3) view_store_append [of "[n]"] s(1) by simp
  moreover have "act_each (process_one_notification ops) (s # ns) c = (c2, es1 @ es2, Inr ())"
    by (simp add: act_bind_Inr [where m = "process_one_notification ops s", OF one] rest(1))
  ultimately show ?case using rest(2,4) by (simp del: act_each.simps)
qed

end


lemma example_client_simps [simp]:
  "simple_inv (local_backend (example_client b sn))" "memory_tree (local_backend (example_client b sn)) = []"
  "pending_requests (example_client b sn) = []" "server_sync (example_client b sn)"
  "blocking (example_client b sn) = b" "last_notification (example_client b sn) = sn"
  by (simp_all add: example_client_def simple_new_def simple_inv_def keyed_def listeners_ok_def)


end
