(* ===== verification/Client_Waiting.thy ===== *)
theory Client_Waiting
  imports Client_Properties
begin

text \<open>
  A thread that waits in an operation of a blocking client, beside the thread that processes responses.
  The steps are the critical sections of the code: beginning to wait, processing one response, waking up.
\<close>

section \<open>Two threads\<close>

text \<open>Where the waiting thread is: the request is queued, it sleeps, or the operation has returned.\<close>

datatype caller = Entered waiting | Asleep waiting | Finished bool

type_synonym ('s, 't) threads = "('s, 't) client \<times> message list \<times> caller"

inductive thread_step :: "'t clock \<Rightarrow> 's backend_ops \<Rightarrow> ('s, 't) threads \<Rightarrow> ('s, 't) threads \<Rightarrow> bool"
  for clk :: "'t clock" and ops :: "'s backend_ops" where
  begin_wait: "thread_step clk ops (c, ms, Entered w) (await_begin w c, ms, Asleep w)"
| respond: "process_response ops (c, m) = ((c', m'), es, Inr ()) \<Longrightarrow> thread_step clk ops (c, m # ms, t) (c', ms, t)"
| wake_return: "may_resume w c \<Longrightarrow> resume clk ops w c = (c', es, Inr (Returned b)) \<Longrightarrow>
    thread_step clk ops (c, ms, Asleep w) (c', ms, Finished b)"
| wake_wait: "may_resume w c \<Longrightarrow> resume clk ops w c = (c', es, Inr (Blocked w')) \<Longrightarrow>
    thread_step clk ops (c, ms, Asleep w) (c', ms, Entered w')"

inductive_cases entered_step: "thread_step clk ops (c, [], Entered w) s"
inductive_cases asleep_step: "thread_step clk ops (c, [], Asleep w) s"
inductive_cases asleep_response_step: "thread_step clk ops (c, [m], Asleep w) s"
inductive_cases finished_step: "thread_step clk ops (c, [], Finished b) s"

section \<open>Answers that are flags\<close>

fun response_flag :: "response \<Rightarrow> bool option" where
  "response_flag (Rs_Upsert_Node b) = Some b"
| "response_flag (Rs_Delete_Node b) = Some b"
| "response_flag (Rs_Open_Layer b) = Some b"
| "response_flag (Rs_Close_Layers b) = Some b"
| "response_flag (Rs_Apply b) = Some b"
| "response_flag (Rs_Register b) = Some b"
| "response_flag (Rs_Deregister b) = Some b"
| "response_flag (Rs_Notify b) = Some b"
| "response_flag _ = None"

text \<open>A message whose response is one of these.\<close>

definition answers :: "message \<Rightarrow> bool \<Rightarrow> bool" where
  "answers m b \<longleftrightarrow> (\<exists>k a m'. call_of_response (msg_signal m) = Some k \<and> receive_response k m = (m', Inr a) \<and>
     response_flag a = Some b)"

lemma op_map_InrD: "op_map f g m = (m', Inr y) \<Longrightarrow> \<exists>x. g m = (m', Inr x) \<and> y = f x"
  by (auto simp: op_map_def split: prod.splits sum.splits)

lemma call_of_other: "call_of_response signal_other_chunk = None"
  by (simp add: call_of_response_def calls_def signal_other_chunk_def)

lemma flag_taken:
  assumes "dec m = (m', Inr b)"
  shows "take_flag_response dec (c, m) =
    ((c\<lparr>bool_response := b, answer_ready := blocking c \<or> answer_ready c\<rparr>, m'), [], Inr ())"
  using assms
  by (cases c) (simp add: take_flag_response_def act_bind_def of_message_def of_client_def change_def wake_or_def ask_def
      signal_response_def act_return_def)

lemma take_response_finishes: "take_response dec m = (m', Inr b) \<Longrightarrow> processing_finished m'"
  by (auto simp: take_response_def split: if_splits sum.splits)

lemma flag_response:
  assumes "answers m b"
  shows "\<exists>m'. process_response ops (c, m) =
    ((c\<lparr>bool_response := b, answer_ready := blocking c \<or> answer_ready c\<rparr>, m'), [], Inr ()) \<and> processing_finished m'"
proof -
  obtain k a m' where k: "call_of_response (msg_signal m) = Some k" "receive_response k m = (m', Inr a)"
      "response_flag a = Some b"
    using assms by (auto simp: answers_def)
  have "msg_signal m \<noteq> signal_other_chunk" using k(1) call_of_other by auto
  moreover have "processing_finished m'"
    using k(2,3) by (cases k) (auto simp: response_codes dest!: op_map_InrD intro: take_response_finishes)
  ultimately show ?thesis
    using k by (cases k) (auto simp: process_response_def dest!: op_map_InrD dest: flag_taken [where c = c])
qed


text \<open>
  C18: a thread whose request is answered before it begins to wait never returns: waiting begins with
  forgetting the signal, and no other comes.
\<close>

theorem early_answer_lost:
  assumes "answers m b" and "waits_for_signal w"
  shows "\<exists>c1. thread_step clk ops (c, [m], Entered w) (c1, [], Entered w) \<and>
    (\<forall>s. (thread_step clk ops)\<^sup>*\<^sup>* (c1, [], Entered w) s \<longrightarrow> snd (snd s) \<in> {Entered w, Asleep w})"
proof -
  obtain c1 m' where rsp: "process_response ops (c, m) = ((c1, m'), [], Inr ())"
    using flag_response [OF assms(1), of ops c] by blast
  have stuck: "\<not> thread_step clk ops (await_begin w c1, [], Asleep w) s" for s
    using assms(2) by (auto elim!: asleep_step simp: may_resume_def await_begin_def)
  have "s = (c1, [], Entered w) \<or> s = (await_begin w c1, [], Asleep w)"
    if "(thread_step clk ops)\<^sup>*\<^sup>* (c1, [], Entered w) s" for s
    using that
  proof (induction rule: rtranclp_induct)
    case (step s s')
    then show ?case by (elim disjE) (blast dest: stuck [THEN notE] elim: entered_step)+
  qed simp
  then show ?thesis using respond [OF rsp, of clk "[]" "Entered w"] by fastforce
qed

definition example_answer :: message where
  "example_answer = (message_new 4 0x0A)\<lparr>response_chunks := [vs_of_data (Payload_Header 0x0A 4 1) ''1''],
     response_complete := True\<rparr>"

lemma example_answers: "answers example_answer True"
proof -
  have "decode_flag [vs_of_data (Payload_Header 0x0A 4 1) ''1''] = Inr (1, True)"
    by code_simp
  then have "decode_upsertNodeResponse example_answer = (example_answer\<lparr>processing_finished := True\<rparr>, Inr True)"
    by (simp add: decode_upsertNodeResponse_def take_response_def example_answer_def message_new_def)
  then have "receive_response Upsert_Node example_answer =
      (example_answer\<lparr>processing_finished := True\<rparr>, Inr (Rs_Upsert_Node True))"
    by (simp add: op_map_def)
  moreover have "call_of_response (msg_signal example_answer) = Some Upsert_Node"
    by (simp add: example_answer_def message_new_def call_of_response_def calls_def)
  ultimately show ?thesis unfolding answers_def by (metis response_flag.simps(1))
qed

definition example_clock :: "nat clock" where
  "example_clock = \<lparr>clock_zero = 0, clock_two = 2, clock_unset = (\<lambda>t. t \<le> 1), clock_due = (\<lambda>now last n. 60 < (now - last) * n)\<rparr>"


theorem early_answer_lost_witness:
  "\<exists>c1. thread_step example_clock simple_ops (example_client True (0, '''', None), [example_answer], Entered Wait_Bool)
      (c1, [], Entered Wait_Bool) \<and>
    (\<forall>s. (thread_step example_clock simple_ops)\<^sup>*\<^sup>* (c1, [], Entered Wait_Bool) s \<longrightarrow>
       snd (snd s) \<in> {Entered Wait_Bool, Asleep Wait_Bool})"
  by (rule early_answer_lost [OF example_answers]) simp

end
