(* ===== verification/Client_Server.thy ===== *)
theory Client_Server
  imports Client_Waiting
begin

text \<open>
  A client and a route together: what a client changes, the backend of the route changes.
\<close>

lemma client_upsert_queues:
  assumes "client_upsert ops ns c = (c1, es, Inr out)" and "server_sync c"
  shows "\<exists>m. encode_upsertNodeRequest ns (message_new 0 0) = (m, Inr ()) \<and>
    pending_requests c1 = pending_requests c @ [m] \<and> blocking c1 = blocking c"
  using assms
  by (auto simp: client_upsert_def act_bind_def on_local_def send_and_wait_def ask_def enqueue_def act_return_def
      split: prod.splits sum.splits)

lemma request_leaves_responses:
  assumes "send_request q m = (m1, Inr ())" and "setRequestId r m1 = (m2, Inr ())"
  shows "response_chunks m2 = response_chunks m" and "response_complete m2 = response_complete m"
proof -
  have b: "begin_request c enc m = (m1, Inr ()) \<Longrightarrow>
      response_chunks m1 = response_chunks m \<and> response_complete m1 = response_complete m" for c enc m1
    by (auto simp: begin_request_def Let_def split: if_splits sum.splits)
  have j: "marking_journal (begin_request c enc) m = (m1, Inr ()) \<Longrightarrow>
      response_chunks m1 = response_chunks m \<and> response_complete m1 = response_complete m" for c enc m1
    by (auto simp: marking_journal_def begin_request_def Let_def split: if_splits sum.splits prod.splits)
  have "response_chunks m1 = response_chunks m \<and> response_complete m1 = response_complete m"
    using assms(1) by (cases q) (simp_all add: request_codes b j)
  moreover have "response_chunks m2 = response_chunks m1 \<and> response_complete m2 = response_complete m1"
    using assms(2) by (auto simp: setRequestId_def Let_def split: prod.splits sum.splits)
  ultimately show "response_chunks m2 = response_chunks m" "response_complete m2 = response_complete m" by simp_all
qed

lemma signal_after_feed:
  assumes "call_of_response sig = Some k" and "list_all (stamped r sig) cs" and "cs \<noteq> []"
    and "feed pushResponseChunk cs n = (n1, Inr ())" and "response_complete n1" and "\<not> response_complete n"
  shows "msg_signal n1 = sig"
proof -
  have "msg_signal n1 = sig \<or> response_complete n1 = response_complete n"
    using assms(2,4)
  proof (induction cs arbitrary: n)
    case (Cons c cs)
    have c: "vs_signal c = Inr sig" "vs_type c = 2" using Cons.prems(1) stamped_signal [of r sig c] by auto
    obtain n2 where n2: "pushResponseChunk c n = (n2, Inr ())" "feed pushResponseChunk cs n2 = (n1, Inr ())"
      using Cons.prems(2) by (auto split: prod.splits sum.splits)
    have keep: "msg_signal n' = sig \<Longrightarrow> feed pushResponseChunk ds n' = (n1, Inr ()) \<Longrightarrow>
        list_all (stamped r sig) ds \<Longrightarrow> msg_signal n1 = sig" for n' ds
    proof (induction ds arbitrary: n')
      case (Cons d ds)
      have d: "vs_signal d = Inr sig" "vs_type d = 2" using Cons.prems(3) stamped_signal [of r sig d] by auto
      obtain n3 where n3: "pushResponseChunk d n' = (n3, Inr ())" "feed pushResponseChunk ds n3 = (n1, Inr ())"
        using Cons.prems(2) by (auto split: prod.splits sum.splits)
      have "msg_signal n3 = sig"
        using n3(1) d Cons.prems(1) assms(1)
        by (auto simp: pushResponseChunk_def Let_def split: sum.splits option.splits)
      then show ?case using Cons.IH [OF _ n3(2)] Cons.prems(3) by simp
    qed simp
    have "msg_signal n2 = sig \<or> (response_complete n2 = response_complete n)"
      using n2(1) c assms(1) by (auto simp: pushResponseChunk_def Let_def split: sum.splits option.splits)
    then show ?case using Cons.IH [OF _ n2(2)] keep [OF _ n2(2)] Cons.prems(1) by auto
  qed simp
  then show ?thesis using assms(5,6) by simp
qed

text \<open>The change alone: the message of an upsert, taken to a route, and its answer taken to a client.\<close>

lemma upsert_travels:
  assumes "encode_upsertNodeRequest ns (message_new 0 0) = (m0, Inr ())" and "setRequestId (si_logical sid) m0 = (m, Inr ())"
    and "vector_sendable node_sendable ns"
    and "length (request_chunks m) < 2 ^ 64" and "concat bs @ b = request_chunks m" and "b \<noteq> []"
    and "map_of (ongoing rt) sid = None"
    and "on_backend me (b_upsert sops (map (received_node (si_logical sid) (request_signal Upsert_Node)) ns)) rt =
      (rt2, es, Inr x)"
    and "response_chunks n = []" and "\<not> response_complete n"
  shows "\<exists>m' ds. serve_batches sops me fresh sid (bs @ [b]) rt = (keep_message sid m' rt2, es, Inr (map (\<lambda>_. []) bs @ [ds])) \<and>
    (length ds < 2 ^ 64 \<longrightarrow> (\<exists>n1 n2. feed pushResponseChunk ds n = (n1, Inr ()) \<and> response_complete n1 \<and>
       process_response ops (d, n1) =
         ((d\<lparr>bool_response := True, answer_ready := blocking d \<or> answer_ready d\<rparr>, n2), [], Inr ()) \<and>
       processing_finished n2))"
proof -
  have send: "send_request (Rq_Upsert_Node ns) (message_new 0 0) = (m0, Inr ())" using assms(1) by simp
  have "perform sops me (received_request (si_logical sid) (Rq_Upsert_Node ns)) rt = (rt2, es, Inr (Rs_Upsert_Node True))"
    using assms(8) by (simp add: act_bind_def act_return_def)
  from remote_call_core [OF _ send assms(2,4-7) this _ assms(9,10), of fresh] assms(3)
  obtain m' ds where ds: "serve_batches sops me fresh sid (bs @ [b]) rt = (keep_message sid m' rt2, es, Inr (map (\<lambda>_. []) bs @ [ds]))"
      "list_all (stamped (si_logical sid) (response_signal Upsert_Node)) ds"
      "length ds < 2 ^ 64 \<Longrightarrow> \<exists>n1. feed pushResponseChunk ds n = (n1, Inr ()) \<and> response_complete n1 \<and>
         snd (receive_response Upsert_Node n1) = Inr (Rs_Upsert_Node True)"
    by auto
  have "\<exists>n1 n2. feed pushResponseChunk ds n = (n1, Inr ()) \<and> response_complete n1 \<and>
      process_response ops (d, n1) =
        ((d\<lparr>bool_response := True, answer_ready := blocking d \<or> answer_ready d\<rparr>, n2), [], Inr ()) \<and>
      processing_finished n2"
    if short: "length ds < 2 ^ 64"
  proof -
    obtain n1 where n1: "feed pushResponseChunk ds n = (n1, Inr ())" "response_complete n1"
        "snd (receive_response Upsert_Node n1) = Inr (Rs_Upsert_Node True)"
      using ds(3) [OF short] by blast
    have "ds \<noteq> []" using n1(1,2) assms(10) by auto
    then have "msg_signal n1 = response_signal Upsert_Node"
      using signal_after_feed [of "response_signal Upsert_Node" Upsert_Node, OF _ ds(2) _ n1(1,2) assms(10)]
      by (simp add: call_of_response_def calls_def)
    then have "call_of_response (msg_signal n1) = Some Upsert_Node" by (simp only: call_of_signal)
    then have "answers n1 True"
      unfolding answers_def using n1(3) by (metis prod.collapse response_flag.simps(1))
    then show ?thesis using flag_response [of n1 True ops d] n1(1,2) by blast
  qed
  then show ?thesis using ds(1) by blast
qed


definition example_upsert_message :: message where
  "example_upsert_message = (message_new 0 0x09)\<lparr>request_chunks := [vs_of_data (Payload_Header 0x09 0 1) ''0''],
     is_initialized := True\<rparr>"

definition example_writer :: "(simple_backend, nat) client" where
  "example_writer = (example_client True (0, '''', None))\<lparr>pending_requests := [example_upsert_message]\<rparr>"

lemma example_upsert:
  "b_upsert simple_ops [] (simple_new t) = (simple_new t, [], Inr True)"
  "client_upsert simple_ops [] (example_client True (0, '''', None)) = (example_writer, [], Inr (Blocked Wait_Bool))"
proof -
  show up: "b_upsert simple_ops [] (simple_new t) = (simple_new t, [], Inr True)" for t
    by (simp add: simple_ops_def simple_upsert_def act_bind_def act_return_def simple_new_def tree_upsert_def)
  have dec: "to_dec 0 = ''0''" by code_simp
  have "encode_upsertNodeRequest [] (message_new 0 0) = (example_upsert_message, Inr ())"
    by (simp add: example_upsert_message_def encode_upsertNodeRequest_def begin_request_def encode_VectorTreeNode_def
        encode_label_def message_new_def payload_max_def chunk_size_def dec)
  then show "client_upsert simple_ops [] (example_client True (0, '''', None)) = (example_writer, [], Inr (Blocked Wait_Bool))"
    by (simp add: client_upsert_def act_bind_def on_local_def send_and_wait_def ask_def enqueue_def act_return_def
        example_writer_def example_client_def up)
qed


end
