(* ===== verification/Stream_Queues.thy ===== *)
theory Stream_Queues
  imports Http3_Server Http_Request
begin

text \<open>
  The queues between the worker threads and the wire: \<open>QuicConnector\<close> (client side), \<open>QuicListener\<close> (server
  side) and the simpler \<open>TcpCommunication\<close>, all in \<open>common/transport\<close>. A callback of a stream is a value
  \<open>'h\<close>; \<open>run\<close> is what calling it does, on the queues and on the rest \<open>'u\<close> of the program. The event loop
  that moves bytes (ngtcp2, nghttp3, libev, sockets) calls the operations of the last two sections.
\<close>

section \<open>State\<close>

record ('h, 'p) queues =
  requestors :: "(stream_id \<times> 'h) list"
  responders :: "(stream_id \<times> 'h) list"
  incoming :: "(stream_id \<times> chunk_list) list"
  outgoing :: "(stream_id \<times> chunk_list) list"
  preparers :: "(string \<times> 'p) list"
  return_paths :: "(stream_id \<times> http_request) list"
  static_requests :: "(http_request \<times> stream_id) list"
  id_counter :: u16

text \<open>The counter of the connector starts with 2, the one of the listener with 1; both go up by 2.\<close>

definition queues_new :: "u16 \<Rightarrow> ('h, 'p) queues" where
  "queues_new start = \<lparr>requestors = [], responders = [], incoming = [], outgoing = [], preparers = [],
     return_paths = [], static_requests = [], id_counter = start\<rparr>"

type_synonym ('h, 'p, 'u, 'a) queue_act = "(('h, 'p) queues \<times> 'u, 'a) act"
type_synonym ('h, 'p, 'u) runner = "'h \<Rightarrow> stream_id \<Rightarrow> chunk_list \<Rightarrow> ('h, 'p, 'u, chunk_list) queue_act"

section \<open>Handlers\<close>

definition register_response_handler :: "stream_id \<Rightarrow> 'h \<Rightarrow> ('h, 'p) queues \<Rightarrow> ('h, 'p) queues" where
  "register_response_handler sid h q = q\<lparr>requestors := requestors q @ [(sid, h)]\<rparr>"

definition has_response_handler :: "stream_id \<Rightarrow> ('h, 'p) queues \<Rightarrow> bool" where
  "has_response_handler sid q \<longleftrightarrow> list_ex (\<lambda>e. fst e = sid) (requestors q)"

definition deregister_response_handler :: "stream_id \<Rightarrow> ('h, 'p) queues \<Rightarrow> ('h, 'p) queues" where
  "deregister_response_handler sid q = q\<lparr>requestors := filter (\<lambda>e. fst e \<noteq> sid) (requestors q)\<rparr>"

definition register_request_handler :: "string \<times> 'p \<Rightarrow> ('h, 'p) queues \<Rightarrow> ('h, 'p) queues" where
  "register_request_handler p q = q\<lparr>preparers := preparers q @ [p]\<rparr>"

definition deregister_request_handler :: "string \<Rightarrow> ('h, 'p) queues \<Rightarrow> ('h, 'p) queues" where
  "deregister_request_handler name q = q\<lparr>preparers := filter (\<lambda>p. fst p \<noteq> name) (preparers q)\<rparr>"

section \<open>Chunks by stream\<close>

text \<open>Take all chunks that came in for a stream; its entry stays, empty.\<close>

definition take_incoming :: "stream_id \<Rightarrow> ('h, 'p) queues \<Rightarrow> ('h, 'p) queues \<times> chunk_list" where
  "take_incoming sid q =
     (case map_of (incoming q) sid of
        None \<Rightarrow> (q, [])
      | Some cs \<Rightarrow> (q\<lparr>incoming := omap_insert sid [] (incoming q)\<rparr>, cs))"

definition append_chunks :: "stream_id \<Rightarrow> chunk_list \<Rightarrow> (stream_id \<times> chunk_list) list \<Rightarrow> (stream_id \<times> chunk_list) list" where
  "append_chunks sid cs m =
     (case map_of m sid of None \<Rightarrow> omap_insert sid cs m | Some ds \<Rightarrow> omap_insert sid (ds @ cs) m)"

definition put_outgoing :: "stream_id \<Rightarrow> chunk_list \<Rightarrow> ('h, 'p) queues \<Rightarrow> ('h, 'p) queues" where
  "put_outgoing sid cs q = (if cs = [] then q else q\<lparr>outgoing := append_chunks sid cs (outgoing q)\<rparr>)"

definition receive_signal :: "stream_id \<Rightarrow> vspan \<Rightarrow> ('h, 'p) queues \<Rightarrow> ('h, 'p) queues" where
  "receive_signal sid c q = q\<lparr>incoming := append_chunks sid [c] (incoming q)\<rparr>"

text \<open>A single signal chunk is not sent on; the stream is closed when it says so.\<close>

definition lone_signal :: "chunk_list \<Rightarrow> bool" where
  "lone_signal cs \<longleftrightarrow> length cs = 1 \<and> vs_type (hd cs) = 1"

definition forget_stream :: "stream_id \<Rightarrow> ('h, 'p) queues \<Rightarrow> ('h, 'p) queues" where
  "forget_stream sid q = q\<lparr>incoming := omap_erase sid (incoming q), outgoing := omap_erase sid (outgoing q)\<rparr>"

section \<open>Serving the callbacks in turn\<close>

text \<open>
  The first callback leaves the queue, is called on the chunks of its stream and goes to the end of the
  queue again, unless its stream is closed or it throws.
\<close>

definition tcp_process_request_stream :: "('h, 'p, 'u) runner \<Rightarrow> ('h, 'p, 'u, bool) queue_act" where
  "tcp_process_request_stream run = (\<lambda>(q, u).
     case requestors q of
       [] \<Rightarrow> ((q, u), [], Inr False)
     | (sid, h) # rest \<Rightarrow>
         (case take_incoming sid (q\<lparr>requestors := rest\<rparr>) of (q1, cs) \<Rightarrow>
            act_bind (run h sid cs) (\<lambda>out (q2, u2).
              let q3 = put_outgoing sid out q2 in
              ((q3\<lparr>requestors := requestors q3 @ [(sid, h)]\<rparr>, u2), [], Inr True)) (q1, u)))"

definition process_request_stream :: "('h, 'p, 'u) runner \<Rightarrow> ('h, 'p, 'u, bool) queue_act" where
  "process_request_stream run = (\<lambda>(q, u).
     case requestors q of
       [] \<Rightarrow> ((q, u), [], Inr False)
     | (sid, h) # rest \<Rightarrow>
         (case take_incoming sid (q\<lparr>requestors := rest\<rparr>) of (q1, cs) \<Rightarrow>
            act_bind (run h sid cs) (\<lambda>out (q2, u2).
              case closes out of
                Inl e \<Rightarrow> ((q2, u2), [], Inl e)
              | Inr True \<Rightarrow> ((forget_stream sid q2, u2), [], Inr True)
              | Inr False \<Rightarrow>
                  let q3 = (if lone_signal out then q2 else put_outgoing sid out q2) in
                  ((q3\<lparr>requestors := requestors q3 @ [(sid, h)]\<rparr>, u2), [], Inr True)) (q1, u)))"

definition tcp_process_response_stream :: "('h, 'p, 'u) runner \<Rightarrow> ('h, 'p, 'u, bool) queue_act" where
  "tcp_process_response_stream run = (\<lambda>(q, u).
     case responders q of
       [] \<Rightarrow> ((q, u), [], Inr False)
     | (sid, h) # rest \<Rightarrow>
         (case take_incoming sid (q\<lparr>responders := rest\<rparr>) of (q1, cs) \<Rightarrow>
            act_bind (run h sid cs) (\<lambda>out (q2, u2).
              let q3 = put_outgoing sid out q2 in
              ((q3\<lparr>responders := responders q3 @ [(sid, h)]\<rparr>, u2), [], Inr True)) (q1, u)))"

text \<open>
  On the server side a close is held back while chunks of the stream are still to be sent; when it takes
  effect it is fed back to the callback.
\<close>

definition listener_process_response_stream :: "('h, 'p, 'u) runner \<Rightarrow> ('h, 'p, 'u, bool) queue_act" where
  "listener_process_response_stream run = (\<lambda>(q, u).
     case responders q of
       [] \<Rightarrow> ((q, u), [], Inr False)
     | (sid, h) # rest \<Rightarrow>
         (case take_incoming sid (q\<lparr>responders := rest\<rparr>) of (q1, cs) \<Rightarrow>
            act_bind (run h sid cs) (\<lambda>out (q2, u2).
              case closes out of
                Inl e \<Rightarrow> ((q2, u2), [], Inl e)
              | Inr close \<Rightarrow>
                  if close \<and> map_of (outgoing q2) sid = None
                  then act_bind (run h sid out) (\<lambda>_ (q3, u3). ((forget_stream sid q3, u3), [], Inr True)) (q2, u2)
                  else
                    let q3 = (if lone_signal out then q2 else put_outgoing sid out q2) in
                    ((q3\<lparr>responders := responders q3 @ [(sid, h)]\<rparr>, u2), [], Inr True)) (q1, u)))"

section \<open>Stream identifiers\<close>

text \<open>
  The next free number of a connection. Return paths are never removed; when all numbers of a connection
  are taken the search does not end, and the result is \<open>None\<close>.
\<close>

partial_function (option) free_id :: "string \<Rightarrow> (stream_id \<times> http_request) list \<Rightarrow> u16 \<Rightarrow> (u16 \<times> u16) option" where
  "free_id cid paths n =
     (if map_of paths (Stream_Id cid n) = None then Some (n, n + 2) else free_id cid paths (n + 2))"

definition get_new_request_id :: "string \<Rightarrow> http_request \<Rightarrow> ('h, 'p) queues \<Rightarrow> (('h, 'p) queues \<times> stream_id) option" where
  "get_new_request_id cid req q =
     (case (if is_wwatp req then None else map_of (static_requests q) req) of
        Some sid \<Rightarrow> Some (q, sid)
      | None \<Rightarrow>
          map_option (\<lambda>(n, counter).
            let sid = Stream_Id cid n in
            (q\<lparr>id_counter := counter,
               static_requests := (if is_wwatp req then static_requests q else omap_emplace req sid (static_requests q)),
               return_paths := omap_emplace sid req (return_paths q)\<rparr>, sid))
            (free_id cid (return_paths q) (id_counter q)))"

section \<open>Preparing responders\<close>

definition no_response :: uri_response_info where
  "no_response = \<lparr>can_handle = False, is_live_stream = False, is_file = False, dyn_length = 0\<rparr>"

fun prepare_info :: "('p \<Rightarrow> http_request \<Rightarrow> uri_response_info \<times> 'h) \<Rightarrow> http_request \<Rightarrow> (string \<times> 'p) list \<Rightarrow> uri_response_info" where
  "prepare_info prepare req [] = no_response"
| "prepare_info prepare req ((_, p) # ps) =
     (let info = fst (prepare p req) in if can_handle info then info else prepare_info prepare req ps)"

text \<open>
  The lock of the preparers is released in the body of the loop over them: in the second round it is no
  longer held and \<open>unlock\<close> throws.
\<close>

fun first_preparer ::
  "('p \<Rightarrow> http_request \<Rightarrow> uri_response_info \<times> 'h) \<Rightarrow> http_request \<Rightarrow> bool \<Rightarrow> (string \<times> 'p) list \<Rightarrow> (uri_response_info \<times> 'h) option result" where
  "first_preparer prepare req locked [] = Inr None"
| "first_preparer prepare req locked ((_, p) # ps) =
     (let r = prepare p req in
      if \<not> locked then Inl (Runtime_Error ''Operation not permitted'')
      else if can_handle (fst r) then Inr (Some r)
      else first_preparer prepare req False ps)"

definition prepare_handler ::
  "('p \<Rightarrow> http_request \<Rightarrow> uri_response_info \<times> 'h) \<Rightarrow> stream_id \<Rightarrow> http_request \<Rightarrow>
   ('h, 'p) queues \<Rightarrow> ('h, 'p) queues \<times> uri_response_info result" where
  "prepare_handler prepare sid req q =
     (if rq_method req = '''' then (q, Inl Assertion_Failed)
      else (case first_preparer prepare req True (preparers q) of
        Inl e \<Rightarrow> (q, Inl e)
      | Inr None \<Rightarrow> (q, Inr no_response)
      | Inr (Some (info, h)) \<Rightarrow>
          if is_file info then (q, Inr info)
          else if \<not> is_live_stream info
          then (q, Inl (Runtime_Error ''Static handlers should not be handled as live streams in prepareHandler.''))
          else (q\<lparr>responders := responders q @ [(sid, h)], return_paths := omap_emplace sid req (return_paths q)\<rparr>, Inr info)))"

definition next_static_id :: "('h, 'p) queues \<Rightarrow> ('h, 'p) queues \<times> u16" where
  "next_static_id q = (q\<lparr>id_counter := id_counter q + 2\<rparr>, id_counter q)"

text \<open>A static responder is called at once; what stays in the queue is \<open>noop\<close>, which returns nothing.\<close>

definition prepare_static_handler ::
  "('p \<Rightarrow> http_request \<Rightarrow> uri_response_info \<times> 'h) \<Rightarrow> ('h, 'p, 'u) runner \<Rightarrow> 'h \<Rightarrow> string \<Rightarrow> http_request \<Rightarrow>
   ('h, 'p, 'u, uri_response_info) queue_act" where
  "prepare_static_handler prepare run noop cid req = (\<lambda>(q0, u).
     case next_static_id q0 of (q, n) \<Rightarrow>
     let sid = Stream_Id cid n in
     case first_preparer prepare req True (preparers q) of
       Inl e \<Rightarrow> ((q, u), [], Inl e)
     | Inr None \<Rightarrow> ((q, u), [], Inr no_response)
     | Inr (Some (info, h)) \<Rightarrow>
         if is_file info then ((q, u), [], Inr info)
         else if is_live_stream info then ((q, u), [], Inl (Runtime_Error ''Static handlers should not be live streams.''))
         else act_bind (run h sid []) (\<lambda>cs (q1, u1).
                ((q1\<lparr>outgoing := append_chunks sid cs (outgoing q1), responders := responders q1 @ [(sid, noop)],
                     return_paths := omap_emplace sid req (return_paths q1)\<rparr>, u1), [], Inr info)) (q, u))"

section \<open>To and from the wire\<close>

text \<open>A chunk from the wire, on the client: a static answer has no number, its request gives the stream.\<close>

definition connector_push_incoming :: "string \<Rightarrow> vspan \<Rightarrow> http_request \<Rightarrow> ('h, 'p) queues \<Rightarrow> ('h, 'p) queues result" where
  "connector_push_incoming cid c req q =
     rbind (if is_wwatp req
            then rbind (vs_request_id c) (\<lambda>r.
                   if r = 0 then Inl (Invalid_Argument ''Chunk does not have a valid request ID'') else Inr (Stream_Id cid r))
            else (case map_of (static_requests q) req of None \<Rightarrow> Inl Undefined_Behaviour | Some sid \<Rightarrow> Inr sid)) (\<lambda>sid.
       Inr (q\<lparr>incoming := append_chunks sid [c] (incoming q)\<rparr>))"

text \<open>On the server the first chunk of a stream has its responder prepared.\<close>

definition listener_push_incoming ::
  "('p \<Rightarrow> http_request \<Rightarrow> uri_response_info \<times> 'h) \<Rightarrow> http_request \<Rightarrow> string \<Rightarrow> vspan \<Rightarrow>
   ('h, 'p) queues \<Rightarrow> ('h, 'p) queues \<times> unit result" where
  "listener_push_incoming prepare req cid c q =
     (case vs_request_id c of
        Inl e \<Rightarrow> (q, Inl e)
      | Inr r \<Rightarrow>
          let sid = Stream_Id cid r in
          (case (if \<not> is_wwatp req \<or> list_ex (\<lambda>e. fst e = sid) (responders q) then (q, Inr no_response)
                 else prepare_handler prepare sid req q) of
             (q1, Inl e) \<Rightarrow> (q1, Inl e)
           | (q1, Inr _) \<Rightarrow> (q1\<lparr>incoming := append_chunks sid [c] (incoming q1)\<rparr>, Inr ())))"

definition no_more_chunks :: "stream_id list \<Rightarrow> ('h, 'p) queues \<Rightarrow> bool" where
  "no_more_chunks sids q \<longleftrightarrow> (\<forall>sid \<in> set sids. map_of (outgoing q) sid = None)"

fun pop_n_outgoing :: "stream_id list \<Rightarrow> nat \<Rightarrow> (stream_id \<times> chunk_list) list \<Rightarrow> (stream_id \<times> chunk_list) list \<times> chunk_list" where
  "pop_n_outgoing [] n m = (m, [])"
| "pop_n_outgoing (sid # sids) n m =
     (case map_of m sid of
        None \<Rightarrow> pop_n_outgoing sids n m
      | Some cs \<Rightarrow>
          let count = min n (length cs);
              m' = (if drop count cs = [] then omap_erase sid m else omap_insert sid (drop count cs) m) in
          (case pop_n_outgoing sids (n - count) m' of (m'', ds) \<Rightarrow> (m'', take count cs @ ds)))"

text \<open>The bytes a chunk takes on the wire.\<close>

definition chunk_cost :: "vspan \<Rightarrow> nat result" where
  "chunk_cost c = rbind (if vs_chunks c = [] then Inr 0 else signal_size (vs_type c)) (\<lambda>z. Inr (vs_size c + z))"

fun total_cost :: "chunk_list \<Rightarrow> nat result" where
  "total_cost [] = Inr 0"
| "total_cost (c # cs) = rbind (chunk_cost c) (\<lambda>a. rbind (total_cost cs) (\<lambda>b. Inr (a + b)))"

text \<open>
  Which streams of a connection to send from, and how many bytes their chunks take. The stream is chosen
  with \<open>rand()\<close>: \<open>pick k\<close> is the value of the call when \<open>k\<close> streams are left.
\<close>

lemma one_out: "xs \<noteq> [] \<Longrightarrow> p mod length xs + (length xs - Suc (p mod length xs)) < length xs"
proof -
  assume "xs \<noteq> []"
  then have "p mod length xs < length xs" by (intro mod_less_divisor) simp
  then show ?thesis by linarith
qed

function plan_loop ::
  "(nat \<Rightarrow> nat) \<Rightarrow> (stream_id \<times> chunk_list) list \<Rightarrow> nat \<Rightarrow> stream_id list \<Rightarrow> (nat \<times> stream_id list) result" where
  "plan_loop pick m n unused =
     (if n = 0 \<or> unused = [] then Inr (0, [])
      else
        let i = pick (length unused) mod length unused; sid = unused ! i;
            rest = take i unused @ drop (Suc i) unused in
        (case map_of m sid of
           None \<Rightarrow> rbind (plan_loop pick m n rest) (\<lambda>(tot, used). Inr (tot, sid # used))
         | Some cs \<Rightarrow>
             rbind (total_cost (take (min n (length cs)) cs)) (\<lambda>a.
             rbind (plan_loop pick m (n - min n (length cs)) rest) (\<lambda>(tot, used). Inr (a + tot, sid # used)))))"
  by pat_completeness auto
termination plan_loop
  by (relation "measure (\<lambda>(pick, m, n, unused). length unused)") (auto simp: one_out)

declare plan_loop.simps [simp del]

definition plan_for_n_outgoing ::
  "(nat \<Rightarrow> nat) \<Rightarrow> string \<Rightarrow> nat \<Rightarrow> http_request \<Rightarrow> ('h, 'p) queues \<Rightarrow> (nat \<times> stream_id list) result" where
  "plan_for_n_outgoing pick cid n req q =
     plan_loop pick (outgoing q) n
       (filter (\<lambda>sid. map_of (return_paths q) sid = Some req)
         (map fst (filter (\<lambda>e. si_cid (fst e) = cid) (outgoing q))))"

text \<open>The requests that have chunks to send, as an ordered set.\<close>

definition current_requests :: "('h, 'p) queues \<Rightarrow> http_request list" where
  "current_requests q =
     map fst (fold (\<lambda>r. omap_insert r ()) (List.map_filter (map_of (return_paths q)) (map fst (outgoing q))) [])"

definition has_outstanding_request :: "(http_request \<Rightarrow> bool) \<Rightarrow> ('h, 'p) queues \<Rightarrow> bool" where
  "has_outstanding_request active q \<longleftrightarrow> list_ex (\<lambda>r. \<not> active r) (current_requests q)"

definition get_outstanding_request :: "(http_request \<Rightarrow> bool) \<Rightarrow> ('h, 'p) queues \<Rightarrow> http_request result" where
  "get_outstanding_request active q =
     (case find (\<lambda>r. \<not> active r) (current_requests q) of
        None \<Rightarrow> Inl (Runtime_Error ''No request found in the requestSet, but getRequest should only be called when there is a request in the set'')
      | Some r \<Rightarrow> Inr r)"

text \<open>The placeholder chunks of a static request are taken back.\<close>

fun drop_placeholders :: "chunk_list \<Rightarrow> chunk_list result" where
  "drop_placeholders [] = Inr []"
| "drop_placeholders (c # cs) =
     rbind (if vs_type c = 2 then rbind (vs_signal c) (\<lambda>s. Inr (s = signal_placeholder)) else Inr False) (\<lambda>b.
     rbind (drop_placeholders cs) (\<lambda>ds. Inr (if b then ds else c # ds)))"

definition clear_static_request :: "http_request \<Rightarrow> ('h, 'p) queues \<Rightarrow> ('h, 'p) queues result" where
  "clear_static_request req q =
     (case map_of (static_requests q) req of
        None \<Rightarrow> Inl Assertion_Failed
      | Some sid \<Rightarrow>
          (case map_of (outgoing q) sid of
             None \<Rightarrow> Inr q
           | Some cs \<Rightarrow>
               rbind (drop_placeholders cs) (\<lambda>ds.
                 Inr (q\<lparr>outgoing := (if ds = [] then omap_erase sid (outgoing q) else omap_insert sid ds (outgoing q))\<rparr>))))"

end
