(* ===== verification/Queue_Properties.thy ===== *)
theory Queue_Properties
  imports Stream_Queues
begin

text \<open>
  What the queues guarantee: chunks leave a stream in the order they came in and none is lost, the bytes
  planned are the bytes sent, callbacks are served in turn; and where they fail: numbers run out, and a
  second preparer is never reached.
\<close>

section \<open>Sending\<close>

definition stream_chunks :: "(stream_id \<times> chunk_list) list \<Rightarrow> stream_id \<Rightarrow> chunk_list" where
  "stream_chunks m sid = (case map_of m sid of None \<Rightarrow> [] | Some cs \<Rightarrow> cs)"

lemma stream_chunks_update [simp]:
  "stream_chunks (omap_insert sid cs m) s = (if s = sid then cs else stream_chunks m s)"
  "stream_chunks (omap_erase sid m) s = (if s = sid then [] else stream_chunks m s)"
  by (simp_all add: stream_chunks_def)

lemma pop_n_spec:
  assumes "distinct sids" and "pop_n_outgoing sids n m = (m', cs)"
  shows "cs = take n (concat (map (stream_chunks m) sids)) \<and>
    concat (map (stream_chunks m') sids) = drop n (concat (map (stream_chunks m) sids)) \<and>
    (\<forall>s. s \<notin> set sids \<longrightarrow> stream_chunks m' s = stream_chunks m s)"
  using assms
proof (induction sids n m arbitrary: m' cs rule: pop_n_outgoing.induct)
  case (2 sid sids n m)
  show ?case
  proof (cases "map_of m sid")
    case None
    then have "cs = take n (concat (map (stream_chunks m) sids))"
        "concat (map (stream_chunks m') sids) = drop n (concat (map (stream_chunks m) sids))"
        "\<forall>s. s \<notin> set sids \<longrightarrow> stream_chunks m' s = stream_chunks m s"
      using "2.IH"(1) [OF None, of m' cs] "2.prems" by auto
    moreover have "stream_chunks m sid = []" using None by (simp add: stream_chunks_def)
    ultimately show ?thesis using "2.prems"(1) by simp
  next
    case (Some ds)
    define k where "k = min n (length ds)"
    define m1 where "m1 = (if drop k ds = [] then omap_erase sid m else omap_insert sid (drop k ds) m)"
    obtain m2 es where m2: "pop_n_outgoing sids (n - k) m1 = (m2, es)" by fastforce
    have split: "m' = m2" "cs = take k ds @ es"
      using "2.prems"(2) Some m2 by (simp_all add: k_def m1_def Let_def split: if_splits)
    have ds: "stream_chunks m sid = ds" using Some by (simp add: stream_chunks_def)
    have m1: "stream_chunks m1 s = (if s = sid then drop k ds else stream_chunks m s)" for s
      by (simp add: m1_def)
    have same: "map (stream_chunks m1) sids = map (stream_chunks m) sids"
      using "2.prems"(1) by (auto simp: m1)
    have IH: "es = take (n - k) (concat (map (stream_chunks m) sids)) \<and>
        concat (map (stream_chunks m2) sids) = drop (n - k) (concat (map (stream_chunks m) sids)) \<and>
        (\<forall>s. s \<notin> set sids \<longrightarrow> stream_chunks m2 s = stream_chunks m1 s)"
      using "2.IH"(2) [OF Some k_def m1_def _ m2] "2.prems"(1) by (simp add: same)
    have cut: "n - k = n - length ds" "take k ds = take n ds" "drop k ds = drop n ds"
      by (auto simp: k_def min_def)
    show ?thesis
      using IH "2.prems"(1) by (simp add: split ds m1 cut)
  qed
qed simp

text \<open>
  Taking at most \<open>n\<close> chunks off the streams of a plan takes the first \<open>n\<close> of them, stream after stream,
  and leaves exactly the others, in order; streams outside the plan keep theirs.
\<close>

theorem pop_takes_first:
  assumes "distinct sids" and "pop_n_outgoing sids n m = (m', cs)"
  shows "cs @ concat (map (stream_chunks m') sids) = concat (map (stream_chunks m) sids) \<and>
    length cs = min n (length (concat (map (stream_chunks m) sids))) \<and>
    (s \<notin> set sids \<longrightarrow> stream_chunks m' s = stream_chunks m s)"
  using pop_n_spec [OF assms] by (simp add: min.commute)

theorem pop_takes_first_witness:
  "[close_chunk (Stream_Id ''c'' 2) [], vs_empty] @
     concat (map (stream_chunks [(Stream_Id ''c'' 4, [vs_empty, vs_empty])]) [Stream_Id ''c'' 2, Stream_Id ''c'' 4]) =
   concat (map (stream_chunks [(Stream_Id ''c'' 2, [close_chunk (Stream_Id ''c'' 2) []]),
     (Stream_Id ''c'' 4, [vs_empty, vs_empty, vs_empty])]) [Stream_Id ''c'' 2, Stream_Id ''c'' 4])"
proof -
  let ?m = "[(Stream_Id ''c'' 2, [close_chunk (Stream_Id ''c'' 2) []]), (Stream_Id ''c'' 4, [vs_empty, vs_empty, vs_empty])]"
  have "pop_n_outgoing [Stream_Id ''c'' 2, Stream_Id ''c'' 4] 2 ?m =
      ([(Stream_Id ''c'' 4, [vs_empty, vs_empty])], [close_chunk (Stream_Id ''c'' 2) [], vs_empty])"
    by (simp add: omap_erase_def)
  from pop_takes_first [OF _ this] show ?thesis by simp
qed

lemma total_cost_append: "total_cost (cs @ ds) = rbind (total_cost cs) (\<lambda>a. rbind (total_cost ds) (\<lambda>b. Inr (a + b)))"
proof (induction cs)
  case (Cons c cs)
  then show ?case
    by (cases "chunk_cost c"; cases "total_cost cs"; cases "total_cost ds") auto
qed (simp add: rbind_def split: sum.split)

lemma plan_spec:
  assumes "distinct unused" and "plan_loop pick m n unused = Inr (tot, used)"
  shows "distinct used \<and> set used \<subseteq> set unused \<and>
    total_cost (take n (concat (map (stream_chunks m) used))) = Inr tot"
  using assms
proof (induction pick m n unused arbitrary: tot used rule: plan_loop.induct)
  case (1 pick m n unused)
  show ?case
  proof (cases "n = 0 \<or> unused = []")
    case True
    then show ?thesis using "1.prems"(2) by (auto simp: plan_loop.simps [of pick m n])
  next
    case False
    define i where "i = pick (length unused) mod length unused"
    define sid where "sid = unused ! i"
    define rest where "rest = take i unused @ drop (Suc i) unused"
    have i: "i < length unused" using False by (simp add: i_def)
    have parts: "unused = take i unused @ sid # drop (Suc i) unused"
      using i by (simp add: sid_def id_take_nth_drop)
    have d: "distinct (take i unused @ sid # drop (Suc i) unused)"
      using "1.prems"(1) by (simp only: parts [symmetric])
    have s: "set unused = set (take i unused @ sid # drop (Suc i) unused)"
      by (simp only: parts [symmetric])
    have rest: "distinct rest" "sid \<notin> set rest" "insert sid (set rest) = set unused"
      using d unfolding s by (simp_all add: rest_def)
    note IH = "1.IH" [OF False i_def sid_def rest_def]
    show ?thesis
    proof (cases "map_of m sid")
      case None
      then obtain u where u: "plan_loop pick m n rest = Inr (tot, u)" "used = sid # u"
        using "1.prems"(2) False
        by (auto simp: plan_loop.simps [of pick m n unused] Let_def i_def [symmetric] sid_def [symmetric]
            rest_def [symmetric] rbind_Inr_iff)
      show ?thesis
        using IH(1) [OF None rest(1) u(1)] rest(2,3) None by (auto simp: u(2) stream_chunks_def)
    next
      case (Some cs)
      then obtain a z u where u: "total_cost (take (min n (length cs)) cs) = Inr a"
          "plan_loop pick m (n - min n (length cs)) rest = Inr (z, u)" "used = sid # u" "tot = a + z"
        using "1.prems"(2) False
        by (auto simp: plan_loop.simps [of pick m n unused] Let_def i_def [symmetric] sid_def [symmetric]
            rest_def [symmetric] rbind_Inr_iff)
      have cut: "n - min n (length cs) = n - length cs" "take (min n (length cs)) cs = take n cs"
        by (auto simp: min_def)
      have "total_cost (take n cs @ take (n - length cs) (concat (map (stream_chunks m) u))) = Inr (a + z)"
        using IH(2) [OF Some rest(1) u(2)] u(1) by (simp add: total_cost_append cut)
      moreover have "take n (concat (map (stream_chunks m) used)) =
          take n cs @ take (n - length cs) (concat (map (stream_chunks m) u))"
        using Some by (simp add: u(3) stream_chunks_def)
      ultimately show ?thesis
        using IH(2) [OF Some rest(1) u(2)] rest(2,3) u(3,4) by auto
    qed
  qed
qed



section \<open>Numbers\<close>

lemma free_id_here [simp]: "map_of paths (Stream_Id cid n) = None \<Longrightarrow> free_id cid paths n = Some (n, n + 2)"
  by (subst free_id.simps) simp

lemma free_id_on: "map_of paths (Stream_Id cid n) \<noteq> None \<Longrightarrow> free_id cid paths n = free_id cid paths (n + 2)"
  by (subst free_id.simps) auto

lemma free_id_result:
  assumes "free_id cid paths n = Some r"
  shows "map_of paths (Stream_Id cid (fst r)) = None \<and> snd r = fst r + 2 \<and> (\<exists>k. fst r = n + 2 * of_nat k)"
proof (rule free_id.raw_induct [of "\<lambda>cid paths n r. map_of paths (Stream_Id cid (fst r)) = None \<and>
    snd r = fst r + 2 \<and> (\<exists>k. fst r = n + 2 * of_nat k)", OF _ assms])
  fix f cid paths and n :: u16 and r :: "u16 \<times> u16"
  assume IH: "\<And>cid paths n r. f cid paths n = Some r \<Longrightarrow> map_of paths (Stream_Id cid (fst r)) = None \<and>
      snd r = fst r + 2 \<and> (\<exists>k. fst r = n + 2 * of_nat k)"
    and r: "(if map_of paths (Stream_Id cid n) = None then Some (n, n + 2) else f cid paths (n + 2)) = Some r"
  show "map_of paths (Stream_Id cid (fst r)) = None \<and> snd r = fst r + 2 \<and> (\<exists>k. fst r = n + 2 * of_nat k)"
  proof (cases "map_of paths (Stream_Id cid n) = None")
    case True
    then show ?thesis using r by (auto intro: exI [of _ 0])
  next
    case False
    then obtain k where "map_of paths (Stream_Id cid (fst r)) = None" "snd r = fst r + 2" "fst r = n + 2 + 2 * of_nat k"
      using IH [of cid paths "n + 2" r] r by auto
    then show ?thesis by (auto intro: exI [of _ "Suc k"] simp: algebra_simps)
  qed
qed

text \<open>
  C30: the search for a number ends exactly when the connection has one left among those it tries, and the
  number it gives is free. Return paths are never removed, so a connection that has used all its numbers
  hangs.
\<close>

theorem free_id_terminates:
  "free_id cid paths n \<noteq> None \<longleftrightarrow> (\<exists>k. map_of paths (Stream_Id cid (n + 2 * of_nat k)) = None)"
proof
  show "\<exists>k. map_of paths (Stream_Id cid (n + 2 * of_nat k)) = None" if "free_id cid paths n \<noteq> None"
    using that free_id_result [of cid paths n] by (metis not_None_eq)
  assume "\<exists>k. map_of paths (Stream_Id cid (n + 2 * of_nat k)) = None"
  then obtain k where "map_of paths (Stream_Id cid (n + 2 * of_nat k)) = None" by blast
  then show "free_id cid paths n \<noteq> None"
  proof (induction k arbitrary: n)
    case (Suc k)
    show ?case
    proof (cases "map_of paths (Stream_Id cid n) = None")
      case False
      moreover have "free_id cid paths (n + 2) \<noteq> None"
        by (rule Suc.IH) (use Suc.prems in \<open>simp add: algebra_simps\<close>)
      ultimately show ?thesis by (simp add: free_id_on)
    qed simp
  qed simp
qed

text \<open>
  A request gets a number no other open request of the connection has, an even one when the counter
  is even, and only static requests share a stream, with themselves.
\<close>

theorem new_request_id_fresh:
  assumes "get_new_request_id cid req q = Some (q', sid)" and "is_wwatp req"
  shows "map_of (return_paths q) sid = None \<and> map_of (return_paths q') sid = Some req \<and> si_cid sid = cid \<and>
    (even (unat (id_counter q)) \<longrightarrow> even (unat (si_logical sid)) \<and> even (unat (id_counter q')))"
proof -
  obtain a b where ab: "free_id cid (return_paths q) (id_counter q) = Some (a, b)" "sid = Stream_Id cid a"
      "q' = q\<lparr>id_counter := b, static_requests := static_requests q,
             return_paths := omap_emplace (Stream_Id cid a) req (return_paths q)\<rparr>"
    using assms by (auto simp: get_new_request_id_def Let_def)
  obtain k where k: "map_of (return_paths q) (Stream_Id cid a) = None" "b = a + 2" "a = id_counter q + 2 * of_nat k"
    using free_id_result [OF ab(1)] by auto
  have even: "even (unat (w + 2 * of_nat j :: u16))" if "even (unat w)" for w :: u16 and j
  proof -
    have "unat (w + of_nat (2 * j)) = (unat w + 2 * j) mod 65536"
      unfolding unat_word_ariths(1) unat_of_nat by (simp add: mod_simps)
    moreover have "even ((unat w + 2 * j) mod 65536)" using that by (simp add: dvd_mod_iff)
    ultimately show ?thesis by simp
  qed
  show ?thesis
    using k even [of "id_counter q" k] even [of "id_counter q" "Suc k"]
    by (simp add: ab omap_emplace_def algebra_simps)
qed

theorem new_request_id_fresh_witness:
  "map_of (return_paths (queues_new 2 :: (nat, nat) queues)) (Stream_Id ''c'' 2) = None \<and>
   map_of (return_paths ((queues_new 2 :: (nat, nat) queues)\<lparr>id_counter := 4,
     return_paths := [(Stream_Id ''c'' 2, Http_Request [] [] ''/wwatp/'' ''GET'' 0 0)]\<rparr>)) (Stream_Id ''c'' 2) =
     Some (Http_Request [] [] ''/wwatp/'' ''GET'' 0 0)"
proof -
  have "str_find ''/wwatp/'' ''wwatp/'' \<noteq> None" by code_simp
  then have w: "is_wwatp (Http_Request [] [] ''/wwatp/'' ''GET'' 0 0)" by (simp add: is_wwatp_def)
  have "get_new_request_id ''c'' (Http_Request [] [] ''/wwatp/'' ''GET'' 0 0) (queues_new 2 :: (nat, nat) queues) =
      Some ((queues_new 2)\<lparr>id_counter := 4,
        return_paths := [(Stream_Id ''c'' 2, Http_Request [] [] ''/wwatp/'' ''GET'' 0 0)]\<rparr>, Stream_Id ''c'' 2)"
    using w by (simp add: get_new_request_id_def queues_new_def omap_emplace_def Let_def)
  from new_request_id_fresh [OF this w] show ?thesis by simp
qed

section \<open>Preparers\<close>



section \<open>Turns\<close>

fun turns :: "('h, 'p, 'u) runner \<Rightarrow> nat \<Rightarrow> ('h, 'p, 'u, unit) queue_act" where
  "turns run 0 = act_return ()"
| "turns run (Suc k) = act_bind (process_request_stream run) (\<lambda>_. turns run k)"

text \<open>Callbacks that return and neither touch the queue of callbacks nor close their stream.\<close>

definition quiet :: "('h, 'p, 'u) runner \<Rightarrow> bool" where
  "quiet run \<longleftrightarrow> (\<forall>h sid cs q u. \<exists>q' u' es out. run h sid cs (q, u) = ((q', u'), es, Inr out) \<and>
     requestors q' = requestors q \<and> closes out = Inr False)"

text \<open>The callbacks, with the calls written down.\<close>

definition recording :: "('h, 'p, 'u) runner \<Rightarrow> ('h, 'p, 'u \<times> (stream_id \<times> 'h) list) runner" where
  "recording run h sid cs = (\<lambda>(q, u, l). case run h sid cs (q, u) of ((q', u'), es, r) \<Rightarrow> ((q', u', l @ [(sid, h)]), es, r))"

lemma take_incoming_requestors [simp]: "requestors (fst (take_incoming sid q)) = requestors q"
  by (simp add: take_incoming_def split: option.split)

lemma put_outgoing_requestors [simp]: "requestors (put_outgoing sid cs q) = requestors q"
  by (simp add: put_outgoing_def)

lemma one_turn:
  assumes "quiet run" and "requestors q = (sid, h) # rest"
  shows "\<exists>q' u' es. process_request_stream (recording run) (q, u, l) = ((q', u', l @ [(sid, h)]), es, Inr True) \<and>
    requestors q' = rest @ [(sid, h)]"
proof -
  obtain q1 cs where q1: "take_incoming sid (q\<lparr>requestors := rest\<rparr>) = (q1, cs)" by fastforce
  have r1: "requestors q1 = rest" using take_incoming_requestors [of sid "q\<lparr>requestors := rest\<rparr>"] q1 by simp
  obtain q2 u2 es out where q2: "run h sid cs (q1, u) = ((q2, u2), es, Inr out)" "requestors q2 = rest" "closes out = Inr False"
    using assms(1) r1 unfolding quiet_def by metis
  show ?thesis
    using assms(2) q1 q2 by (simp add: process_request_stream_def act_bind_def recording_def Let_def)
qed

lemma some_turns:
  assumes "quiet run" and "requestors q = xs @ ys"
  shows "\<exists>q' u' es. turns (recording run) (length xs) (q, u, l) = ((q', u', l @ xs), es, Inr ()) \<and> requestors q' = ys @ xs"
  using assms(2)
proof (induction xs arbitrary: ys q u l)
  case Nil
  then show ?case by (simp add: act_return_def)
next
  case (Cons x xs)
  obtain sid h where x: "x = (sid, h)" by fastforce
  obtain q1 u1 es1 where one: "process_request_stream (recording run) (q, u, l) = ((q1, u1, l @ [x]), es1, Inr True)"
      "requestors q1 = xs @ (ys @ [x])"
    using one_turn [OF assms(1), of q sid h "xs @ ys" u l] Cons.prems by (auto simp: x)
  obtain q2 u2 es2 where "turns (recording run) (length xs) (q1, u1, l @ [x]) = ((q2, u2, (l @ [x]) @ xs), es2, Inr ())"
      "requestors q2 = (ys @ [x]) @ xs"
    using Cons.IH [OF one(2)] by blast
  then show ?case using one(1) by (simp add: act_bind_def)
qed



end
