(* ===== verification/Client_Updater.thy ===== *)
theory Client_Updater
  imports Client_Server Queue_Properties
begin

text \<open>
  The worker of the clients (\<open>Http3ClientBackendUpdater\<close> in
  \<open>common/backend_cpp/http3_client/http3_client_backend.cpp\<close>): it opens a stream for each queued request and
  for the journal, and its stream callbacks send the request, collect the response and hand it to the
  client. A callback refers to a client and to the message of its stream; it is a \<open>handler\<close> here.
\<close>

section \<open>State\<close>

datatype handler = Handler (h_client: nat) (h_journal: bool)

record ('s, 't) updater =
  up_clients :: "('s, 't) client list"
  up_ongoing :: "(stream_id \<times> message) list"
  up_time :: 't

text \<open>
  What the updater needs of a \<open>Communication\<close> (\<open>communication.h\<close>). Getting a stream identifier may not end:
  \<open>None\<close>.
\<close>

record 'c connector_ops =
  c_new_id :: "http_request \<Rightarrow> 'c \<Rightarrow> ('c \<times> stream_id) option"
  c_register :: "stream_id \<Rightarrow> handler \<Rightarrow> 'c \<Rightarrow> 'c"
  c_deregister :: "stream_id \<Rightarrow> 'c \<Rightarrow> 'c"

type_synonym ('c, 's, 't, 'a) updater_act = "('c \<times> ('s, 't) updater, 'a) act"

definition add_client :: "('s, 't) client \<Rightarrow> ('s, 't) updater \<Rightarrow> ('s, 't) updater" where
  "add_client c up = up\<lparr>up_clients := up_clients up @ [c]\<rparr>"

text \<open>The first client whose path occurs in the address.\<close>

definition get_client :: "string \<Rightarrow> ('s, 't) updater \<Rightarrow> ('s, 't) client result" where
  "get_client url up =
     (case find (\<lambda>c. str_find url (rq_path (url_info c)) \<noteq> None) (up_clients up) of
        None \<Rightarrow> Inl (Runtime_Error ''Backend not found'')
      | Some c \<Rightarrow> Inr c)"

section \<open>Opening a stream\<close>

text \<open>\<open>emplace\<close> keeps what is stored under the identifier; the message stored gets the number.\<close>

definition start_request ::
  "'c connector_ops \<Rightarrow> nat \<Rightarrow> bool \<Rightarrow> stream_id \<Rightarrow> message \<Rightarrow> ('c, 's, 't, unit) updater_act" where
  "start_request cops i jr sid m = (\<lambda>(q, up).
     let ongoing' = omap_emplace sid m (up_ongoing up);
         stored = the (map_of ongoing' sid) in
     (case setRequestId (si_logical sid) stored of
        (m', Inl e) \<Rightarrow> ((q, up\<lparr>up_ongoing := omap_insert sid m' ongoing'\<rparr>), [], Inl e)
      | (m', Inr _) \<Rightarrow>
          ((c_register cops sid (Handler i jr) q, up\<lparr>up_ongoing := omap_insert sid m' ongoing'\<rparr>), [], Inr ())))"

definition set_client :: "nat \<Rightarrow> ('s, 't) client \<Rightarrow> ('s, 't) updater \<Rightarrow> ('s, 't) updater" where
  "set_client i c up = up\<lparr>up_clients := (up_clients up)[i := c]\<rparr>"

definition maintain_pending :: "'c connector_ops \<Rightarrow> nat \<Rightarrow> 'c \<times> ('s, 't) updater \<Rightarrow>
    (('c \<times> ('s, 't) updater) \<times> event list \<times> unit result) option" where
  "maintain_pending cops i = (\<lambda>(q, up).
     let c = up_clients up ! i in
     if \<not> has_next_request c then Some ((q, up), [], Inr ())
     else (case c_new_id cops (url_info c) q of
       None \<Rightarrow> None
     | Some (q1, sid) \<Rightarrow>
         (case pop_next_request c of
            (c1, es, Inl e) \<Rightarrow> Some ((q1, up), es, Inl e)
          | (c1, es, Inr m) \<Rightarrow> Some (start_request cops i False sid m (q1, set_client i c1 up)))))"

definition maintain_journal :: "'c connector_ops \<Rightarrow> 't clock \<Rightarrow> 't \<Rightarrow> nat \<Rightarrow> 'c \<times> ('s, 't) updater \<Rightarrow>
    (('c \<times> ('s, 't) updater) \<times> event list \<times> unit result) option" where
  "maintain_journal cops clk now i = (\<lambda>(q, up).
     case need_journal_request clk now (up_clients up ! i) of
       (c, False) \<Rightarrow> Some ((q, set_client i c up), [], Inr ())
     | (c, True) \<Rightarrow>
         let up1 = set_client i c up in
         (case c_new_id cops (url_info c) q of
            None \<Rightarrow> None
          | Some (q1, sid) \<Rightarrow>
              (case solicit_journal_request c of
                 Inl e \<Rightarrow> Some ((q1, up1), [], Inl e)
               | Inr m \<Rightarrow> Some (start_request cops i True sid m (q1, up1)))))"

text \<open>The clients in order; \<open>None\<close> when one of them does not get a stream identifier.\<close>

fun maintain_clients :: "'c connector_ops \<Rightarrow> 't clock \<Rightarrow> 't \<Rightarrow> nat list \<Rightarrow> 'c \<times> ('s, 't) updater \<Rightarrow>
    (('c \<times> ('s, 't) updater) \<times> event list \<times> unit result) option" where
  "maintain_clients cops clk now [] w = Some (w, [], Inr ())"
| "maintain_clients cops clk now (i # js) w =
     (case maintain_pending cops i w of
        None \<Rightarrow> None
      | Some (w1, es, Inl e) \<Rightarrow> Some (w1, es, Inl e)
      | Some (w1, es, Inr _) \<Rightarrow>
          (case maintain_journal cops clk now i w1 of
             None \<Rightarrow> None
           | Some (w2, fs, Inl e) \<Rightarrow> Some (w2, es @ fs, Inl e)
           | Some (w2, fs, Inr _) \<Rightarrow>
               map_option (\<lambda>(w3, gs, r). (w3, es @ fs @ gs, r)) (maintain_clients cops clk now js w2)))"

definition maintain_request_handlers :: "'c connector_ops \<Rightarrow> 't clock \<Rightarrow> 't \<Rightarrow> 'c \<times> ('s, 't) updater \<Rightarrow>
    (('c \<times> ('s, 't) updater) \<times> event list \<times> unit result) option" where
  "maintain_request_handlers cops clk now w =
     (case maintain_clients cops clk now [0..<length (up_clients (snd w))] w of
        None \<Rightarrow> None
      | Some (w1, es, Inl e) \<Rightarrow> Some (w1, es, Inl e)
      | Some ((q, up), es, Inr _) \<Rightarrow> Some ((q, up\<lparr>up_time := now\<rparr>), es, Inr ()))"

section \<open>The stream callback\<close>

function drain_request :: "message \<Rightarrow> message \<times> chunk_list" where
  "drain_request m =
     (case popRequestChunk m of
        (m1, None) \<Rightarrow> (m1, [])
      | (m1, Some c) \<Rightarrow> (case drain_request m1 of (m2, cs) \<Rightarrow> (m2, c # cs)))"
  by pat_completeness auto
termination drain_request
  by (relation "measure (\<lambda>m. length (request_chunks m))") (auto simp: popRequestChunk_def split: list.splits)

declare drain_request.simps [simp del]

fun push_responses :: "chunk_list \<Rightarrow> unit msg_op" where
  "push_responses [] m = (m, Inr ())"
| "push_responses (c # cs) m =
     (case pushResponseChunk c m of (m1, Inl e) \<Rightarrow> (m1, Inl e) | (m1, Inr _) \<Rightarrow> push_responses cs m1)"

definition heartbeat :: "stream_id \<Rightarrow> vspan" where
  "heartbeat sid = vs_of_data (Payload_Header signal_heartbeat (si_logical sid) 0) ''''"

text \<open>Take the request out, put the response in, and say what is sent; \<open>fresh\<close> is as in \<open>close_chunk\<close>.\<close>

definition message_handler ::
  "'c connector_ops \<Rightarrow> 's backend_ops \<Rightarrow> byte list \<Rightarrow> handler \<Rightarrow> stream_id \<Rightarrow> chunk_list \<Rightarrow> ('c, 's, 't, chunk_list) updater_act" where
  "message_handler cops ops fresh h sid response = (\<lambda>(q, up).
     let keep = (\<lambda>m. up\<lparr>up_ongoing := omap_insert sid m (up_ongoing up)\<rparr>);
         c = up_clients up ! h_client h in
     (case drain_request (the (map_of (up_ongoing up) sid)) of (m1, request) \<Rightarrow>
     (case push_responses response m1 of
        (m2, Inl e) \<Rightarrow> ((q, keep m2), [], Inl e)
      | (m2, Inr _) \<Rightarrow>
          if response = [] \<and> request = [] \<and> \<not> response_complete m2 \<and> is_wwatp (url_info c)
          then ((q, keep m2), [], Inr [heartbeat sid])
          else
            (case (if response_complete m2 then process_response ops (c, m2) else ((c, m2), [], Inr ())) of
               ((c1, m3), es, Inl e) \<Rightarrow> ((q, set_client (h_client h) c1 (keep m3)), es, Inl e)
             | ((c1, m3), es, Inr _) \<Rightarrow>
                 if processing_finished m3
                 then ((c_deregister cops sid q,
                        set_client (h_client h) (if h_journal h then set_journal_request_complete c1 else c1) (keep m3)),
                       es, Inr (request @ [close_chunk sid fresh]))
                 else ((q, set_client (h_client h) c1 (keep m3)), es, Inr request)))))"

end
