(* ===== verification/Updater_Properties.thy ===== *)
theory Updater_Properties
  imports Client_Updater
begin

text \<open>
  The worker of the clients over the queues of a connection: every request of a client gets a stream of its
  own, its stream callback sends it and hands the answer to the client, and then the stream is closed.
\<close>

section \<open>What the worker relies on\<close>

text \<open>
  A connection: \<open>sound\<close> is its invariant, \<open>taken\<close> says which streams have been given out, \<open>callbacks\<close> which
  callbacks are registered for a stream.
\<close>

locale connection =
  fixes cops :: "'c connector_ops" and sound :: "'c \<Rightarrow> bool"
    and taken :: "'c \<Rightarrow> stream_id \<Rightarrow> bool" and callbacks :: "'c \<Rightarrow> stream_id \<Rightarrow> handler list"
  assumes new_id_fresh: "sound q \<Longrightarrow> is_wwatp req \<Longrightarrow> c_new_id cops req q = Some (q', sid) \<Longrightarrow> \<not> taken q sid"
    and new_id_takes: "sound q \<Longrightarrow> c_new_id cops req q = Some (q', sid) \<Longrightarrow>
      sound q' \<and> (taken q' s \<longleftrightarrow> taken q s \<or> s = sid) \<and> callbacks q' = callbacks q"
    and register_takes: "sound (c_register cops sid h q) = sound q \<and> taken (c_register cops sid h q) = taken q"
    and register_callbacks: "callbacks (c_register cops sid h q) = (callbacks q)(sid := callbacks q sid @ [h])"
    and deregister_callbacks: "callbacks (c_deregister cops sid q) = (callbacks q)(sid := [])"
begin

text \<open>Every message of the worker belongs to a stream that has been given out.\<close>

definition streams_ok :: "'c \<times> ('s, 't) updater \<Rightarrow> bool" where
  "streams_ok w \<longleftrightarrow> sound (fst w) \<and> (\<forall>sid. map_of (up_ongoing (snd w)) sid \<noteq> None \<longrightarrow> taken (fst w) sid)"

lemma start_request_fresh:
  assumes "map_of (up_ongoing up) sid = None" and "setRequestId (si_logical sid) m = (m', Inr ())"
  shows "\<exists>ms. start_request cops i jr sid m (q, up) =
      ((c_register cops sid (Handler i jr) q, up\<lparr>up_ongoing := ms\<rparr>), [], Inr ()) \<and>
    map_of ms = (map_of (up_ongoing up))(sid \<mapsto> m')"
  using assms
  by (intro exI [of _ "omap_insert sid m' (omap_insert sid m (up_ongoing up))"])
    (simp add: start_request_def omap_emplace_def Let_def)

lemma start_request_keeps:
  assumes "start_request cops i jr sid m (q, up) = (w', es, r)" and "taken q sid" and "streams_ok (q, up)"
  shows "streams_ok w'"
proof -
  have q: "taken (fst w') = taken q" "sound (fst w') = sound q"
    and up: "\<And>s. map_of (up_ongoing (snd w')) s \<noteq> None \<Longrightarrow> s = sid \<or> map_of (up_ongoing up) s \<noteq> None"
    using assms(1) register_takes
    by (auto simp: start_request_def Let_def omap_emplace_def split: if_splits prod.splits sum.splits)
  show ?thesis unfolding streams_ok_def
  proof (intro conjI allI impI)
    show "sound (fst w')" using assms(3) q by (simp add: streams_ok_def)
    fix s assume "map_of (up_ongoing (snd w')) s \<noteq> None"
    from up [OF this] show "taken (fst w') s"
      using assms(2,3) q by (auto simp: streams_ok_def)
  qed
qed

lemma maintain_pending_keeps:
  assumes "maintain_pending cops i w = Some (w', es, r)" and "streams_ok w"
  shows "streams_ok w'"
proof -
  obtain q up where w: "w = (q, up)" by fastforce
  show ?thesis
  proof (cases "has_next_request (up_clients up ! i)")
    case False
    then show ?thesis using assms by (auto simp: maintain_pending_def w Let_def)
  next
    case True
    then obtain m ms where ms: "pending_requests (up_clients up ! i) = m # ms"
      by (auto simp: has_next_request_def neq_Nil_conv)
    obtain q1 sid where id: "c_new_id cops (url_info (up_clients up ! i)) q = Some (q1, sid)"
      using assms(1) True by (auto simp: maintain_pending_def w Let_def split: option.splits)
    let ?up = "set_client i ((up_clients up ! i)\<lparr>pending_requests := ms\<rparr>) up"
    have st: "start_request cops i False sid m (q1, ?up) = (w', es, r)"
      using assms(1) True by (auto simp: maintain_pending_def w Let_def id pop_next_request_def ms)
    have "streams_ok (q1, ?up)" "taken q1 sid"
      using assms(2) new_id_takes [OF _ id] by (auto simp: streams_ok_def w set_client_def)
    then show ?thesis using start_request_keeps [OF st] by blast
  qed
qed

lemma maintain_journal_keeps:
  assumes "maintain_journal cops clk now i w = Some (w', es, r)" and "streams_ok w"
  shows "streams_ok w'"
proof -
  obtain q up c b where w: "w = (q, up)" and c: "need_journal_request clk now (up_clients up ! i) = (c, b)" by fastforce
  have ok: "streams_ok (q, set_client i c up)" using assms(2) by (auto simp: streams_ok_def w set_client_def)
  show ?thesis
  proof (cases b)
    case False
    then show ?thesis using assms(1) ok by (auto simp: maintain_journal_def w c)
  next
    case True
    obtain q1 sid where id: "c_new_id cops (url_info c) q = Some (q1, sid)"
      using assms(1) True by (auto simp: maintain_journal_def w c Let_def split: option.splits)
    have ok1: "streams_ok (q1, set_client i c up)" "taken q1 sid"
      using ok new_id_takes [OF _ id] by (auto simp: streams_ok_def)
    show ?thesis
      using assms(1) True ok1 start_request_keeps [OF _ ok1(2,1)]
      by (auto simp: maintain_journal_def w c Let_def id split: sum.splits)
  qed
qed

lemma maintain_clients_keeps:
  "maintain_clients cops clk now is w = Some (w', es, r) \<Longrightarrow> streams_ok w \<Longrightarrow> streams_ok w'"
proof (induction "is" arbitrary: w es)
  case (Cons i js)
  obtain w1 fs r1 where p: "maintain_pending cops i w = Some (w1, fs, r1)"
    using Cons.prems(1) by (auto split: option.splits)
  note ok1 = maintain_pending_keeps [OF p Cons.prems(2)]
  show ?case
  proof (cases r1)
    case (Inr x)
    obtain w2 gs r2 where j: "maintain_journal cops clk now i w1 = Some (w2, gs, r2)"
      using Cons.prems(1) p Inr by (auto split: option.splits)
    note ok2 = maintain_journal_keeps [OF j ok1]
    show ?thesis
      using Cons.prems(1) Cons.IH [OF _ ok2] ok2 p j Inr by (cases r2) auto
  qed (use Cons.prems(1) p ok1 in auto)
qed simp

lemma maintain_keeps:
  assumes "maintain_request_handlers cops clk now w = Some (w', es, r)" and "streams_ok w"
  shows "streams_ok w'"
  using assms maintain_clients_keeps [of clk now _ w]
  by (auto simp: maintain_request_handlers_def streams_ok_def split: option.splits sum.splits)

text \<open>The first request of a client gets a new stream, and the callback of the stream is registered.\<close>

lemma pending_gets_stream:
  assumes "maintain_pending cops i (q, up) = Some ((q', up'), es, Inr ())" and "streams_ok (q, up)"
    and "pending_requests (up_clients up ! i) = m # ms" and "is_wwatp (url_info (up_clients up ! i))"
  shows "\<exists>sid m'. setRequestId (si_logical sid) m = (m', Inr ()) \<and> map_of (up_ongoing up) sid = None \<and>
    map_of (up_ongoing up') = (map_of (up_ongoing up))(sid \<mapsto> m') \<and>
    up_clients up' = (up_clients up)[i := (up_clients up ! i)\<lparr>pending_requests := ms\<rparr>] \<and>
    callbacks q' = (callbacks q)(sid := callbacks q sid @ [Handler i False])"
proof -
  have next': "has_next_request (up_clients up ! i)" by (simp add: has_next_request_def assms(3))
  obtain q1 sid where id: "c_new_id cops (url_info (up_clients up ! i)) q = Some (q1, sid)"
    using assms(1) next' by (auto simp: maintain_pending_def Let_def split: option.splits)
  let ?up = "set_client i ((up_clients up ! i)\<lparr>pending_requests := ms\<rparr>) up"
  have st: "start_request cops i False sid m (q1, ?up) = ((q', up'), es, Inr ())"
    using assms(1) next' by (auto simp: maintain_pending_def Let_def id pop_next_request_def assms(3))
  have none: "map_of (up_ongoing up) sid = None"
    using new_id_fresh [OF _ assms(4) id] assms(2) by (auto simp: streams_ok_def)
  then obtain m' where m': "setRequestId (si_logical sid) m = (m', Inr ())"
    using st by (auto simp: start_request_def Let_def omap_emplace_def set_client_def split: prod.splits sum.splits)
  show ?thesis
    using start_request_fresh [of ?up sid m m' i False q1] m' none st new_id_takes [OF _ id] assms(2) register_callbacks
    by (intro exI [of _ sid] exI [of _ m']) (auto simp: set_client_def streams_ok_def)
qed

end

section \<open>The connection of the program\<close>

text \<open>The queues of a QUIC client with the connection identifier \<open>cid\<close>.\<close>

definition quic_ops :: "string \<Rightarrow> (handler, 'p) queues connector_ops" where
  "quic_ops cid = \<lparr>c_new_id = get_new_request_id cid, c_register = register_response_handler,
     c_deregister = deregister_response_handler\<rparr>"

definition static_taken :: "('h, 'p) queues \<Rightarrow> bool" where
  "static_taken q \<longleftrightarrow> (\<forall>e \<in> set (static_requests q). map_of (return_paths q) (snd e) \<noteq> None)"

definition has_path :: "('h, 'p) queues \<Rightarrow> stream_id \<Rightarrow> bool" where
  "has_path q sid \<longleftrightarrow> map_of (return_paths q) sid \<noteq> None"

definition handlers_of :: "('h, 'p) queues \<Rightarrow> stream_id \<Rightarrow> 'h list" where
  "handlers_of q sid = map snd (filter (\<lambda>e. fst e = sid) (requestors q))"

lemma omap_emplace_mem: "e \<in> set (omap_emplace k v m) \<Longrightarrow> e \<in> set m \<or> e = (k, v)"
  by (auto simp: omap_emplace_def split: if_splits) (induction k v m rule: omap_insert.induct; auto split: if_splits)+

lemma new_id_cases:
  assumes "get_new_request_id cid req q = Some (q', sid)"
  shows "q' = q \<and> \<not> is_wwatp req \<and> map_of (static_requests q) req = Some sid \<or>
    map_of (return_paths q) sid = None \<and> requestors q' = requestors q \<and>
    return_paths q' = omap_emplace sid req (return_paths q) \<and>
    (static_requests q' = static_requests q \<or> static_requests q' = omap_emplace req sid (static_requests q))"
  using assms free_id_result [of cid "return_paths q" "id_counter q"]
  by (auto simp: get_new_request_id_def Let_def split: option.splits if_splits)

interpretation quic: connection "quic_ops cid" static_taken has_path handlers_of for cid
proof
  fix q q' :: "(handler, 'p) queues" and req sid s h
  assume id: "c_new_id (quic_ops cid) req q = Some (q', sid)"
  then have id': "get_new_request_id cid req q = Some (q', sid)" by (simp add: quic_ops_def)
  show "static_taken q \<Longrightarrow> is_wwatp req \<Longrightarrow> \<not> has_path q sid"
    using new_id_cases [OF id'] by (auto simp: has_path_def)
  assume ok: "static_taken q"
  show "static_taken q' \<and> (has_path q' s \<longleftrightarrow> has_path q s \<or> s = sid) \<and> handlers_of q' = handlers_of q"
  proof (rule disjE [OF new_id_cases [OF id']])
    assume a: "q' = q \<and> \<not> is_wwatp req \<and> map_of (static_requests q) req = Some sid"
    then have "(req, sid) \<in> set (static_requests q)" by (simp add: map_of_SomeD)
    then have "has_path q sid" using ok by (fastforce simp: static_taken_def has_path_def)
    then show ?thesis using a ok by auto
  next
    assume a: "map_of (return_paths q) sid = None \<and> requestors q' = requestors q \<and>
      return_paths q' = omap_emplace sid req (return_paths q) \<and>
      (static_requests q' = static_requests q \<or> static_requests q' = omap_emplace req sid (static_requests q))"
    then have paths: "map_of (return_paths q') = (map_of (return_paths q))(sid \<mapsto> req)"
      by (simp add: omap_emplace_def)
    have "snd e = sid \<or> e \<in> set (static_requests q)" if "e \<in> set (static_requests q')" for e
      using that a omap_emplace_mem [of e req sid "static_requests q"] by auto
    then have "static_taken q'" using ok by (auto simp: static_taken_def paths)
    moreover have "requestors q' = requestors q" using a by simp
    ultimately show ?thesis by (simp add: has_path_def handlers_of_def paths fun_eq_iff)
  qed
qed (auto simp: quic_ops_def static_taken_def has_path_def handlers_of_def register_response_handler_def
  deregister_response_handler_def fun_eq_iff filter_empty_conv intro: arg_cong [of _ _ "map snd"] filter_cong)


text \<open>
  Streams stay apart however long the worker runs: after any round of it, every message it has belongs
  to a stream the connection has given out.
\<close>

theorem worker_keeps_streams:
  assumes "maintain_request_handlers (quic_ops cid) clk now (q, up) = Some ((q', up'), es, r)"
    and "static_taken q" and "\<forall>e \<in> set (up_ongoing up). map_of (return_paths q) (fst e) \<noteq> None"
  shows "static_taken q' \<and> (map_of (up_ongoing up') sid \<noteq> None \<longrightarrow> map_of (return_paths q') sid \<noteq> None)"
proof -
  have "quic.streams_ok (q, up)"
    using assms(2,3) unfolding quic.streams_ok_def has_path_def by (fastforce dest: map_of_SomeD)
  from quic.maintain_keeps [OF assms(1) this] show ?thesis
    by (simp add: quic.streams_ok_def has_path_def)
qed

section \<open>The callback of a stream\<close>

lemma drain_request_all: "drain_request m = (m\<lparr>request_chunks := []\<rparr>, request_chunks m)"
proof (induction m rule: drain_request.induct)
  case (1 m)
  show ?case
  proof (cases "request_chunks m")
    case Nil
    then show ?thesis by (subst drain_request.simps) (cases m; simp add: popRequestChunk_def)
  next
    case (Cons c cs)
    then have "popRequestChunk m = (m\<lparr>request_chunks := cs\<rparr>, Some c)" by (simp add: popRequestChunk_def)
    with 1 [OF this [symmetric] refl] show ?thesis
      by (subst drain_request.simps) (simp add: Cons)
  qed
qed

lemma push_responses_feed: "push_responses cs = feed pushResponseChunk cs"
proof
  show "push_responses cs m = feed pushResponseChunk cs m" for m
    by (induction cs arbitrary: m) (auto split: prod.splits sum.splits)
qed

lemma first_call:
  assumes "map_of (up_ongoing up) sid = Some m" and "\<not> response_complete m" and "\<not> processing_finished m"
    and "request_chunks m \<noteq> []"
  shows "message_handler cops ops fresh h sid [] (q, up) =
    ((q, set_client (h_client h) (up_clients up ! h_client h)
       (up\<lparr>up_ongoing := omap_insert sid (m\<lparr>request_chunks := []\<rparr>) (up_ongoing up)\<rparr>)), [], Inr (request_chunks m))"
  using assms by (simp add: message_handler_def drain_request_all Let_def)

text \<open>What an upsert leaves behind when the answer has been taken.\<close>

lemma last_call:
  assumes "map_of (up_ongoing up) sid = Some m" and "request_chunks m = []"
    and "i < length (up_clients up)" and "up_clients up ! i = c"
    and "\<exists>n1 n2. feed pushResponseChunk ds m = (n1, Inr ()) \<and> response_complete n1 \<and>
      process_response ops (c, n1) = ((d, n2), [], Inr ()) \<and> processing_finished n2"
  shows "\<exists>up'. message_handler cops ops fresh (Handler i False) sid ds (q, up) =
      ((c_deregister cops sid q, up'), [], Inr [close_chunk sid fresh]) \<and> up_clients up' ! i = d"
proof -
  obtain n1 n2 where n: "feed pushResponseChunk ds m = (n1, Inr ())" "response_complete n1"
      "process_response ops (c, n1) = ((d, n2), [], Inr ())" "processing_finished n2"
    using assms(5) by blast
  have "m\<lparr>request_chunks := []\<rparr> = m" using assms(2) by (cases m) simp
  then have sent: "drain_request (the (map_of (up_ongoing up) sid)) = (m, [])"
    using assms(1,2) by (simp add: drain_request_all)
  show ?thesis
    unfolding message_handler_def
    by (simp add: sent push_responses_feed assms(3,4) n set_client_def Let_def)
qed

lemma restamp_length: "restamp r cs = (ds, x) \<Longrightarrow> length ds = length cs"
  by (induction r cs arbitrary: ds x rule: restamp.induct) (auto split: sum.splits prod.splits if_splits)

lemma setRequestId_chunks:
  "setRequestId r m = (m', Inr ()) \<Longrightarrow> length (request_chunks m') = length (request_chunks m) \<and>
    response_chunks m' = response_chunks m \<and> response_complete m' = response_complete m \<and>
    processing_finished m' = processing_finished m"
  using restamp_length [of r "request_chunks m"]
  by (auto simp: setRequestId_def Let_def split: prod.splits sum.splits)

lemma upsert_message:
  assumes "encode_upsertNodeRequest ns (message_new 0 0) = (m, Inr ())"
  shows "request_chunks m \<noteq> [] \<and> response_chunks m = [] \<and> \<not> response_complete m \<and> \<not> processing_finished m"
  using assms
  by (auto simp: encode_upsertNodeRequest_def begin_request_def encode_VectorTreeNode_def encode_label_def
      message_new_def Let_def rbind_def split: if_splits sum.splits)

lemma upsert_answered:
  assumes "encode_upsertNodeRequest ns (message_new 0 0) = (m0, Inr ())" and "setRequestId (si_logical sid) m0 = (m, Inr ())"
    and "vector_sendable node_sendable ns" and "length (request_chunks m) < 2 ^ 64" and "request_chunks m \<noteq> []"
    and "response_chunks n = []" and "\<not> response_complete n" and "request_chunks n = []"
    and "map_of (up_ongoing up2) sid = Some n" and "i < length (up_clients up2)" and "up_clients up2 ! i = d"
    and "ongoing rt = []"
    and "on_backend me (b_upsert sops (map (received_node (si_logical sid) (request_signal Upsert_Node)) ns)) rt =
      (rt2, es, Inr x)"
  shows "\<exists>m' ds. process_response_stream sops me fresh' (Stream_Id cid' (si_logical sid)) (request_chunks m) rt =
      (keep_message (Stream_Id cid' (si_logical sid)) m' rt2, es, Inr ds) \<and>
    (length ds < 2 ^ 64 \<longrightarrow> (\<exists>up3.
      message_handler cops ops fresh (Handler i False) sid ds (q1, up2) =
        ((c_deregister cops sid q1, up3), [], Inr [close_chunk sid fresh]) \<and>
      up_clients up3 ! i = d\<lparr>bool_response := True, answer_ready := blocking d \<or> answer_ready d\<rparr>))"
proof -
  let ?sid = "Stream_Id cid' (si_logical sid)" and ?d = "d\<lparr>bool_response := True, answer_ready := blocking d \<or> answer_ready d\<rparr>"
  have "map_of (ongoing rt) ?sid = None" using assms(12) by simp
  from upsert_travels [of ns m0 ?sid m "[]" "request_chunks m" rt me sops rt2 es x n fresh' ops d] assms(1-7) this assms(13)
  obtain m' ds where ds: "serve_batches sops me fresh' ?sid [request_chunks m] rt = (keep_message ?sid m' rt2, es, Inr [ds])"
      "length ds < 2 ^ 64 \<longrightarrow> (\<exists>n1 n2. feed pushResponseChunk ds n = (n1, Inr ()) \<and> response_complete n1 \<and>
         process_response ops (d, n1) = ((?d, n2), [], Inr ()) \<and> processing_finished n2)"
    by auto
  have "process_response_stream sops me fresh' ?sid (request_chunks m) rt = (keep_message ?sid m' rt2, es, Inr ds)"
    using ds(1) by (auto simp: act_bind_def act_return_def split: prod.splits sum.splits)
  moreover note last_call [OF assms(9,8,10,11), of ds ops ?d cops fresh q1] ds(2)
  ultimately show ?thesis by (intro exI [of _ m'] exI [of _ ds] conjI impI) simp_all
qed

text \<open>
  C4: the whole way of a change. A client queues an upsert; a round of the worker gives the request a
  stream of its own and registers the callback; the first call of the callback sends exactly the request;
  any route of a server that gets it, upserts the same nodes; and when the callback gets the route's answer,
  the client learns that it was done, the callback is removed and the stream closed.
\<close>

theorem upsert_end_to_end:
  assumes "client_upsert ops ns c = (c1, es1, Inr out)" and "server_sync c" and "pending_requests c = []"
    and "vector_sendable node_sendable ns" and "length (request_chunks (last (pending_requests c1))) < 2 ^ 64"
    and "i < length (up_clients up)" and "up_clients up ! i = c1" and "is_wwatp (url_info c1)"
    and "static_taken q" and "up_ongoing up = []"
    and "maintain_pending (quic_ops cid) i (q, up) = Some ((q1, up1), es2, Inr ())"
  shows "\<exists>sid request up2. handlers_of q1 = (handlers_of q)(sid := handlers_of q sid @ [Handler i False]) \<and>
    message_handler (quic_ops cid) ops fresh (Handler i False) sid [] (q1, up1) = ((q1, up2), [], Inr request) \<and>
    (\<forall>rt rt2 es x. ongoing rt = [] \<longrightarrow>
       on_backend me (b_upsert sops (map (received_node (si_logical sid) (request_signal Upsert_Node)) ns)) rt = (rt2, es, Inr x) \<longrightarrow>
       (\<exists>m ds. process_response_stream sops me fresh' (Stream_Id cid' (si_logical sid)) request rt =
            (keep_message (Stream_Id cid' (si_logical sid)) m rt2, es, Inr ds) \<and>
          (length ds < 2 ^ 64 \<longrightarrow> (\<exists>up3.
            message_handler (quic_ops cid) ops fresh (Handler i False) sid ds (q1, up2) =
              ((c_deregister (quic_ops cid) sid q1, up3), [], Inr [close_chunk sid fresh]) \<and>
            up_clients up3 ! i = c1\<lparr>pending_requests := [], bool_response := True,
              answer_ready := blocking c1 \<or> answer_ready c1\<rparr>))))"
proof -
  obtain m0 where m0: "encode_upsertNodeRequest ns (message_new 0 0) = (m0, Inr ())" "pending_requests c1 = [m0]"
    using client_upsert_queues [OF assms(1,2)] assms(3) by auto
  have ok: "quic.streams_ok (q, up)" using assms(9,10) by (simp add: quic.streams_ok_def)
  from quic.pending_gets_stream [OF assms(11) ok] m0(2) assms(7,8) obtain sid m1 where
    m: "setRequestId (si_logical sid) m0 = (m1, Inr ())" "map_of (up_ongoing up1) = [sid \<mapsto> m1]"
      "up_clients up1 = (up_clients up)[i := c1\<lparr>pending_requests := []\<rparr>]"
      "handlers_of q1 = (handlers_of q)(sid := handlers_of q sid @ [Handler i False])"
    using assms(10) by auto
  have facts: "request_chunks m1 \<noteq> []" "response_chunks m1 = []" "\<not> response_complete m1" "\<not> processing_finished m1"
      "length (request_chunks m1) < 2 ^ 64"
    using upsert_message [OF m0(1)] setRequestId_chunks [OF m(1)] assms(5) m0(2) by auto
  define n where "n = m1\<lparr>request_chunks := []\<rparr>"
  define d where "d = c1\<lparr>pending_requests := []\<rparr>"
  define up2 where "up2 = set_client i d (up1\<lparr>up_ongoing := omap_insert sid n (up_ongoing up1)\<rparr>)"
  have up2: "map_of (up_ongoing up2) sid = Some n" "up_clients up2 ! i = d" "i < length (up_clients up2)"
    using assms(6) by (simp_all add: up2_def set_client_def m(3))
  have call: "message_handler (quic_ops cid) ops fresh (Handler i False) sid [] (q1, up1) =
      ((q1, up2), [], Inr (request_chunks m1))"
    using first_call [of up1 sid m1 "quic_ops cid" ops fresh "Handler i False" q1] facts m(2,3) assms(6)
    by (simp add: up2_def n_def d_def)
  have n: "response_chunks n = []" "\<not> response_complete n" "request_chunks n = []" using facts by (simp_all add: n_def)
  note answered = upsert_answered [OF m0(1) m(1) assms(4) facts(5,1) n up2(1,3,2)]
  show ?thesis
  proof (intro exI [of _ sid] exI [of _ "request_chunks m1"] exI [of _ up2] conjI allI impI)
    fix rt rt2 es x
    assume "ongoing rt = []"
      and "on_backend me (b_upsert sops (map (received_node (si_logical sid) (request_signal Upsert_Node)) ns)) rt = (rt2, es, Inr x)"
    from answered [OF this, of fresh' cid' "quic_ops cid" ops fresh q1]
    show "\<exists>m ds. process_response_stream sops me fresh' (Stream_Id cid' (si_logical sid)) (request_chunks m1) rt =
            (keep_message (Stream_Id cid' (si_logical sid)) m rt2, es, Inr ds) \<and>
          (length ds < 2 ^ 64 \<longrightarrow> (\<exists>up3.
            message_handler (quic_ops cid) ops fresh (Handler i False) sid ds (q1, up2) =
              ((c_deregister (quic_ops cid) sid q1, up3), [], Inr [close_chunk sid fresh]) \<and>
            up_clients up3 ! i = c1\<lparr>pending_requests := [], bool_response := True,
              answer_ready := blocking c1 \<or> answer_ready c1\<rparr>))"
      by (simp add: d_def)
  qed (rule m(4) call)+
qed

section \<open>Static requests share a stream\<close>

text \<open>
  C29: a second static request for an address is lost: the connection gives it the stream of the first one, the
  worker keeps the message of the first one under it, and the message taken off the client's queue is gone.
\<close>

theorem shared_stream_drops_request:
  assumes "pending_requests (up_clients up ! i) = m # ms" and "\<not> is_wwatp (url_info (up_clients up ! i))"
    and "map_of (static_requests q) (url_info (up_clients up ! i)) = Some sid"
    and "map_of (up_ongoing up) sid = Some m1" and "setRequestId (si_logical sid) m1 = (m1', Inr ())"
  shows "\<exists>up'. maintain_pending (quic_ops cid) i (q, up) =
      Some ((register_response_handler sid (Handler i False) q, up'), [], Inr ()) \<and>
    map_of (up_ongoing up') = (map_of (up_ongoing up))(sid \<mapsto> m1') \<and>
    up_clients up' = (up_clients up)[i := (up_clients up ! i)\<lparr>pending_requests := ms\<rparr>]"
proof -
  have "has_next_request (up_clients up ! i)" using assms(1) by (simp add: has_next_request_def)
  moreover have "c_new_id (quic_ops cid) (url_info (up_clients up ! i)) q = Some (q, sid)"
    using assms(2,3) by (simp add: quic_ops_def get_new_request_id_def)
  ultimately show ?thesis
    using assms(1,4,5)
    by (simp add: maintain_pending_def pop_next_request_def start_request_def omap_emplace_def set_client_def
        quic_ops_def Let_def)
qed

definition example_worker :: "(simple_backend, nat) client \<Rightarrow> (simple_backend, nat) updater" where
  "example_worker c = \<lparr>up_clients = [c], up_ongoing = [], up_time = 0\<rparr>"

theorem shared_stream_drops_request_witness:
  "\<exists>up'. maintain_pending (quic_ops ''c'') 0
      ((queues_new 2 :: (handler, nat) queues)\<lparr>static_requests := [(Http_Request [] [] ''/app.js'' ''GET'' 0 0, Stream_Id ''c'' 2)]\<rparr>,
       (example_worker ((example_client True (0, '''', None))
          \<lparr>url_info := Http_Request [] [] ''/app.js'' ''GET'' 0 0, pending_requests := [message_new 7 0]\<rparr>))
         \<lparr>up_ongoing := [(Stream_Id ''c'' 2, message_new 2 0)]\<rparr>) =
      Some ((register_response_handler (Stream_Id ''c'' 2) (Handler 0 False)
        ((queues_new 2)\<lparr>static_requests := [(Http_Request [] [] ''/app.js'' ''GET'' 0 0, Stream_Id ''c'' 2)]\<rparr>), up'), [], Inr ()) \<and>
    map_of (up_ongoing up') = [Stream_Id ''c'' 2 \<mapsto> (message_new 2 0)\<lparr>request_complete := True\<rparr>]"
proof -
  let ?c = "(example_client True (0, '''', None))
    \<lparr>url_info := Http_Request [] [] ''/app.js'' ''GET'' 0 0, pending_requests := [message_new 7 0]\<rparr>"
  have "\<not> is_wwatp (Http_Request [] [] ''/app.js'' ''GET'' 0 0)" by code_simp
  moreover have "setRequestId 2 (message_new 2 0) = ((message_new 2 0)\<lparr>request_complete := True\<rparr>, Inr ())"
    by (simp add: setRequestId_def message_new_def)
  ultimately show ?thesis
    using shared_stream_drops_request [of "(example_worker ?c)\<lparr>up_ongoing := [(Stream_Id ''c'' 2, message_new 2 0)]\<rparr>" 0
        "message_new 7 0" "[]" "(queues_new 2 :: (handler, nat) queues)\<lparr>static_requests := [(Http_Request [] [] ''/app.js'' ''GET'' 0 0, Stream_Id ''c'' 2)]\<rparr>"
        "Stream_Id ''c'' 2" "message_new 2 0" "(message_new 2 0)\<lparr>request_complete := True\<rparr>" "''c''"]
    by (auto simp: example_worker_def)
qed

section \<open>Examples\<close>

definition example_url :: http_request where
  "example_url = Http_Request ''https'' ''localhost'' ''/wwatp/test'' ''GET'' 0 0"

definition example_queues :: "(handler, nat) queues" where
  "example_queues = (queues_new 2)\<lparr>id_counter := 4, return_paths := [(Stream_Id ''c'' 2, example_url)],
     requestors := [(Stream_Id ''c'' 2, Handler 0 False)]\<rparr>"

definition example_sent :: message where
  "example_sent = (message_new 2 0x09)\<lparr>request_chunks := [vs_of_data (Payload_Header 0x09 2 1) ''0''],
     is_initialized := True, request_complete := True\<rparr>"

lemma example_wwatp: "is_wwatp example_url"
  by code_simp

lemma example_writer_simps [simp]:
  "url_info example_writer = example_url" "pending_requests example_writer = [example_upsert_message]"
  "blocking example_writer" "\<not> answer_ready example_writer" "journal_rate example_writer = 0"
  "\<not> journal_waiting example_writer"
  by (simp_all add: example_writer_def example_client_def example_url_def)

lemma example_round:
  "maintain_pending (quic_ops ''c'') 0 (queues_new 2, example_worker example_writer) =
    Some ((example_queues, (example_worker (example_writer\<lparr>pending_requests := []\<rparr>))
      \<lparr>up_ongoing := [(Stream_Id ''c'' 2, example_sent)]\<rparr>), [], Inr ())"
proof -
  have "free_id ''c'' [] 2 = Some (2, 4)" by (subst free_id.simps) simp
  moreover have "setRequestId 2 example_upsert_message = (example_sent, Inr ())"
    by (simp add: setRequestId_def example_upsert_message_def example_sent_def message_new_def)
  ultimately show ?thesis
    using example_wwatp
    by (simp add: maintain_pending_def has_next_request_def pop_next_request_def quic_ops_def get_new_request_id_def
        queues_new_def start_request_def omap_emplace_def example_worker_def set_client_def example_queues_def
        register_response_handler_def Let_def)
qed


theorem worker_keeps_streams_witness:
  "map_of [(Stream_Id ''c'' 2, example_sent)] (Stream_Id ''c'' 2) \<noteq> None \<longrightarrow>
    map_of (return_paths example_queues) (Stream_Id ''c'' 2) \<noteq> None"
proof -
  have "maintain_request_handlers (quic_ops ''c'') clk 5 (queues_new 2, example_worker example_writer) =
      Some ((example_queues, (example_worker (example_writer\<lparr>pending_requests := [], last_journal_time := 5\<rparr>))
        \<lparr>up_ongoing := [(Stream_Id ''c'' 2, example_sent)], up_time := 5\<rparr>), [], Inr ())" for clk
    using example_round
    by (simp add: maintain_request_handlers_def maintain_journal_def need_journal_request_def example_worker_def
        set_client_def)
  from worker_keeps_streams [OF this, of "Stream_Id ''c'' 2"] show ?thesis
    by (simp add: static_taken_def queues_new_def example_worker_def)
qed

text \<open>An upsert of no nodes, through the worker, to a route of a server with an empty in-memory backend.\<close>

theorem upsert_end_to_end_witness:
  "\<exists>sid request up2. message_handler (quic_ops ''c'') simple_ops [] (Handler 0 False) sid []
        (example_queues, (example_worker (example_writer\<lparr>pending_requests := []\<rparr>))
          \<lparr>up_ongoing := [(Stream_Id ''c'' 2, example_sent)]\<rparr>) = ((example_queues, up2), [], Inr request) \<and>
    (\<exists>m ds. process_response_stream simple_ops 7 [] (Stream_Id ''d'' (si_logical sid)) request
        (route_new (simple_new []) 2 ''u'' ''MutableNodes'') =
      (keep_message (Stream_Id ''d'' (si_logical sid)) m (route_new (simple_new []) 2 ''u'' ''MutableNodes''), [], Inr ds))"
proof -
  let ?rt = "route_new (simple_new []) 2 ''u'' ''MutableNodes''"
  have sync: "server_sync (example_client True (0, '''', None))" "pending_requests (example_client True (0, '''', None)) = []"
    by simp_all
  have few: "vector_sendable node_sendable ([] :: vspan node list)" by (simp add: vector_sendable_def)
  have short: "length (request_chunks (last (pending_requests example_writer))) < 2 ^ 64"
    by (simp add: example_upsert_message_def)
  have up: "0 < length (up_clients (example_worker example_writer))"
      "up_clients (example_worker example_writer) ! 0 = example_writer" "up_ongoing (example_worker example_writer) = []"
    by (simp_all add: example_worker_def)
  have q: "is_wwatp (url_info example_writer)" "static_taken (queues_new 2 :: (handler, nat) queues)"
    using example_wwatp by (simp_all add: static_taken_def queues_new_def)
  from upsert_end_to_end [OF example_upsert(2) sync few short up(1,2) q up(3) example_round,
      where fresh = "[]" and me = 7 and sops = simple_ops and fresh' = "[]" and cid' = "''d''"]
  obtain sid request up2 where run: "message_handler (quic_ops ''c'') simple_ops [] (Handler 0 False) sid []
        (example_queues, (example_worker (example_writer\<lparr>pending_requests := []\<rparr>))
          \<lparr>up_ongoing := [(Stream_Id ''c'' 2, example_sent)]\<rparr>) = ((example_queues, up2), [], Inr request)"
      "\<forall>rt rt2 es x. ongoing rt = [] \<longrightarrow>
         on_backend 7 (b_upsert simple_ops (map (received_node (si_logical sid) (request_signal Upsert_Node)) [])) rt = (rt2, es, Inr x) \<longrightarrow>
         (\<exists>m ds. process_response_stream simple_ops 7 [] (Stream_Id ''d'' (si_logical sid)) request rt =
            (keep_message (Stream_Id ''d'' (si_logical sid)) m rt2, es, Inr ds))"
    by meson
  have "ongoing ?rt = []" "on_backend 7 (b_upsert simple_ops []) ?rt = (?rt, [], Inr True)"
    by (simp_all add: on_backend_def route_new_def example_upsert(1) journal_events_def)
  then show ?thesis using run by (metis list.map_disc_iff)
qed

end
