(* ===== verification/Cloning_Mediator.thy ===== *)
theory Cloning_Mediator
  imports Simple_Backend
begin

text \<open>
  The mediator that keeps two backends alike (\<open>common/frontend/mediator_cpp/cloning_mediator.cpp\<close>). It listens
  on both at the empty label; a change of one is written to the other unless one of the two flags says that
  the mediator itself is the cause. The callbacks run inside the operations of the backends; since they do
  not touch the backend whose change they hear, running them after the operation, in order, is the same.
\<close>

section \<open>Equal nodes\<close>

text \<open>\<open>TreeNode::operator==\<close> on values: the bytes of the data count, not how they are cut into chunks.\<close>

definition vnode_eq :: "vnode \<Rightarrow> vnode \<Rightarrow> bool" where
  "vnode_eq n m \<longleftrightarrow> label_rule n = label_rule m \<and> description n = description m \<and>
     property_infos n = property_infos m \<and> node_version n = node_version m \<and> child_names n = child_names m \<and>
     with_default '''' (query_how_to n) = with_default '''' (query_how_to m) \<and> qa_sequence n = qa_sequence m \<and>
     vs_bytes (property_data n) = vs_bytes (property_data m)"

section \<open>The callback\<close>

text \<open>
  The state is the other backend with the two flags, the one to set and the one to obey. A backend that
  throws leaves the first flag set.
\<close>

definition set_flag :: "bool \<Rightarrow> ('t \<times> bool \<times> bool, unit) act" where
  "set_flag b = (\<lambda>(t, s, i). ((t, b, i), [], Inr ()))"

definition on_other :: "('t, 'a) act \<Rightarrow> ('t \<times> bool \<times> bool, 'a) act" where
  "on_other f = (\<lambda>(t, s, i). case f t of (t', es, r) \<Rightarrow> ((t', s, i), es, r))"

definition mediator_callback ::
  "'t backend_ops \<Rightarrow> bool \<Rightarrow> string \<Rightarrow> vnode option \<Rightarrow> ('t \<times> bool \<times> bool, unit) act" where
  "mediator_callback ops versioned l m_from = (\<lambda>(t, s, processing).
     if processing then ((t, s, processing), [], Inr ())
     else
       act_bind (set_flag True) (\<lambda>_.
       act_bind (on_other (\<lambda>t. (t, [], b_get_node ops l t))) (\<lambda>m_to.
         if rel_option vnode_eq m_from m_to then set_flag False
         else
           act_bind
             (case m_from of
                None \<Rightarrow> on_other (b_delete ops l)
              | Some n \<Rightarrow>
                  if versioned \<and> \<not> (case m_to of None \<Rightarrow> True | Some m \<Rightarrow> version_ge (node_version n) (node_version m))
                  then act_return True
                  else on_other (b_upsert ops [n]))
             (\<lambda>_. set_flag False))) (t, s, processing))"

section \<open>The mediator\<close>

record ('a, 'b) mediator =
  side_a :: 'a
  side_b :: 'b
  versioned :: bool
  processing_a :: bool
  processing_b :: bool

text \<open>What a listener with the callback \<open>User i\<close> hears of an operation.\<close>

fun heard :: "nat \<Rightarrow> event list \<Rightarrow> (string \<times> vnode option) list" where
  "heard i [] = []"
| "heard i (Called j l m # es) = (if j = i then (l, m) # heard i es else heard i es)"
| "heard i (Queued j cb l m # es) = heard i es"

text \<open>
  Backend A has changed: write it to B; what B's listener hears of that runs the other callback, on A, while
  the flag is set.
\<close>

definition a_changed ::
  "'a backend_ops \<Rightarrow> 'b backend_ops \<Rightarrow> nat \<Rightarrow> string \<times> vnode option \<Rightarrow> (('a, 'b) mediator, unit) act" where
  "a_changed opsa opsb ib lm md =
     (case mediator_callback opsb (versioned md) (fst lm) (snd lm) (side_b md, processing_a md, processing_b md) of
        ((b, pa, pb), es, r) \<Rightarrow>
          (case act_each (\<lambda>(l, m). mediator_callback opsa (versioned md) l m) (heard ib es) (side_a md, pb, True) of
             ((a, pb', _), fs, r') \<Rightarrow>
               (md\<lparr>side_a := a, side_b := b, processing_a := pa, processing_b := pb'\<rparr>, es @ fs,
                case r of Inl e \<Rightarrow> Inl e | Inr _ \<Rightarrow> r')))"

definition swap_sides :: "('a, 'b) mediator \<Rightarrow> ('b, 'a) mediator" where
  "swap_sides md = \<lparr>side_a = side_b md, side_b = side_a md, versioned = versioned md,
     processing_a = processing_b md, processing_b = processing_a md\<rparr>"

text \<open>An operation of a client on backend A, with the callback \<open>User ia\<close> of the mediator registered there.\<close>

definition operate_a ::
  "'a backend_ops \<Rightarrow> 'b backend_ops \<Rightarrow> nat \<Rightarrow> nat \<Rightarrow> ('a, 'r) act \<Rightarrow> (('a, 'b) mediator, 'r) act" where
  "operate_a opsa opsb ia ib f md =
     (case f (side_a md) of
        (a, es, r) \<Rightarrow>
          (case act_each (a_changed opsa opsb ib) (heard ia es) (md\<lparr>side_a := a\<rparr>) of
             (md', fs, Inl e) \<Rightarrow> (md', es @ fs, Inl e)
           | (md', fs, Inr _) \<Rightarrow> (md', es @ fs, r)))"

definition operate_b ::
  "'a backend_ops \<Rightarrow> 'b backend_ops \<Rightarrow> nat \<Rightarrow> nat \<Rightarrow> ('b, 'r) act \<Rightarrow> (('a, 'b) mediator, 'r) act" where
  "operate_b opsa opsb ia ib f md =
     (case operate_a opsb opsa ib ia f (swap_sides md) of (md', es, r) \<Rightarrow> (swap_sides md', es, r))"

definition mediator_start ::
  "'a backend_ops \<Rightarrow> 'b backend_ops \<Rightarrow> nat \<Rightarrow> nat \<Rightarrow> bool \<Rightarrow> 'a \<Rightarrow> 'b \<Rightarrow> ('a, 'b) mediator \<times> event list \<times> unit result" where
  "mediator_start opsa opsb ia ib v a b =
     (case b_register opsa ''CloningMediatorA'' '''' True (User ia) a of
        (a', es, Inl e) \<Rightarrow> (\<lparr>side_a = a', side_b = b, versioned = v, processing_a = False, processing_b = False\<rparr>, es, Inl e)
      | (a', es, Inr _) \<Rightarrow>
          (case b_register opsb ''CloningMediatorB'' '''' True (User ib) b of
             (b', fs, r) \<Rightarrow>
               (\<lparr>side_a = a', side_b = b', versioned = v, processing_a = False, processing_b = False\<rparr>, es @ fs, r)))"

definition mediator_stop :: "'a backend_ops \<Rightarrow> 'b backend_ops \<Rightarrow> (('a, 'b) mediator, unit) act" where
  "mediator_stop opsa opsb md =
     (case b_deregister opsa ''CloningMediatorA'' '''' (side_a md) of
        (a', es, Inl e) \<Rightarrow> (md\<lparr>side_a := a'\<rparr>, es, Inl e)
      | (a', es, Inr _) \<Rightarrow>
          (case b_deregister opsb ''CloningMediatorB'' '''' (side_b md) of
             (b', fs, r) \<Rightarrow> (md\<lparr>side_a := a', side_b := b'\<rparr>, es @ fs, r)))"

section \<open>No echo\<close>

lemma rel_vnode_refl [simp]: "vnode_eq n n"
  by (simp add: vnode_eq_def)

lemma callback_ignored: "mediator_callback ops v l m (t, s, True) = ((t, s, True), [], Inr ())"
  by (simp add: mediator_callback_def)

lemma echo_ignored: "act_each (\<lambda>(l, m). mediator_callback ops v l m) lms (t, s, True) = ((t, s, True), [], Inr ())"
  by (induction lms) (auto simp: act_return_def act_bind_def callback_ignored)

text \<open>Backend A stays as it is, and its flag too; only the writing to B decides what happens.\<close>

lemma a_changed_eq:
  "a_changed opsa opsb ib (l, m) md =
     (case mediator_callback opsb (versioned md) l m (side_b md, processing_a md, processing_b md) of
        ((b, pa, pb), es, r) \<Rightarrow> (md\<lparr>side_b := b, processing_a := pa, processing_b := pb\<rparr>, es, r))"
  by (cases md) (auto simp: a_changed_def echo_ignored split: prod.split sum.split)

end
