(* ===== verification/Mediator_Properties.thy ===== *)
theory Mediator_Properties
  imports Cloning_Mediator
begin

text \<open>
  Two backends under a cloning mediator: each change of one is a change of the other, nothing comes back,
  older versions are refused, and what happens when a backend throws.
\<close>

section \<open>Any two backends\<close>

text \<open>An operation on the other backend, between raising the flag and lowering it.\<close>

lemma callback_through:
  assumes "b_get_node ops l t = Inr m_to"
  shows "mediator_callback ops v l m_from (t, s, False) =
    (if rel_option vnode_eq m_from m_to then ((t, False, False), [], Inr ())
     else case m_from of
         None \<Rightarrow> (case b_delete ops l t of
             (t', es, Inl e) \<Rightarrow> ((t', True, False), es, Inl e) | (t', es, Inr _) \<Rightarrow> ((t', False, False), es, Inr ()))
       | Some n \<Rightarrow>
           if v \<and> (\<exists>m. m_to = Some m \<and> version_lt (node_version n) (node_version m))
           then ((t, False, False), [], Inr ())
           else (case b_upsert ops [n] t of
             (t', es, Inl e) \<Rightarrow> ((t', True, False), es, Inl e) | (t', es, Inr _) \<Rightarrow> ((t', False, False), es, Inr ())))"
  using assms
  by (auto simp: mediator_callback_def set_flag_def on_other_def act_bind_def act_return_def version_ge_def
      split: option.splits prod.splits sum.splits)

context tree_backend
begin

lemma clone_put:
  assumes "inv t" and "accepts n"
  shows "\<exists>t' es. mediator_callback ops False (label_rule n) (Some n) (t, s, False) = ((t', False, False), es, Inr ()) \<and>
    inv t' \<and> (view t' = view t \<and> rel_option vnode_eq (Some n) (view t (label_rule n)) \<or>
      view t' = (view t)(label_rule n \<mapsto> node_assign n))"
proof -
  obtain t' es where up: "b_upsert ops [n] t = (t', es, Inr True)" "inv t'"
      "view t' = (view t)(label_rule n \<mapsto> node_assign n)"
    by (rule upsert_single [OF assms])
  show ?thesis
    using callback_through [OF get_node [OF assms(1), of "label_rule n"], of False "Some n" s] up assms(1)
    by (cases "rel_option vnode_eq (Some n) (view t (label_rule n))") auto
qed

lemma clone_drop:
  assumes "inv t"
  shows "\<exists>t' es. mediator_callback ops v l None (t, s, False) = ((t', False, False), es, Inr ()) \<and> inv t' \<and>
    (view t l = None \<and> t' = t \<or> (\<exists>fs r. view t l \<noteq> None \<and> b_delete ops l t = (t', fs, Inr r)))"
  using callback_through [OF get_node [OF assms, of l], of v None s] delete [OF assms, of l] assms
  by (cases "view t l") auto

lemma clone_older:
  assumes "inv t" and "view t (label_rule n) = Some m" and "version_lt (node_version n) (node_version m)"
  shows "mediator_callback ops True (label_rule n) (Some n) (t, s, False) = ((t, False, False), [], Inr ())"
  using callback_through [OF get_node [OF assms(1), of "label_rule n"], of True "Some n" s] assms(2,3) by simp

end

section \<open>Two in-memory backends\<close>

text \<open>A backend with no listener but the mediator's.\<close>

definition mediated :: "nat \<Rightarrow> simple_backend \<Rightarrow> bool" where
  "mediated i b \<longleftrightarrow> keyed (memory_tree b) \<and> (\<exists>name. node_listeners b = [('''', [(name, True, User i)])])"

lemma mediated_inv: "mediated i b \<Longrightarrow> simple_inv b"
  by (auto simp: mediated_def simple_inv_def listeners_ok_def omap_ok_def)

lemma mediated_notified:
  assumes "mediated i b"
  shows "notified b l m = [Called i l m]"
proof -
  have "partial_match l ''''" by (simp add: partial_match_iff)
  then show ?thesis
    using assms by (auto simp: mediated_def notified_def omap_upto_def called_def hears_def)
qed

lemma heard_map: "heard i (map (\<lambda>x. Called i (f x) (g x)) xs) = map (\<lambda>x. (f x, g x)) xs"
  by (induction xs) auto

definition put :: "vnode \<Rightarrow> view \<Rightarrow> view" where
  "put n w = w(label_rule n \<mapsto> node_assign n)"

lemma upsert_puts: "map_of (tree_upsert ns t) = fold put ns (map_of t)"
proof (induction ns arbitrary: t)
  case (Cons n ns)
  have "tree_upsert (n # ns) t = tree_upsert ns (tree_store (label_rule n) n t)" by (simp add: tree_upsert_def)
  then show ?case using Cons by (simp add: put_def)
qed (simp add: tree_upsert_def)

lemma mediated_upsert:
  assumes "mediated i b"
  shows "b_upsert simple_ops ns b = (b\<lparr>memory_tree := tree_upsert ns (memory_tree b)\<rparr>,
      map (\<lambda>n. Called i (label_rule n) (Some n)) ns, Inr True) \<and>
    mediated i (b\<lparr>memory_tree := tree_upsert ns (memory_tree b)\<rparr>)"
proof -
  have "listeners_ok (node_listeners b)" using mediated_inv [OF assms] by (simp add: simple_inv_def)
  moreover have "concat (map (\<lambda>n. notified b (label_rule n) (Some n)) ns) = map (\<lambda>n. Called i (label_rule n) (Some n)) ns"
    by (simp add: mediated_notified [OF assms] concat_map_singleton)
  ultimately show ?thesis
    using assms by (auto simp: simple_ops_def simple_upsert_eq mediated_def keyed_upsert)
qed

lemma mediated_delete:
  assumes "mediated i b"
  shows "b_delete simple_ops l b = (b\<lparr>memory_tree := fst (tree_delete l (memory_tree b))\<rparr>, [Called i l None], Inr True) \<and>
    mediated i (b\<lparr>memory_tree := fst (tree_delete l (memory_tree b))\<rparr>)"
proof -
  have "listeners_ok (node_listeners b)" using mediated_inv [OF assms] by (simp add: simple_inv_def)
  then show ?thesis
    using assms mediated_notified [OF assms, of l None]
    by (auto simp: simple_ops_def simple_delete_eq mediated_def keyed_tree_delete)
qed

section \<open>Agreement\<close>

text \<open>What the comparison of nodes looks at.\<close>

definition node_key :: "vnode \<Rightarrow> string \<times> string \<times> property_info list \<times> version \<times> string list \<times> string \<times> string option \<times> byte list" where
  "node_key n = (label_rule n, description n, property_infos n, node_version n, child_names n,
     with_default '''' (query_how_to n), qa_sequence n, vs_bytes (property_data n))"

lemma vnode_eq_key: "vnode_eq n m \<longleftrightarrow> node_key n = node_key m"
  by (auto simp: vnode_eq_def node_key_def)

lemma rel_option_key: "rel_option vnode_eq x y \<longleftrightarrow> map_option node_key x = map_option node_key y"
  by (cases x; cases y) (auto simp: vnode_eq_key)

definition agree :: "view \<Rightarrow> view \<Rightarrow> bool" where
  "agree w w' \<longleftrightarrow> (\<forall>l. rel_option vnode_eq (w l) (w' l))"

lemma agree_iff: "agree w w' \<longleftrightarrow> (\<lambda>l. map_option node_key (w l)) = (\<lambda>l. map_option node_key (w' l))"
  by (simp add: agree_def rel_option_key fun_eq_iff)

lemma agree_refl [simp]: "agree w w"
  by (simp add: agree_iff)

lemma agree_sym: "agree w w' \<Longrightarrow> agree w' w"
  by (simp add: agree_iff)

lemma agree_trans: "agree w w' \<Longrightarrow> agree w' w'' \<Longrightarrow> agree w w''"
  by (simp add: agree_iff)

lemma agree_put: "agree w w' \<Longrightarrow> agree (put n w) (put n w')"
  by (auto simp: agree_def put_def vnode_eq_key)

lemma agree_puts: "agree w w' \<Longrightarrow> agree (fold put ns w) (fold put ns w')"
  by (induction ns arbitrary: w w') (auto intro: agree_put)

lemma agree_reach:
  assumes "agree (map_of t) (map_of u)"
  shows "reach t S l \<Longrightarrow> reach u S l"
proof (induction rule: reach.induct)
  case (link m n c)
  have "rel_option vnode_eq (map_of t m) (map_of u m)" using assms by (simp add: agree_def)
  then obtain n' where "map_of u m = Some n'" "vnode_eq n n'"
    using link(2) by (cases "map_of u m") auto
  moreover from this(2) have "get_absolute_child_names n' = get_absolute_child_names n"
    by (simp add: vnode_eq_def get_absolute_child_names_def)
  ultimately show ?case using link by (auto intro: reach.link)
qed (rule reach.start)

lemma agree_delete:
  assumes "keyed t" and "keyed u" and "agree (map_of t) (map_of u)"
  shows "agree (map_of (fst (tree_delete l t))) (map_of (fst (tree_delete l u)))"
  unfolding agree_def
proof
  fix m
  have "map_of t l = None \<longleftrightarrow> map_of u l = None"
    using assms(3) unfolding agree_iff by (metis option.map_disc_iff)
  moreover have "reach t {l} m \<longleftrightarrow> reach u {l} m"
    using agree_reach [OF assms(3)] agree_reach [OF agree_sym [OF assms(3)]] by blast
  moreover have "rel_option vnode_eq (map_of t m) (map_of u m)" using assms(3) by (simp add: agree_def)
  ultimately show "rel_option vnode_eq (map_of (fst (tree_delete l t)) m) (map_of (fst (tree_delete l u)) m)"
    using delete_removes_core [OF assms(1), of l m] delete_removes_core [OF assms(2), of l m]
    by (cases "map_of u l") (auto simp: tree_get_node_def)
qed

section \<open>The pair\<close>

definition mirrored :: "nat \<Rightarrow> nat \<Rightarrow> (simple_backend, simple_backend) mediator \<Rightarrow> bool" where
  "mirrored ia ib md \<longleftrightarrow> mediated ia (side_a md) \<and> mediated ib (side_b md) \<and>
     \<not> versioned md \<and> \<not> processing_a md \<and> \<not> processing_b md \<and>
     agree (map_of (memory_tree (side_a md))) (map_of (memory_tree (side_b md)))"

lemma mirrored_swap: "mirrored ia ib md \<Longrightarrow> mirrored ib ia (swap_sides md)"
  by (auto simp: mirrored_def swap_sides_def intro: agree_sym)

text \<open>A node whose bytes survive the copy a tree makes of it.\<close>

definition copied_whole :: "vnode \<Rightarrow> bool" where
  "copied_whole n \<longleftrightarrow> vnode_eq (node_assign n) n"

text \<open>Empty chunks are what the copy may lose bytes at.\<close>

lemma full_chunks_copied:
  assumes "\<forall>c \<in> set (vs_chunks (property_data n)). vc_data c \<noteq> []" and "vs_size (property_data n) < 2 ^ 64"
  shows "copied_whole n"
proof -
  have "vs_bytes (vs_restrict (property_data n) 0 (vs_size (property_data n))) = vs_bytes (property_data n)"
    using vs_restrict_bytes [OF assms(1), of 0] assms(2) by (simp add: vs_size_bytes)
  then show ?thesis by (simp add: copied_whole_def vnode_eq_def node_assign_def)
qed

lemma clone_node:
  assumes "mediated i b" and "copied_whole n"
  shows "\<exists>b' es. mediator_callback simple_ops False (label_rule n) (Some n) (b, s, False) = ((b', False, False), es, Inr ()) \<and>
    mediated i b' \<and> agree (map_of (memory_tree b')) (put n (map_of (memory_tree b)))"
proof -
  let ?w = "map_of (memory_tree b)"
  note through = callback_through [OF simple.get_node [OF mediated_inv [OF assms(1)], of "label_rule n"], of False "Some n" s]
  show ?thesis
  proof (cases "rel_option vnode_eq (Some n) (?w (label_rule n))")
    case True
    then obtain m where "?w (label_rule n) = Some m" "vnode_eq n m" by (cases "?w (label_rule n)") auto
    then have "agree ?w (put n ?w)"
      using assms(2) by (auto simp: agree_def put_def copied_whole_def vnode_eq_key option.rel_refl)
    then show ?thesis using through True assms(1) by auto
  next
    case False
    then show ?thesis
      using through mediated_upsert [OF assms(1), of "[n]"] by (auto simp: upsert_puts)
  qed
qed

lemma a_changed_puts:
  assumes "mediated ib (side_b md)" and "\<not> versioned md" and "\<not> processing_a md" and "\<not> processing_b md"
    and "\<forall>n \<in> set ns. copied_whole n"
  shows "\<exists>b es. act_each (a_changed simple_ops simple_ops ib) (map (\<lambda>n. (label_rule n, Some n)) ns) md =
      (md\<lparr>side_b := b\<rparr>, es, Inr ()) \<and> mediated ib b \<and>
    agree (map_of (memory_tree b)) (fold put ns (map_of (memory_tree (side_b md))))"
  using assms
proof (induction ns arbitrary: md)
  case Nil
  then show ?case by (intro exI [of _ "side_b md"]) (simp add: act_return_def)
next
  case (Cons n ns)
  obtain b es where b: "mediator_callback simple_ops False (label_rule n) (Some n) (side_b md, processing_a md, False) =
      ((b, False, False), es, Inr ())" "mediated ib b" "agree (map_of (memory_tree b)) (put n (map_of (memory_tree (side_b md))))"
    using clone_node [OF Cons.prems(1), of n "processing_a md"] Cons.prems(5) by fastforce
  have step: "a_changed simple_ops simple_ops ib (label_rule n, Some n) md = (md\<lparr>side_b := b\<rparr>, es, Inr ())"
    using b(1) Cons.prems(2,3,4) by (cases md) (simp add: a_changed_eq)
  obtain b' fs where rest: "act_each (a_changed simple_ops simple_ops ib) (map (\<lambda>n. (label_rule n, Some n)) ns) (md\<lparr>side_b := b\<rparr>) =
      (md\<lparr>side_b := b'\<rparr>, fs, Inr ())" "mediated ib b'" "agree (map_of (memory_tree b')) (fold put ns (map_of (memory_tree b)))"
    using Cons.IH [of "md\<lparr>side_b := b\<rparr>"] Cons.prems b(2) by auto
  have "agree (map_of (memory_tree b')) (fold put (n # ns) (map_of (memory_tree (side_b md))))"
    using agree_trans [OF rest(3) agree_puts [OF b(3)]] by simp
  then show ?case using step rest(1,2) by (auto simp: act_bind_def)
qed

lemma operate_put:
  assumes "mirrored ia ib md" and "\<forall>n \<in> set ns. copied_whole n"
  shows "\<exists>md' es. operate_a simple_ops simple_ops ia ib (b_upsert simple_ops ns) md = (md', es, Inr True) \<and>
    mirrored ia ib md' \<and> map_of (memory_tree (side_a md')) = fold put ns (map_of (memory_tree (side_a md)))"
proof -
  define a where "a = (side_a md)\<lparr>memory_tree := tree_upsert ns (memory_tree (side_a md))\<rparr>"
  have m: "mediated ia (side_a md)" "mediated ib (side_b md)" "\<not> versioned md" "\<not> processing_a md" "\<not> processing_b md"
      "agree (map_of (memory_tree (side_a md))) (map_of (memory_tree (side_b md)))"
    using assms(1) by (auto simp: mirrored_def)
  have up: "b_upsert simple_ops ns (side_a md) = (a, map (\<lambda>n. Called ia (label_rule n) (Some n)) ns, Inr True)" "mediated ia a"
    using mediated_upsert [OF m(1), of ns] by (auto simp: a_def)
  obtain b es where b: "act_each (a_changed simple_ops simple_ops ib) (map (\<lambda>n. (label_rule n, Some n)) ns) (md\<lparr>side_a := a\<rparr>) =
      (md\<lparr>side_a := a, side_b := b\<rparr>, es, Inr ())" "mediated ib b"
      "agree (map_of (memory_tree b)) (fold put ns (map_of (memory_tree (side_b md))))"
    using a_changed_puts [of ib "md\<lparr>side_a := a\<rparr>" ns] m assms(2) by auto
  have "agree (map_of (memory_tree a)) (map_of (memory_tree b))"
    using agree_trans [OF agree_puts [OF m(6), of ns] agree_sym [OF b(3)]] by (simp add: a_def upsert_puts)
  moreover have "map_of (memory_tree a) = fold put ns (map_of (memory_tree (side_a md)))" by (simp add: a_def upsert_puts)
  ultimately show ?thesis
    using up b(1,2) m by (auto simp: operate_a_def heard_map mirrored_def)
qed

lemma operate_drop:
  assumes "mirrored ia ib md"
  shows "\<exists>md' es. operate_a simple_ops simple_ops ia ib (b_delete simple_ops l) md = (md', es, Inr True) \<and>
    mirrored ia ib md' \<and> memory_tree (side_a md') = fst (tree_delete l (memory_tree (side_a md)))"
proof -
  define a where "a = (side_a md)\<lparr>memory_tree := fst (tree_delete l (memory_tree (side_a md)))\<rparr>"
  define b where "b = (side_b md)\<lparr>memory_tree := fst (tree_delete l (memory_tree (side_b md)))\<rparr>"
  have m: "mediated ia (side_a md)" "mediated ib (side_b md)" "\<not> versioned md" "\<not> processing_a md" "\<not> processing_b md"
      "agree (map_of (memory_tree (side_a md))) (map_of (memory_tree (side_b md)))"
    using assms by (auto simp: mirrored_def)
  have del: "b_delete simple_ops l (side_a md) = (a, [Called ia l None], Inr True)" "mediated ia a"
      "b_delete simple_ops l (side_b md) = (b, [Called ib l None], Inr True)" "mediated ib b"
    using mediated_delete [OF m(1), of l] mediated_delete [OF m(2), of l] by (auto simp: a_def b_def)
  have missing: "b = side_b md" if "map_of (memory_tree (side_b md)) l = None"
    using that by (cases "side_b md") (simp add: b_def tree_delete_def)
  have "\<exists>es. mediator_callback simple_ops False l None (side_b md, False, False) = ((b, False, False), es, Inr ())"
    using callback_through [OF simple.get_node [OF mediated_inv [OF m(2)], of l], of False None False] del(3) missing
    by (cases "map_of (memory_tree (side_b md)) l") auto
  then obtain es where "a_changed simple_ops simple_ops ib (l, None) (md\<lparr>side_a := a\<rparr>) = (md\<lparr>side_a := a, side_b := b\<rparr>, es, Inr ())"
    using m(3,4,5) by (cases md) (auto simp: a_changed_eq)
  moreover have "agree (map_of (memory_tree a)) (map_of (memory_tree b))"
    using agree_delete [OF _ _ m(6), of l] m(1,2) by (simp add: a_def b_def mediated_def)
  ultimately show ?thesis
    using del m(3,4,5) by (auto simp: operate_a_def mirrored_def act_bind_def act_return_def a_def)
qed

section \<open>Properties\<close>

datatype client_change = Put_A "vnode list" | Put_B "vnode list" | Drop_A string | Drop_B string

fun apply_change :: "nat \<Rightarrow> nat \<Rightarrow> client_change \<Rightarrow> ((simple_backend, simple_backend) mediator, bool) act" where
  "apply_change ia ib (Put_A ns) = operate_a simple_ops simple_ops ia ib (b_upsert simple_ops ns)"
| "apply_change ia ib (Put_B ns) = operate_b simple_ops simple_ops ia ib (b_upsert simple_ops ns)"
| "apply_change ia ib (Drop_A l) = operate_a simple_ops simple_ops ia ib (b_delete simple_ops l)"
| "apply_change ia ib (Drop_B l) = operate_b simple_ops simple_ops ia ib (b_delete simple_ops l)"

fun changed_nodes :: "client_change \<Rightarrow> vnode list" where
  "changed_nodes (Put_A ns) = ns"
| "changed_nodes (Put_B ns) = ns"
| "changed_nodes _ = []"

lemma swap_swap [simp]: "swap_sides (swap_sides md) = md"
  by (simp add: swap_sides_def)

lemma apply_change_mirrored:
  assumes "mirrored ia ib md" and "\<forall>n \<in> set (changed_nodes c). copied_whole n"
  shows "\<exists>md' es. apply_change ia ib c md = (md', es, Inr True) \<and> mirrored ia ib md'"
proof (cases c)
  case (Put_A ns)
  then show ?thesis using operate_put [OF assms(1), of ns] assms(2) by auto
next
  case (Put_B ns)
  then show ?thesis
    using operate_put [OF mirrored_swap [OF assms(1)], of ns] assms(2) mirrored_swap
    by (fastforce simp: operate_b_def)
next
  case (Drop_A l)
  then show ?thesis using operate_drop [OF assms(1), of l] by auto
next
  case (Drop_B l)
  then show ?thesis
    using operate_drop [OF mirrored_swap [OF assms(1)], of l] mirrored_swap by (fastforce simp: operate_b_def)
qed


definition example_pair :: "(simple_backend, simple_backend) mediator" where
  "example_pair = fst (mediator_start simple_ops simple_ops 1 2 False (simple_new []) (simple_new []))"

lemma mirrored_example: "mirrored 1 2 example_pair"
  by (simp add: example_pair_def mediator_start_def simple_ops_def simple_register_def simple_deregister_def simple_new_def
      mirrored_def mediated_def Let_def)

definition leaf :: vnode where
  "leaf = (node_default (vs_of_data (Payload_Header 0 0 2) ''hi''))\<lparr>label_rule := ''a/b''\<rparr>"

lemma copied_leaf: "copied_whole leaf"
  by (rule full_chunks_copied) (simp_all add: leaf_def node_default_def vs_of_data_def vs_size_def chunk_size_def
    more_chunks.simps [of "[]"])


text \<open>
  With the version flag, a node older than the one the other backend holds is not written there.
\<close>

theorem older_version_refused:
  assumes "simple_inv b" and "map_of (memory_tree b) (label_rule n) = Some m"
    and "version_lt (node_version n) (node_version m)"
  shows "mediator_callback simple_ops True (label_rule n) (Some n) (b, s, False) = ((b, False, False), [], Inr ())"
  by (rule simple.clone_older [OF assms])

theorem older_version_refused_witness:
  "mediator_callback simple_ops True ''a/b'' (Some leaf)
      ((simple_new [(''a/b'', leaf\<lparr>node_version := default_version\<lparr>version_number := 5\<rparr>\<rparr>)]), False, False) =
    ((simple_new [(''a/b'', leaf\<lparr>node_version := default_version\<lparr>version_number := 5\<rparr>\<rparr>)], False, False), [], Inr ())"
proof -
  have "simple_inv (simple_new [(''a/b'', leaf\<lparr>node_version := default_version\<lparr>version_number := 5\<rparr>\<rparr>)])"
    by (simp add: simple_inv_def simple_new_def keyed_def leaf_def omap_ok_def listeners_ok_def)
  moreover have "version_lt (node_version leaf) (default_version\<lparr>version_number := 5\<rparr>)" by code_simp
  ultimately show ?thesis
    using older_version_refused [of "simple_new [(''a/b'', leaf\<lparr>node_version := default_version\<lparr>version_number := 5\<rparr>\<rparr>)]"
        leaf "leaf\<lparr>node_version := default_version\<lparr>version_number := 5\<rparr>\<rparr>" False]
    by (simp add: leaf_def simple_new_def)
qed



end
