(* ===== verification/Service_Config.thy ===== *)
theory Service_Config
  imports Node_Properties Backend_Interface
begin

text \<open>
  Reading the configuration (\<open>wwatp_service.cpp\<close>, \<open>getStringProperty\<close> to \<open>getConfigBoolProperty\<close>):
  a setting is a property of a configuration node or, failing that, a key of the YAML text in the node's
  \<open>config\<close> property. yaml-cpp is an argument, the record \<open>yaml\<close>; an exception of its is \<open>Yaml_Error\<close> with the
  text of \<open>what()\<close>, and an exception of the program's own \<open>ConfigError\<close> is \<open>Config_Error\<close>.
\<close>

section \<open>Properties of a node as a value\<close>

text \<open>
  A configuration node comes from a backend, so its data are a value; the property operations read a heap.
  Its chunks are placed on one, each at an address of its own behind its header.
\<close>

definition placed_chunk :: "vchunk \<Rightarrow> nat \<Rightarrow> hchunk" where
  "placed_chunk c a = \<lparr>h_addr = a, h_first = header_size (vc_head c), h_len = length (vc_data c)\<rparr>"

definition placed_bytes :: "vchunk \<Rightarrow> byte list" where
  "placed_bytes c = header_bytes (vc_head c) @ vc_data c"

definition placed_pool :: "vspan \<Rightarrow> pool" where
  "placed_pool s = \<lparr>mem = (\<lambda>a i.
     if a < length (vs_chunks s) \<and> i < length (placed_bytes (vs_chunks s ! a))
     then placed_bytes (vs_chunks s ! a) ! i else CHR 0x00), next_addr = length (vs_chunks s)\<rparr>"

definition placed_span :: "vspan \<Rightarrow> hspan" where
  "placed_span s = \<lparr>hs_chunks = map2 placed_chunk (vs_chunks s) [0..<length (vs_chunks s)], hs_type = vs_type s\<rparr>"

definition placed_node :: "vnode \<Rightarrow> hspan node" where
  "placed_node n = \<lparr>label_rule = label_rule n, description = description n, property_infos = property_infos n,
     node_version = node_version n, child_names = child_names n, property_data = placed_span (property_data n),
     query_how_to = query_how_to n, qa_sequence = qa_sequence n\<rparr>"

text \<open>
  \<open>getPropertyString\<close>, the length and the bytes \<open>getPropertyValueSpan\<close> gives, and \<open>getPropertyValue<T>\<close> for
  the integers and \<open>bool\<close>; a \<open>bool\<close> whose byte is neither 0 nor 1 is undefined.
\<close>

definition value_string :: "vnode \<Rightarrow> string \<Rightarrow> string result" where
  "value_string n name =
     rbind (get_property_string (placed_pool (property_data n)) (placed_node n) name) (\<lambda>(size, s). Inr s)"

definition value_span :: "vnode \<Rightarrow> string \<Rightarrow> vspan result" where
  "value_span n name =
     rbind (get_property_value_span (placed_pool (property_data n)) (placed_node n) name) (\<lambda>(size, size_span, data_span).
       Inr (abs_span (placed_pool (property_data n)) data_span))"

definition value_word :: "string \<Rightarrow> vnode \<Rightarrow> string \<Rightarrow> 64 word result" where
  "value_word t n name =
     rbind (get_property_value (placed_pool (property_data n)) t (placed_node n) name) (\<lambda>(w, v, sp).
       Inr (word_of_nat (un_le v)))"

definition value_bool :: "vnode \<Rightarrow> string \<Rightarrow> bool result" where
  "value_bool n name =
     rbind (get_property_value (placed_pool (property_data n)) ''bool'' (placed_node n) name) (\<lambda>(w, v, sp).
       if v = [CHR 0x00] then Inr False else if v = [CHR 0x01] then Inr True else Inl Undefined_Behaviour)"

section \<open>Exceptions\<close>

text \<open>What \<open>catch (const std::exception&)\<close> catches: a failed \<open>assert\<close> ends the program.\<close>

definition catchable :: "err \<Rightarrow> bool" where
  "catchable e \<longleftrightarrow> e \<noteq> Undefined_Behaviour \<and> e \<noteq> Assertion_Failed"

definition try_catch :: "'a result \<Rightarrow> (err \<Rightarrow> 'a result) \<Rightarrow> 'a result" where
  "try_catch r h = (case r of Inl e \<Rightarrow> if catchable e then h e else Inl e | Inr x \<Rightarrow> Inr x)"

definition quoted :: "string \<Rightarrow> string" where
  "quoted s = CHR 0x27 # s @ [CHR 0x27]"

section \<open>yaml-cpp\<close>

text \<open>
  \<open>y_load\<close> is \<open>YAML::Load\<close>; \<open>y_get\<close> is the subscript with a key, \<open>None\<close> for a node that is not defined; the
  others are \<open>as<T>\<close>. \<open>y_out_of_range\<close> is what the library's own exceptions answer to \<open>what()\<close>.
\<close>

record 'y yaml =
  y_load :: "string \<Rightarrow> 'y result"
  y_get :: "'y \<Rightarrow> string \<Rightarrow> 'y option result"
  y_string :: "'y \<Rightarrow> string result"
  y_int64 :: "'y \<Rightarrow> 64 word result"
  y_uint64 :: "'y \<Rightarrow> 64 word result"
  y_uint16 :: "'y \<Rightarrow> u16 result"
  y_bool :: "'y \<Rightarrow> bool result"
  y_out_of_range :: string

fun what :: "'y yaml \<Rightarrow> err \<Rightarrow> string" where
  "what y (Invalid_Argument s) = s"
| "what y (Runtime_Error s) = s"
| "what y (Config_Error s) = s"
| "what y (Yaml_Error s) = s"
| "what y _ = y_out_of_range y"

text \<open>\<open>as<T>(fallback)\<close> of a subscript.\<close>

definition y_or :: "'y yaml \<Rightarrow> ('y \<Rightarrow> 'a result) \<Rightarrow> 'y \<Rightarrow> string \<Rightarrow> 'a \<Rightarrow> 'a result" where
  "y_or y conv c key d =
     rbind (y_get y c key) (\<lambda>m. case m of
       None \<Rightarrow> Inr d | Some v \<Rightarrow> (case conv v of Inl _ \<Rightarrow> Inr d | Inr x \<Rightarrow> Inr x))"

section \<open>The YAML text of a node\<close>

definition has_config_property :: "vnode \<Rightarrow> bool result" where
  "has_config_property n =
     try_catch (rbind (value_span n ''config'') (\<lambda>s. Inr (0 < vs_size s))) (\<lambda>_. Inr False)"

definition get_config_property :: "'y yaml \<Rightarrow> vnode \<Rightarrow> 'y result" where
  "get_config_property y n =
     try_catch
       (rbind (value_span n ''config'') (\<lambda>s.
          if vs_size s = 0 then Inl (Config_Error ''Node missing required 'config' property with YAML content'')
          else y_load y (vs_bytes s)))
       (\<lambda>e. case e of
          Yaml_Error m \<Rightarrow> Inl (Config_Error (''YAML parsing error in config property: '' @ m))
        | Config_Error m \<Rightarrow> Inl (Config_Error m)
        | _ \<Rightarrow> Inl (Config_Error (''Error accessing config property: '' @ what y e)))"

definition get_config_key :: "'y yaml \<Rightarrow> ('y \<Rightarrow> 'a result) \<Rightarrow> vnode \<Rightarrow> string \<Rightarrow> 'a \<Rightarrow> 'a result" where
  "get_config_key y conv n name d =
     try_catch
       (rbind (get_config_property y n) (\<lambda>c. rbind (y_get y c name) (\<lambda>m.
          case m of Some v \<Rightarrow> conv v | None \<Rightarrow> Inr d)))
       (\<lambda>_. Inr d)"

definition get_config_string :: "'y yaml \<Rightarrow> vnode \<Rightarrow> string \<Rightarrow> string \<Rightarrow> string result" where
  "get_config_string y = get_config_key y (y_string y)"

definition get_config_int64 :: "'y yaml \<Rightarrow> vnode \<Rightarrow> string \<Rightarrow> 64 word \<Rightarrow> 64 word result" where
  "get_config_int64 y = get_config_key y (y_int64 y)"

definition get_config_uint64 :: "'y yaml \<Rightarrow> vnode \<Rightarrow> string \<Rightarrow> 64 word \<Rightarrow> 64 word result" where
  "get_config_uint64 y = get_config_key y (y_uint64 y)"

definition get_config_bool :: "'y yaml \<Rightarrow> vnode \<Rightarrow> string \<Rightarrow> bool \<Rightarrow> bool result" where
  "get_config_bool y = get_config_key y (y_bool y)"

definition require_config_key :: "'y yaml \<Rightarrow> ('y \<Rightarrow> 'a result) \<Rightarrow> vnode \<Rightarrow> string \<Rightarrow> 'a result" where
  "require_config_key y conv n name =
     try_catch
       (rbind (get_config_property y n) (\<lambda>c. rbind (y_get y c name) (\<lambda>m.
          case m of Some v \<Rightarrow> conv v
          | None \<Rightarrow> Inl (Config_Error (''Required property '' @ quoted name @ '' not found in config YAML'')))))
       (\<lambda>e. case e of
          Config_Error m \<Rightarrow> Inl (Config_Error m)
        | _ \<Rightarrow> Inl (Config_Error (''Error accessing required config property '' @ quoted name @ '': '' @ what y e)))"

definition require_config_string :: "'y yaml \<Rightarrow> vnode \<Rightarrow> string \<Rightarrow> string result" where
  "require_config_string y = require_config_key y (y_string y)"

definition require_config_int64 :: "'y yaml \<Rightarrow> vnode \<Rightarrow> string \<Rightarrow> 64 word result" where
  "require_config_int64 y = require_config_key y (y_int64 y)"

definition require_config_uint64 :: "'y yaml \<Rightarrow> vnode \<Rightarrow> string \<Rightarrow> 64 word result" where
  "require_config_uint64 y = require_config_key y (y_uint64 y)"

definition require_config_bool :: "'y yaml \<Rightarrow> vnode \<Rightarrow> string \<Rightarrow> bool result" where
  "require_config_bool y = require_config_key y (y_bool y)"

section \<open>A setting\<close>

text \<open>With a default: the property, else the key of the YAML text, else the default.\<close>

definition or_config :: "vnode \<Rightarrow> 'a result \<Rightarrow> 'a result \<Rightarrow> 'a \<Rightarrow> 'a result" where
  "or_config n direct config d =
     try_catch direct (\<lambda>_. rbind (has_config_property n) (\<lambda>has. if has then config else Inr d))"

definition get_string_property :: "'y yaml \<Rightarrow> vnode \<Rightarrow> string \<Rightarrow> string \<Rightarrow> string result" where
  "get_string_property y n name d =
     or_config n (rbind (value_string n name) (\<lambda>s. Inr (if s = [] then d else s))) (get_config_string y n name d) d"

definition get_int64_property :: "'y yaml \<Rightarrow> vnode \<Rightarrow> string \<Rightarrow> 64 word \<Rightarrow> 64 word result" where
  "get_int64_property y n name d = or_config n (value_word ''int64'' n name) (get_config_int64 y n name d) d"

definition get_uint64_property :: "'y yaml \<Rightarrow> vnode \<Rightarrow> string \<Rightarrow> 64 word \<Rightarrow> 64 word result" where
  "get_uint64_property y n name d = or_config n (value_word ''uint64'' n name) (get_config_uint64 y n name d) d"

definition get_bool_property :: "'y yaml \<Rightarrow> vnode \<Rightarrow> string \<Rightarrow> bool \<Rightarrow> bool result" where
  "get_bool_property y n name d = or_config n (value_bool n name) (get_config_bool y n name d) d"

text \<open>Without one: a string that is there but empty counts as missing.\<close>

definition else_config :: "vnode \<Rightarrow> string \<Rightarrow> 'a option result \<Rightarrow> 'a result \<Rightarrow> 'a result" where
  "else_config n name direct config =
     rbind (try_catch direct (\<lambda>_. Inr None)) (\<lambda>m. case m of
       Some x \<Rightarrow> Inr x
     | None \<Rightarrow> rbind (has_config_property n) (\<lambda>has.
         if has then config
         else Inl (Config_Error (''Required property '' @ quoted name @ '' not found in node''))))"

definition require_string_property :: "'y yaml \<Rightarrow> vnode \<Rightarrow> string \<Rightarrow> string result" where
  "require_string_property y n name =
     else_config n name (rbind (value_string n name) (\<lambda>s. Inr (if s = [] then None else Some s)))
       (require_config_string y n name)"

definition require_int64_property :: "'y yaml \<Rightarrow> vnode \<Rightarrow> string \<Rightarrow> 64 word result" where
  "require_int64_property y n name =
     else_config n name (rbind (value_word ''int64'' n name) (\<lambda>w. Inr (Some w))) (require_config_int64 y n name)"

definition require_uint64_property :: "'y yaml \<Rightarrow> vnode \<Rightarrow> string \<Rightarrow> 64 word result" where
  "require_uint64_property y n name =
     else_config n name (rbind (value_word ''uint64'' n name) (\<lambda>w. Inr (Some w))) (require_config_uint64 y n name)"

definition require_bool_property :: "'y yaml \<Rightarrow> vnode \<Rightarrow> string \<Rightarrow> bool result" where
  "require_bool_property y n name =
     else_config n name (rbind (value_bool n name) (\<lambda>b. Inr (Some b))) (require_config_bool y n name)"

section \<open>Placing loses nothing\<close>

lemma chunk_bytes_placed:
  assumes "a < length (vs_chunks s)"
  shows "chunk_bytes (placed_pool s) (placed_chunk (vs_chunks s ! a) a) = vc_data (vs_chunks s ! a)"
proof -
  let ?c = "vs_chunks s ! a" and ?h = "header_size (vc_head (vs_chunks s ! a))"
  have "chunk_bytes (placed_pool s) (placed_chunk ?c a) = map (\<lambda>i. placed_bytes ?c ! i) [?h..<?h + length (vc_data ?c)]"
    using assms by (auto simp: chunk_bytes_def read_mem_def placed_pool_def placed_chunk_def placed_bytes_def)
  also have "\<dots> = drop ?h (map ((!) (placed_bytes ?c)) [0..<length (placed_bytes ?c)])"
    by (simp add: drop_map drop_upt placed_bytes_def)
  also have "\<dots> = drop ?h (placed_bytes ?c)" by (simp only: map_nth)
  finally show ?thesis by (simp add: placed_bytes_def)
qed

lemma header_placed:
  assumes "a < length (vs_chunks s)"
  shows "header_at (placed_pool s) a = vc_head (vs_chunks s ! a)"
  by (rule header_at_header_bytes) (use assms in \<open>simp add: placed_pool_def placed_bytes_def nth_append\<close>)

lemma placed_abs: "abs_span (placed_pool s) (placed_span s) = s"
proof -
  have "map (abs_chunk (placed_pool s)) (map2 placed_chunk (vs_chunks s) [0..<length (vs_chunks s)]) = vs_chunks s"
  proof (rule nth_equalityI)
    fix i assume "i < length (map (abs_chunk (placed_pool s)) (map2 placed_chunk (vs_chunks s) [0..<length (vs_chunks s)]))"
    then have i: "i < length (vs_chunks s)" by simp
    then have "map (abs_chunk (placed_pool s)) (map2 placed_chunk (vs_chunks s) [0..<length (vs_chunks s)]) ! i =
        abs_chunk (placed_pool s) (placed_chunk (vs_chunks s ! i) i)"
      by simp
    also have "\<dots> = vs_chunks s ! i"
      using i chunk_bytes_placed [OF i] header_placed [OF i] by (simp add: abs_chunk_def placed_chunk_def)
    finally show "map (abs_chunk (placed_pool s)) (map2 placed_chunk (vs_chunks s) [0..<length (vs_chunks s)]) ! i =
        vs_chunks s ! i" .
  qed simp
  then show ?thesis by (simp add: abs_span_def placed_span_def)
qed

section \<open>What a setting is\<close>

text \<open>The properties of a configuration node, as in \<open>Node_Properties\<close>.\<close>

definition config_props :: "vnode \<Rightarrow> prop_value list \<Rightarrow> bool" where
  "config_props n ps \<longleftrightarrow> node_props (placed_pool (property_data n)) (placed_node n) ps"

definition has_setting :: "prop_value list \<Rightarrow> string \<Rightarrow> string \<Rightarrow> bool" where
  "has_setting ps name v \<longleftrightarrow> (\<exists>t. fixed_size t = None \<and> ((t, name), v) \<in> set ps)"

lemma value_string_reads:
  assumes "config_props n ps" and "has_setting ps name v"
  shows "value_string n name = Inr v"
proof -
  obtain t where t: "fixed_size t = None" "((t, name), v) \<in> set ps" using assms(2) by (auto simp: has_setting_def)
  then obtain xs ys where "ps = xs @ ((t, name), v) # ys" by (auto dest: split_list)
  then show ?thesis
    using get_property_string_core [of _ "placed_node n" xs t name v ys] assms(1) t(1)
    by (simp add: config_props_def value_string_def)
qed

lemma infos_placed [simp]: "property_infos (placed_node n) = property_infos n"
  by (simp add: placed_node_def)

lemma span_missing:
  assumes "config_props n ps" and "name \<notin> snd ` fst ` set ps"
  shows "get_property_value_span (placed_pool (property_data n)) (placed_node n) name =
    Inl (Invalid_Argument (''Property not found when calling GetPropertyDataAs: '' @ name))"
proof -
  have "property_infos n = map fst ps" using assms(1) by (simp add: config_props_def node_props_def)
  then have "name \<notin> snd ` set (property_infos (placed_node n))" using assms(2) by auto
  then have "find_name name (property_infos (placed_node n)) = None" by (rule find_name_fresh)
  then show ?thesis by (simp add: get_property_value_span_def)
qed

lemma no_config:
  assumes "config_props n ps" and "''config'' \<notin> snd ` fst ` set ps"
  shows "has_config_property n = Inr False"
  by (simp add: has_config_property_def value_span_def span_missing [OF assms] try_catch_def catchable_def)

lemma required_present:
  assumes "config_props n ps" and "has_setting ps name v" and "v \<noteq> []"
  shows "require_string_property y n name = Inr v"
  by (simp add: require_string_property_def value_string_reads [OF assms(1,2)] else_config_def try_catch_def assms(3))

lemma required_missing:
  assumes "config_props n ps" and "name \<notin> snd ` fst ` set ps" and "''config'' \<notin> snd ` fst ` set ps"
  shows "require_string_property y n name =
    Inl (Config_Error (''Required property '' @ quoted name @ '' not found in node''))"
  by (simp add: require_string_property_def value_string_def get_property_string_def span_missing [OF assms(1,2)]
      no_config [OF assms(1,3)] else_config_def try_catch_def catchable_def)

lemma optional_present:
  assumes "config_props n ps" and "has_setting ps name v" and "v \<noteq> []"
  shows "get_string_property y n name d = Inr v"
  by (simp add: get_string_property_def value_string_reads [OF assms(1,2)] or_config_def try_catch_def assms(3))

lemma optional_missing:
  assumes "config_props n ps" and "name \<notin> snd ` fst ` set ps" and "''config'' \<notin> snd ` fst ` set ps"
  shows "get_string_property y n name d = Inr d"
  by (simp add: get_string_property_def value_string_def get_property_string_def span_missing [OF assms(1,2)]
      no_config [OF assms(1,3)] or_config_def try_catch_def catchable_def)

text \<open>A node with its properties in one chunk.\<close>

definition config_node :: "string \<Rightarrow> prop_value list \<Rightarrow> string list \<Rightarrow> vnode" where
  "config_node l ps cs = (node_default \<lparr>vs_chunks = [\<lparr>vc_head = Payload_Header 0 0 (of_nat (length (layout ps))),
     vc_data = layout ps\<rparr>], vs_type = 2\<rparr>)\<lparr>label_rule := l, property_infos := map fst ps, child_names := cs\<rparr>"

lemma config_node_simps [simp]:
  "label_rule (config_node l ps cs) = l" "child_names (config_node l ps cs) = cs"
  by (simp_all add: config_node_def)

lemma heads_ok_single:
  assumes "s + length (layout ps) \<le> h_len c" and "\<forall>e \<in> set ps. prop_wf e"
  shows "heads_ok [c] s ps"
  using assms
proof (induction ps arbitrary: s)
  case (Cons e ps)
  then have "field_ok [c] s (head_size e)" using head_size_le_entry [of e] by (intro field_ok_single) auto
  then show ?case using Cons by simp
qed simp

lemma config_node_props:
  assumes "ps \<noteq> []" and "\<forall>e \<in> set ps. prop_wf e" and "distinct (map (snd \<circ> fst) ps)" and "length (layout ps) \<le> 1194"
  shows "config_props (config_node l ps cs) ps"
proof -
  define s where "s = property_data (config_node l ps cs)"
  define c where "c = placed_chunk (vs_chunks s ! 0) 0"
  have chunk: "hs_chunks (property_data (placed_node (config_node l ps cs))) = [c]"
    by (simp add: placed_node_def placed_span_def s_def c_def config_node_def node_default_def)
  have len: "h_len c = length (layout ps)" "h_addr c = 0" "h_first c = 6" "next_addr (placed_pool s) = 1"
    by (simp_all add: c_def s_def placed_chunk_def placed_pool_def config_node_def node_default_def)
  have ne: "layout ps \<noteq> []"
  proof -
    obtain e es where ps: "ps = e # es" using assms(1) by (cases ps) auto
    then have "0 < length (entry e)"
      using assms(2) by (intro less_le_trans [OF head_size_pos [of e]] head_size_le_entry) simp
    then show ?thesis by (simp add: ps del: entry.simps)
  qed
  have "chunk_bytes (placed_pool s) c = layout ps"
    unfolding c_def by (subst chunk_bytes_placed) (simp_all add: s_def config_node_def node_default_def)
  moreover have "mem (placed_pool s) 0 0 = CHR 0x02"
    by (simp add: placed_pool_def s_def config_node_def node_default_def placed_bytes_def)
  ultimately have "laid_out (placed_pool s) [c] ps"
    using len ne assms(2,4) heads_ok_single [of 0 ps c]
    by (simp add: laid_out_def chunk_wf_def chunk_ok_def chunk_size_def)
  then show ?thesis
    using chunk assms(3)
    by (simp add: config_props_def node_props_def s_def) (simp add: placed_node_def placed_span_def config_node_def node_default_def)
qed

end
