(* ===== verification/Service_Order.thy ===== *)
theory Service_Order
  imports Service_Config
begin

text \<open>
  In which order a service builds its backends (\<open>wwatp_service.cpp\<close>, \<open>getBackendDependencies\<close> and
  \<open>topologicalSort\<close>): Kahn's algorithm over the dependencies a configuration names, and the search for a
  cycle to report when it gets stuck.
\<close>

section \<open>Dependencies\<close>

definition get_backend_dependencies :: "'y yaml \<Rightarrow> vnode \<Rightarrow> string list result" where
  "get_backend_dependencies y n =
     rbind (require_string_property y n ''type'') (\<lambda>t.
       if t = ''simple'' \<or> t = ''file'' then Inr []
       else rbind (require_string_property y n ''backend'') (\<lambda>b.
         Inr (b # (if t = ''composite'' then child_names n else []))))"

type_synonym deps = "(string \<times> string list) list"

definition all_dependencies :: "'y yaml \<Rightarrow> (string \<times> vnode) list \<Rightarrow> deps result" where
  "all_dependencies y cfgs = rmap (\<lambda>(name, n). rbind (get_backend_dependencies y n) (\<lambda>ds. Inr (name, ds))) cfgs"

definition known :: "deps \<Rightarrow> string \<Rightarrow> bool" where
  "known ds d \<longleftrightarrow> d \<in> fst ` set ds"

definition missing_deps :: "deps \<Rightarrow> (string \<times> string) list" where
  "missing_deps ds = concat (map (\<lambda>(name, dl). map (\<lambda>d. (name, d)) (filter (\<lambda>d. \<not> known ds d) dl)) ds)"

text \<open>The counts of \<open>in_degree\<close>, a map from names to \<open>int\<close>.\<close>

definition in_degree :: "deps \<Rightarrow> string \<Rightarrow> int" where
  "in_degree ds name =
     (case map_of ds name of Some dl \<Rightarrow> int (length (filter (known ds) dl)) | None \<Rightarrow> 0)"

section \<open>Kahn's algorithm\<close>

text \<open>The loop over the dependencies after \<open>current\<close> was taken off the queue.\<close>

fun relax :: "string \<Rightarrow> deps \<Rightarrow> (string \<Rightarrow> int) \<Rightarrow> string list \<Rightarrow> (string \<Rightarrow> int) \<times> string list" where
  "relax current [] deg q = (deg, q)"
| "relax current ((name, dl) # ds) deg q =
     (if current \<in> set dl
      then relax current ds (deg(name := deg name - 1)) (if deg name - 1 = 0 then q @ [name] else q)
      else relax current ds deg q)"

lemma relax_smaller:
  assumes "relax current ds deg q = (deg', q')" and "fst ` set ds \<subseteq> N" and "finite N"
  shows "length q' + card {n \<in> N. 0 < deg' n} \<le> length q + card {n \<in> N. 0 < deg n}"
  using assms(1,2)
proof (induction current ds deg q rule: relax.induct)
  case (2 current name dl ds deg q)
  let ?deg = "deg(name := deg name - 1)" and ?q = "if deg name - 1 = 0 then q @ [name] else q"
  have "length ?q + card {n \<in> N. 0 < ?deg n} \<le> length q + card {n \<in> N. 0 < deg n}"
  proof (cases "deg name - 1 = 0")
    case True
    then have "{n \<in> N. 0 < deg n} = insert name {n \<in> N. 0 < ?deg n}" using 2(4) by auto
    moreover have "name \<notin> {n \<in> N. 0 < ?deg n}" using True by simp
    ultimately have "card {n \<in> N. 0 < deg n} = Suc (card {n \<in> N. 0 < ?deg n})" using assms(3) by simp
    then show ?thesis using True by simp
  next
    case False
    have "card {n \<in> N. 0 < ?deg n} \<le> card {n \<in> N. 0 < deg n}"
      using assms(3) by (intro card_mono) auto
    then show ?thesis using False by simp
  qed
  then show ?case using 2 by (cases "current \<in> set dl") fastforce+
qed simp

function kahn :: "deps \<Rightarrow> (string \<Rightarrow> int) \<Rightarrow> string list \<Rightarrow> string list \<Rightarrow> string list" where
  "kahn ds deg [] result = result"
| "kahn ds deg (current # q) result =
     (case relax current ds deg q of (deg', q') \<Rightarrow> kahn ds deg' q' (result @ [current]))"
  by pat_completeness auto
termination kahn
  apply (relation "measure (\<lambda>(ds, deg, q, result). length q + card {n \<in> fst ` set ds. 0 < deg n})")
   apply simp
  apply (simp only: in_measure prod.case)
  subgoal for ds deg current q result x y
    using relax_smaller [of current ds deg q x y "fst ` set ds"] by simp
  done

text \<open>
  The depth-first search for a cycle; its state is the set of nodes visited and the path. A call at a depth
  greater than the number of backends never happens (\<open>cycle_search_ends\<close>), so the bound on the depth that
  makes the recursion structural is not reached.
\<close>

fun find_cycle :: "nat \<Rightarrow> deps \<Rightarrow> string \<Rightarrow> string set \<times> string list \<Rightarrow>
    ((string set \<times> string list) \<times> string list option) option"
  and find_in :: "nat \<Rightarrow> deps \<Rightarrow> string list \<Rightarrow> string set \<times> string list \<Rightarrow>
    ((string set \<times> string list) \<times> string list option) option" where
  "find_cycle 0 ds node st = None"
| "find_cycle (Suc k) ds node (visited, path) =
     (if node \<in> set path then Some ((visited, path), Some (dropWhile (\<lambda>n. n \<noteq> node) path @ [node]))
      else if node \<in> visited then Some ((visited, path), None)
      else
        (case find_in k ds (case map_of ds node of Some dl \<Rightarrow> dl | None \<Rightarrow> []) (insert node visited, path @ [node]) of
           None \<Rightarrow> None
         | Some (st, Some c) \<Rightarrow> Some (st, Some c)
         | Some ((visited', path'), None) \<Rightarrow> Some ((visited', butlast path'), None)))"
| "find_in k ds [] st = Some (st, None)"
| "find_in k ds (d # dl) st =
     (if known ds d
      then (case find_cycle k ds d st of
              None \<Rightarrow> None
            | Some (st', Some c) \<Rightarrow> Some (st', Some c)
            | Some (st', None) \<Rightarrow> find_in k ds dl st')
      else find_in k ds dl st)"

fun first_cycle :: "deps \<Rightarrow> string list \<Rightarrow> string list option option" where
  "first_cycle ds [] = Some None"
| "first_cycle ds (node # nodes) =
     (case find_cycle (Suc (length ds)) ds node ({}, []) of
        None \<Rightarrow> None
      | Some (_, Some c) \<Rightarrow> Some (Some c)
      | Some (_, None) \<Rightarrow> first_cycle ds nodes)"

fun join_with :: "string \<Rightarrow> string list \<Rightarrow> string" where
  "join_with sep [] = []"
| "join_with sep [x] = x"
| "join_with sep (x # xs) = x @ sep @ join_with sep xs"

definition cycle_message :: "deps \<Rightarrow> string list \<Rightarrow> string result" where
  "cycle_message ds cycle_nodes =
     (if cycle_nodes = [] then Inr ''Circular dependency detected in backend configuration. ''
      else (case first_cycle ds cycle_nodes of
        None \<Rightarrow> Inl Undefined_Behaviour
      | Some (Some c) \<Rightarrow>
          Inr (''Circular dependency detected in backend configuration. Cycle: '' @ join_with '' -> '' c)
      | Some None \<Rightarrow>
          Inr (''Circular dependency detected in backend configuration. Problematic backends: '' @
            join_with '', '' cycle_nodes)))"

definition topological_sort :: "'y yaml \<Rightarrow> (string \<times> vnode) list \<Rightarrow> string list result" where
  "topological_sort y cfgs =
     rbind (all_dependencies y cfgs) (\<lambda>ds.
       if missing_deps ds \<noteq> []
       then Inl (Config_Error (''Missing backend dependencies detected: '' @
              join_with '', '' (map (\<lambda>(n, d). n @ '' -> '' @ d) (missing_deps ds))))
       else
         let result = kahn ds (in_degree ds) (filter (\<lambda>n. in_degree ds n = 0) (map fst ds)) [] in
         if length result \<noteq> length cfgs
         then rbind (cycle_message ds (filter (\<lambda>n. n \<notin> set result) (map fst cfgs))) (\<lambda>m. Inl (Config_Error m))
         else Inr result)"

section \<open>What Kahn's algorithm computes\<close>

text \<open>One dependency list per backend, and each dependency is a backend.\<close>

definition closed :: "deps \<Rightarrow> bool" where
  "closed ds \<longleftrightarrow> distinct (map fst ds) \<and> (\<forall>(n, dl) \<in> set ds. \<forall>d \<in> set dl. known ds d)"

definition edges :: "deps \<Rightarrow> (string \<times> string) set" where
  "edges ds = {(d, n). \<exists>dl. (n, dl) \<in> set ds \<and> d \<in> set dl}"

lemma relax_eq:
  assumes "distinct (map fst ds)"
  shows "relax current ds deg q =
    ((\<lambda>n. if (current, n) \<in> edges ds then deg n - 1 else deg n),
     q @ map fst (filter (\<lambda>(n, dl). current \<in> set dl \<and> deg n = 1) ds))"
  using assms
proof (induction current ds deg q rule: relax.induct)
  case (1 current deg q)
  then show ?case by (simp add: edges_def)
next
  case (2 current name dl ds deg q)
  have fresh: "(name, x) \<notin> set ds" for x using 2(3) by force
  then have other: "filter (\<lambda>(n, dl). current \<in> set dl \<and> (deg(name := deg name - 1)) n = 1) ds =
      filter (\<lambda>(n, dl). current \<in> set dl \<and> deg n = 1) ds"
    by (intro filter_cong) (auto split: if_splits)
  have degs: "(\<lambda>n. if (current, n) \<in> edges ds then (deg(name := deg name - 1)) n - 1 else (deg(name := deg name - 1)) n) =
      (\<lambda>n. if (current, n) \<in> edges ((name, dl) # ds) then deg n - 1 else deg n)" if "current \<in> set dl"
    using fresh that by (auto simp: fun_eq_iff edges_def)
  have same: "(current, n) \<in> edges ((name, dl) # ds) \<longleftrightarrow> (current, n) \<in> edges ds" if "current \<notin> set dl" for n
    using that by (auto simp: edges_def)
  show ?case
  proof (cases "current \<in> set dl")
    case True
    then show ?thesis using 2(1) [OF True] 2(3) by (simp add: other degs del: fun_upd_apply)
  next
    case False
    then show ?thesis using 2(2) [OF False] 2(3) by (simp add: same)
  qed
qed

definition kahn_inv :: "deps \<Rightarrow> (string \<Rightarrow> int) \<Rightarrow> string list \<Rightarrow> string list \<Rightarrow> bool" where
  "kahn_inv ds deg q result \<longleftrightarrow>
     distinct (result @ q) \<and> set (result @ q) \<subseteq> fst ` set ds \<and>
     (\<forall>(n, dl) \<in> set ds. deg n = int (length dl) - int (card (set dl \<inter> set result)) \<and>
        (n \<in> set (result @ q) \<longleftrightarrow> deg n = 0)) \<and>
     (\<forall>xs n ys dl. result = xs @ n # ys \<longrightarrow> (n, dl) \<in> set ds \<longrightarrow> set dl \<subseteq> set xs)"

lemma closed_unique: "closed ds \<Longrightarrow> (n, dl) \<in> set ds \<Longrightarrow> map_of ds n = Some dl"
  by (simp add: closed_def)

lemma in_degree_closed:
  assumes "closed ds" and "(n, dl) \<in> set ds"
  shows "in_degree ds n = int (length dl)"
proof -
  have "filter (known ds) dl = dl" using assms by (auto simp: closed_def filter_id_conv)
  then show ?thesis using closed_unique [OF assms] by (simp add: in_degree_def)
qed

lemma kahn_inv_start:
  assumes "closed ds"
  shows "kahn_inv ds (in_degree ds) (filter (\<lambda>n. in_degree ds n = 0) (map fst ds)) []"
  using assms in_degree_closed [OF assms] by (force simp: kahn_inv_def closed_def)

text \<open>A count of zero: every dependency is done, and none is listed twice.\<close>

lemma all_done:
  assumes "int (length dl) = int (card (set dl \<inter> D))"
  shows "set dl \<subseteq> D" and "distinct dl"
proof -
  have "card (set dl \<inter> D) \<le> card (set dl)" "card (set dl) \<le> length dl" by (auto intro: card_mono card_length)
  then have "card (set dl \<inter> D) = card (set dl)" "card (set dl) = length dl" using assms by simp_all
  then show "set dl \<subseteq> D" "distinct dl"
    using card_subset_eq [of "set dl" "set dl \<inter> D"] by (auto intro: card_distinct)
qed

lemma count_done:
  assumes "finite D" and "c \<notin> D"
  shows "card (S \<inter> insert c D) = card (S \<inter> D) + (if c \<in> S then 1 else 0)"
  using assms by (simp add: Int_insert_right)

lemma kahn_inv_step:
  assumes "closed ds" and "kahn_inv ds deg (current # q) result" and "relax current ds deg q = (deg', q')"
  shows "kahn_inv ds deg' q' (result @ [current])"
proof -
  have dist: "distinct (map fst ds)" using assms(1) by (simp add: closed_def)
  define new where "new = map fst (filter (\<lambda>(n, dl). current \<in> set dl \<and> deg n = 1) ds)"
  have q': "q' = q @ new" and deg': "deg' = (\<lambda>n. if (current, n) \<in> edges ds then deg n - 1 else deg n)"
    using assms(3) by (simp_all add: relax_eq [OF dist] new_def)
  have inv: "distinct (result @ current # q)" "set (result @ current # q) \<subseteq> fst ` set ds"
      "\<And>n dl. (n, dl) \<in> set ds \<Longrightarrow> deg n = int (length dl) - int (card (set dl \<inter> set result))"
      "\<And>n dl. (n, dl) \<in> set ds \<Longrightarrow> n \<in> set (result @ current # q) \<longleftrightarrow> deg n = 0"
      "\<And>xs n ys dl. result = xs @ n # ys \<Longrightarrow> (n, dl) \<in> set ds \<Longrightarrow> set dl \<subseteq> set xs"
    using assms(2) by (auto simp: kahn_inv_def)
  have one: "dl' = dl" if "(n, dl) \<in> set ds" "(n, dl') \<in> set ds" for n dl dl'
    using closed_unique [OF assms(1) that(1)] closed_unique [OF assms(1) that(2)] by simp
  have edge: "(current, n) \<in> edges ds \<longleftrightarrow> current \<in> set dl" if "(n, dl) \<in> set ds" for n dl
    unfolding edges_def using one that by blast
  have zero: "set dl \<subseteq> set result" if "(n, dl) \<in> set ds" "deg n = 0" for n dl
    using all_done(1) [of dl "set result"] inv(3) [OF that(1)] that(2) by simp
  have fresh: "current \<notin> set result" using inv(1) by simp
  have new: "n \<in> set new \<longleftrightarrow> current \<in> set dl \<and> deg n = 1" if "(n, dl) \<in> set ds" for n dl
  proof -
    have "n \<in> set new \<longleftrightarrow> (\<exists>dl'. (n, dl') \<in> set ds \<and> current \<in> set dl' \<and> deg n = 1)" by (force simp: new_def)
    then show ?thesis using one that by blast
  qed
  have newD: "\<exists>dl. (n, dl) \<in> set ds \<and> deg n = 1" if "n \<in> set new" for n
    using that by (auto simp: new_def)
  have "set new \<inter> set (result @ current # q) = {}"
    using newD inv(4) by fastforce
  moreover have "distinct new" using dist by (auto simp: new_def intro: distinct_map_filter)
  ultimately have "distinct ((result @ [current]) @ q')" using inv(1) q' by auto
  moreover have "set ((result @ [current]) @ q') \<subseteq> fst ` set ds"
  proof -
    have "set new \<subseteq> fst ` set ds" unfolding new_def by auto
    then show ?thesis using inv(2) by (simp add: q')
  qed
  moreover have "deg' n = int (length dl) - int (card (set dl \<inter> set (result @ [current])))" if "(n, dl) \<in> set ds" for n dl
    using inv(3) [OF that] edge [OF that] count_done [OF _ fresh, of "set dl"] by (simp add: deg')
  moreover have "n \<in> set ((result @ [current]) @ q') \<longleftrightarrow> deg' n = 0" if "(n, dl) \<in> set ds" for n dl
  proof -
    have "n \<in> set ((result @ [current]) @ q') \<longleftrightarrow> n \<in> set (result @ current # q) \<or> n \<in> set new" by (auto simp: q')
    also have "\<dots> \<longleftrightarrow> deg n = 0 \<or> current \<in> set dl \<and> deg n = 1" by (simp only: inv(4) [OF that] new [OF that])
    also have "\<dots> \<longleftrightarrow> deg' n = 0" using zero [OF that] edge [OF that] fresh by (cases "current \<in> set dl") (auto simp: deg')
    finally show ?thesis .
  qed
  moreover have "set dl \<subseteq> set xs" if split: "result @ [current] = xs @ n # ys" and mem: "(n, dl) \<in> set ds" for xs n ys dl
  proof (cases ys rule: rev_cases)
    case Nil
    then have "n = current" "xs = result" using split by simp_all
    then show ?thesis using zero [OF mem] inv(4) [OF mem] by simp
  next
    case (snoc zs z)
    then have "result = xs @ n # zs" using split by simp
    then show ?thesis using inv(5) mem by blast
  qed
  ultimately show ?thesis by (fastforce simp: kahn_inv_def)
qed

lemma kahn_inv_end:
  assumes "closed ds" and "kahn_inv ds deg q result"
  shows "\<exists>deg'. kahn_inv ds deg' [] (kahn ds deg q result)"
  using assms
proof (induction ds deg q result rule: kahn.induct)
  case (2 ds deg current q result)
  then show ?case using kahn_inv_step [OF 2(2,3)] by (cases "relax current ds deg q") simp
qed auto

section \<open>When there is an order, and what it is\<close>

lemma all_dependencies_names: "all_dependencies y cfgs = Inr ds \<Longrightarrow> map fst ds = map fst cfgs"
  unfolding all_dependencies_def
proof (induction cfgs arbitrary: ds)
  case (Cons c cfgs)
  then show ?case by (cases c) (auto simp: rbind_Inr_iff)
qed simp

lemma closed_iff:
  assumes "distinct (map fst ds)"
  shows "closed ds \<longleftrightarrow> missing_deps ds = []"
  using assms by (fastforce simp: closed_def missing_deps_def filter_empty_conv)

lemma kahn_result:
  assumes "closed ds"
  defines "R \<equiv> kahn ds (in_degree ds) (filter (\<lambda>n. in_degree ds n = 0) (map fst ds)) []"
  shows "distinct R" and "set R \<subseteq> fst ` set ds"
    and "\<And>n dl. (n, dl) \<in> set ds \<Longrightarrow> n \<in> set R \<longleftrightarrow> set dl \<subseteq> set R \<and> distinct dl"
    and "\<And>xs n ys dl. R = xs @ n # ys \<Longrightarrow> (n, dl) \<in> set ds \<Longrightarrow> set dl \<subseteq> set xs"
proof -
  obtain deg where inv: "kahn_inv ds deg [] R"
    using kahn_inv_end [OF assms(1) kahn_inv_start [OF assms(1)]] by (auto simp: R_def)
  then show "distinct R" "set R \<subseteq> fst ` set ds" by (simp_all add: kahn_inv_def)
  show "set dl \<subseteq> set xs" if "R = xs @ n # ys" "(n, dl) \<in> set ds" for xs n ys dl
    using inv that unfolding kahn_inv_def by blast
  show "n \<in> set R \<longleftrightarrow> set dl \<subseteq> set R \<and> distinct dl" if "(n, dl) \<in> set ds" for n dl
  proof -
    have deg: "deg n = int (length dl) - int (card (set dl \<inter> set R))" "n \<in> set R \<longleftrightarrow> deg n = 0"
      using inv that by (auto simp: kahn_inv_def)
    show ?thesis
    proof
      assume "n \<in> set R"
      then show "set dl \<subseteq> set R \<and> distinct dl" using deg all_done [of dl "set R"] by simp
    next
      assume *: "set dl \<subseteq> set R \<and> distinct dl"
      then have "set dl \<inter> set R = set dl" by blast
      then show "n \<in> set R" using deg * by (simp add: distinct_card)
    qed
  qed
qed

lemma edges_finite: "finite (edges ds)"
proof -
  have "edges ds = (\<Union>(n, dl) \<in> set ds. (\<lambda>d. (d, n)) ` set dl)" by (auto simp: edges_def)
  then show ?thesis by auto
qed

lemma kahn_complete:
  assumes "closed ds" and "\<forall>(n, dl) \<in> set ds. distinct dl" and "acyclic (edges ds)"
  shows "set (kahn ds (in_degree ds) (filter (\<lambda>n. in_degree ds n = 0) (map fst ds)) []) = fst ` set ds"
proof -
  define R where "R = kahn ds (in_degree ds) (filter (\<lambda>n. in_degree ds n = 0) (map fst ds)) []"
  note R = kahn_result [OF assms(1), folded R_def]
  have "n \<in> fst ` set ds \<longrightarrow> n \<in> set R" for n
    using finite_acyclic_wf [OF edges_finite assms(3)]
  proof (induction n rule: wf_induct_rule)
    case (less n)
    show ?case
    proof
      assume "n \<in> fst ` set ds"
      then obtain dl where dl: "(n, dl) \<in> set ds" by auto
      have "d \<in> set R" if "d \<in> set dl" for d
      proof -
        have "(d, n) \<in> edges ds" using dl that by (auto simp: edges_def)
        moreover have "d \<in> fst ` set ds" using assms(1) dl that unfolding closed_def known_def by blast
        ultimately show ?thesis using less.IH by blast
      qed
      then show "n \<in> set R" using R(3) [OF dl] assms(2) dl by auto
    qed
  qed
  then show ?thesis using R(2) by (auto simp: R_def)
qed

lemma ordered_acyclic:
  assumes "closed ds" and "set R = fst ` set ds"
    and "\<And>xs n ys dl. R = xs @ n # ys \<Longrightarrow> (n, dl) \<in> set ds \<Longrightarrow> set dl \<subseteq> set xs"
  shows "acyclic (edges ds)"
proof -
  have "edges ds \<subseteq> measure (\<lambda>n. length (takeWhile (\<lambda>m. m \<noteq> n) R))"
  proof (rule subrelI)
    fix d n assume "(d, n) \<in> edges ds"
    then obtain dl where dl: "(n, dl) \<in> set ds" "d \<in> set dl" by (auto simp: edges_def)
    then have "n \<in> set R" using assms(2) by force
    then obtain xs ys where R: "R = xs @ n # ys" "n \<notin> set xs" by (meson split_list_first)
    then have "d \<in> set xs" using assms(3) dl by blast
    then obtain us vs where xs: "xs = us @ d # vs" "d \<notin> set us" by (meson split_list_first)
    have before: "takeWhile (\<lambda>m. m \<noteq> z) (as @ z # bs) = as" if "z \<notin> set as" for z as and bs :: "string list"
      using that by (induction as) auto
    have "takeWhile (\<lambda>m. m \<noteq> n) R = xs" using before [OF R(2)] by (simp add: R(1))
    moreover have "takeWhile (\<lambda>m. m \<noteq> d) R = us" using before [OF xs(2)] by (simp add: R(1) xs(1))
    ultimately show "(d, n) \<in> measure (\<lambda>n. length (takeWhile (\<lambda>m. m \<noteq> n) R))" by (simp add: xs)
  qed
  then show ?thesis by (meson acyclic_subset wf_acyclic wf_measure)
qed

lemma topological_sort_closed:
  assumes "distinct (map fst cfgs)" and "all_dependencies y cfgs = Inr ds" and "closed ds"
  defines "R \<equiv> kahn ds (in_degree ds) (filter (\<lambda>n. in_degree ds n = 0) (map fst ds)) []"
  shows "topological_sort y cfgs = (if set R = fst ` set cfgs then Inr R
    else rbind (cycle_message ds (filter (\<lambda>n. n \<notin> set R) (map fst cfgs))) (\<lambda>m. Inl (Config_Error m)))"
proof -
  have names: "map fst ds = map fst cfgs" by (rule all_dependencies_names [OF assms(2)])
  then have set: "fst ` set ds = fst ` set cfgs" by (metis list.set_map)
  have "length R = length cfgs \<longleftrightarrow> set R = fst ` set cfgs"
  proof
    assume "length R = length cfgs"
    then have "card (set R) = card (fst ` set cfgs)"
      using distinct_card [OF kahn_result(1) [OF assms(3)], folded R_def] distinct_card [OF assms(1)] by simp
    then show "set R = fst ` set cfgs"
      using kahn_result(2) [OF assms(3)] set by (intro card_subset_eq) (auto simp: R_def)
  next
    assume "set R = fst ` set cfgs"
    then have "card (set R) = card (set (map fst cfgs))" by simp
    then show "length R = length cfgs"
      using distinct_card [OF kahn_result(1) [OF assms(3)]] distinct_card [OF assms(1)] by (simp add: R_def)
  qed
  moreover have "missing_deps ds = []" using assms(1,3) names closed_iff [of ds] by simp
  ultimately show ?thesis
    using assms(2) by (simp add: topological_sort_def R_def Let_def)
qed

section \<open>The cycle reported\<close>

lemma path_kept:
  shows "find_cycle k ds node st = Some (st', None) \<Longrightarrow> snd st' = snd st"
    and "find_in k ds dl st = Some (st', None) \<Longrightarrow> snd st' = snd st"
proof (induction k ds node st and k ds dl st arbitrary: st' and st' rule: find_cycle_find_in.induct)
  case (2 k ds node visited path)
  let ?dl = "case map_of ds node of Some dl \<Rightarrow> dl | None \<Rightarrow> []"
  consider "node \<notin> set path" "node \<in> visited"
    | v p where "node \<notin> set path" "node \<notin> visited" "st' = (v, butlast p)"
        "find_in k ds ?dl (insert node visited, path @ [node]) = Some ((v, p), None)"
    using 2(2) by (simp split: if_splits option.splits prod.splits) blast
  then show ?case
  proof cases
    case 1
    then show ?thesis using 2(2) by auto
  next
    case 2
    then show ?thesis using "2.IH" by auto
  qed
next
  case (4 k ds d dl st)
  show ?case
  proof (cases "known ds d")
    case True
    then obtain st1 where "find_cycle k ds d st = Some (st1, None)" "find_in k ds dl st1 = Some (st', None)"
      using 4(4) by (auto split: option.splits prod.splits)
    then show ?thesis using 4(1,2) True by metis
  next
    case False
    then show ?thesis using 4 by simp
  qed
qed auto

lemma cycle_search_ends:
  shows "fst ` set ds = N \<Longrightarrow> node \<in> N \<Longrightarrow> distinct (snd st) \<Longrightarrow> set (snd st) \<subseteq> N \<Longrightarrow> card N < k + length (snd st) \<Longrightarrow>
      find_cycle k ds node st \<noteq> None"
    and "fst ` set ds = N \<Longrightarrow> distinct (snd st) \<Longrightarrow> set (snd st) \<subseteq> N \<Longrightarrow> card N < k + length (snd st) \<Longrightarrow>
      find_in k ds dl st \<noteq> None"
proof (induction k ds node st and k ds dl st rule: find_cycle_find_in.induct)
  case (1 ds node st)
  have "length (snd st) \<le> card N"
    using 1 card_mono [of N "set (snd st)"] by (auto simp: distinct_card)
  then show ?case using 1 by simp
next
  case (2 k ds node visited path)
  show ?case
  proof (cases "node \<in> set path \<or> node \<in> visited")
    case False
    then have "find_in k ds (case map_of ds node of Some dl \<Rightarrow> dl | None \<Rightarrow> []) (insert node visited, path @ [node]) \<noteq> None"
      using 2 by simp
    then show ?thesis using False by (auto split: option.split)
  qed auto
next
  case (4 k ds d dl st)
  show ?case
  proof (cases "known ds d")
    case True
    then have found: "find_cycle k ds d st \<noteq> None" using 4 by (auto simp: known_def)
    show ?thesis
    proof (cases "find_cycle k ds d st")
      case (Some r)
      show ?thesis
      proof (cases "snd r")
        case None
        then have "find_cycle k ds d st = Some (fst r, None)" using Some by (cases r) simp
        then show ?thesis
          using True 4 path_kept(1) [of k ds d st "fst r"] by simp
      next
        case (Some c)
        then show ?thesis using True \<open>find_cycle k ds d st = Some r\<close> by (cases r) simp
      qed
    qed (use found in simp)
  next
    case False
    then show ?thesis using 4 by simp
  qed
qed simp

text \<open>A chain of dependencies, and one that ends where it began.\<close>

definition chain :: "deps \<Rightarrow> string list \<Rightarrow> bool" where
  "chain ds xs \<longleftrightarrow> successively (\<lambda>a b. (b, a) \<in> edges ds) xs"

definition is_cycle :: "deps \<Rightarrow> string list \<Rightarrow> bool" where
  "is_cycle ds c \<longleftrightarrow> chain ds c \<and> 2 \<le> length c \<and> hd c = last c"

lemma chain_snoc: "chain ds (xs @ [x]) \<longleftrightarrow> chain ds xs \<and> (xs = [] \<or> (x, last xs) \<in> edges ds)"
  by (auto simp: chain_def successively_append_iff)

lemma chain_suffix: "chain ds (xs @ ys) \<Longrightarrow> chain ds ys"
  by (auto simp: chain_def successively_append_iff)

lemma map_of_edges: "map_of ds node = Some dl \<Longrightarrow> d \<in> set dl \<Longrightarrow> (d, node) \<in> edges ds"
  by (auto simp: edges_def dest: map_of_SomeD)

lemma cycle_found:
  shows "find_cycle k ds node st = Some (st', Some c) \<Longrightarrow> chain ds (snd st @ [node]) \<Longrightarrow> is_cycle ds c"
    and "find_in k ds dl st = Some (st', Some c) \<Longrightarrow> chain ds (snd st) \<Longrightarrow>
      (\<forall>d \<in> set dl. snd st \<noteq> [] \<and> (d, last (snd st)) \<in> edges ds) \<Longrightarrow> is_cycle ds c"
proof (induction k ds node st and k ds dl st arbitrary: st' c and st' c rule: find_cycle_find_in.induct)
  case (2 k ds node visited path)
  show ?case
  proof (cases "node \<in> set path")
    case True
    let ?c = "dropWhile (\<lambda>n. n \<noteq> node) path"
    have "?c \<noteq> []" "hd ?c = node" using True hd_dropWhile [of "\<lambda>n. n \<noteq> node" path] by (auto simp: dropWhile_eq_Nil_conv)
    moreover have "chain ds (?c @ [node])"
    proof (rule chain_suffix [of ds "takeWhile (\<lambda>n. n \<noteq> node) path"])
      have "takeWhile (\<lambda>n. n \<noteq> node) path @ ?c @ [node] = path @ [node]"
        unfolding append_assoc [symmetric] takeWhile_dropWhile_id by (rule refl)
      then show "chain ds (takeWhile (\<lambda>n. n \<noteq> node) path @ ?c @ [node])" using 2(3) by (simp only: snd_conv)
    qed
    moreover have "c = ?c @ [node]" using 2(2) True by simp
    ultimately show ?thesis by (cases ?c) (auto simp: is_cycle_def)
  next
    case False
    then have nv: "node \<notin> visited" using 2(2) by auto
    let ?dl = "case map_of ds node of Some dl \<Rightarrow> dl | None \<Rightarrow> []"
    have "find_in k ds ?dl (insert node visited, path @ [node]) = Some (st', Some c)"
      using 2(2) False nv by (auto split: option.splits)
    then show ?thesis
      using 2(1) [OF False nv] 2(3) by (auto split: option.splits intro: map_of_edges)
  qed
next
  case (4 k ds d dl st)
  show ?case
  proof (cases "known ds d")
    case True
    then obtain st1 m where m: "find_cycle k ds d st = Some (st1, m)" using 4(4) by (cases "find_cycle k ds d st") auto
    show ?thesis
    proof (cases m)
      case None
      then have "find_in k ds dl st1 = Some (st', Some c)" "snd st1 = snd st" using 4(4) True m path_kept(1) by auto
      then show ?thesis using 4(2) [OF True m refl, of st' c] 4(5,6) None by simp
    next
      case (Some c')
      then have "find_cycle k ds d st = Some (st1, Some c)" using 4(4) True m by simp
      moreover have "chain ds (snd st @ [d])" using 4(5,6) by (simp add: chain_snoc)
      ultimately show ?thesis using 4(1) [OF True] by blast
    qed
  next
    case False
    then show ?thesis using 4(3) [OF False] 4(4,5,6) by simp
  qed
qed auto

end
