(* ===== verification/Service_Build.thy ===== *)
theory Service_Build
  imports Service_Order Simple_Backend Http3_Client Http3_Server "HOL-Library.Product_Lexorder"
begin

text \<open>
  What a service builds from its configuration (\<open>wwatp_service.cpp\<close>, \<open>readFileChunks\<close> and
  \<open>constructBackends\<close> to \<open>obtainQuicListener\<close>). Backends and frontends hold references to backends; here a
  reference is the name the service knows the backend by, so a backend is described by its type and the
  names it refers to. Messages to the console are left out.
\<close>

section \<open>What is built\<close>

type_synonym connector_spec = "string \<times> string \<times> u16"

datatype backend_object =
    Simple_Object
  | Transactional_Object string
  | Threadsafe_Object string
  | Composite_Object string "(string \<times> string) list"
  | Redirected_Object string string
  | Client_Object connector_spec nat
  | File_Object string

datatype frontend_object =
    Cloning_Object string string string bool
  | Yaml_Mediator_Object string string string "string \<times> string \<times> string" bool
  | Server_Object "string server"

record ('y, 't) service =
  built :: "(string \<times> backend_object) list"
  built_frontends :: "(string \<times> (frontend_object \<times> connector_spec)) list"
  service_listeners :: "(connector_spec \<times> ('y \<times> (string \<times> string server) list)) list"
  service_connectors :: "(connector_spec \<times> 'y) list"
  client_updaters :: "(connector_spec \<times> (string, 't) client list) list"
  initialized :: bool

definition service_new :: "('y, 't) service" where
  "service_new = \<lparr>built = [], built_frontends = [], service_listeners = [], service_connectors = [],
     client_updaters = [], initialized = False\<rparr>"

text \<open>
  The world of a service: yaml-cpp, the configuration backend and the label of the configuration, the
  checks of the QUIC library's settings, the nodes a freshly built root backend holds (a file backend reads
  them from the disk, a client from its server), what a mediator does to its backends when it is made,
  opening connections, the clock and the bytes of an empty message, the files, and how deep calls may be
  nested before the stack is used up.
\<close>

record ('y, 't) world =
  w_yaml :: "'y yaml"
  w_node :: "string \<Rightarrow> vnode option result"
  w_label :: string
  w_connector_settings :: "'y \<Rightarrow> unit result"
  w_listener_settings :: "'y \<Rightarrow> unit result"
  w_holds :: "string \<Rightarrow> string \<Rightarrow> bool result"
  w_mediate :: "frontend_object \<Rightarrow> unit result"
  w_listen :: "connector_spec \<Rightarrow> unit result"
  w_connect :: "connector_spec \<Rightarrow> unit result"
  w_clock :: "'t clock"
  w_fresh :: "byte list"
  w_file_size :: "string \<Rightarrow> nat option"
  w_file_read :: "string \<Rightarrow> nat \<Rightarrow> nat \<Rightarrow> byte list option"
  w_depth :: nat

type_synonym ('y, 't, 'a) service_act = "(('y, 't) service, 'a) act"

definition ask_service :: "(('y, 't) service \<Rightarrow> 'a) \<Rightarrow> ('y, 't, 'a) service_act" where
  "ask_service f = (\<lambda>s. (s, [], Inr (f s)))"

definition change_service :: "(('y, 't) service \<Rightarrow> ('y, 't) service) \<Rightarrow> ('y, 't, unit) service_act" where
  "change_service f = (\<lambda>s. (f s, [], Inr ()))"

text \<open>\<open>try ... catch (const std::exception& e)\<close>.\<close>

definition act_catch :: "('s, 'a) act \<Rightarrow> (err \<Rightarrow> ('s, 'a) act) \<Rightarrow> ('s, 'a) act" where
  "act_catch m h = (\<lambda>s. case m s of
     (s', es, Inr x) \<Rightarrow> (s', es, Inr x)
   | (s', es, Inl e) \<Rightarrow>
       if catchable e then (case h e s' of (s'', fs, r) \<Rightarrow> (s'', es @ fs, r)) else (s', es, Inl e))"

section \<open>Files\<close>

text \<open>\<open>readFileChunks\<close>: whatever goes wrong, the chunks read so far are the answer.\<close>

fun read_chunks_from :: "(nat \<Rightarrow> nat \<Rightarrow> byte list option) \<Rightarrow> nat \<Rightarrow> nat \<Rightarrow> nat \<Rightarrow> chunk_list" where
  "read_chunks_from rd len i 0 = []"
| "read_chunks_from rd len i (Suc k) =
     (let payload = chunk_size - 6; offset = i * payload; n = min payload (len - offset) in
      if n = 0 then []
      else (case rd offset n of
              None \<Rightarrow> []
            | Some bs \<Rightarrow> vs_of_data (Payload_Header 0 0 (of_nat (length bs))) bs # read_chunks_from rd len (Suc i) k))"

definition read_file_chunks :: "('y, 't) world \<Rightarrow> string \<Rightarrow> chunk_list" where
  "read_file_chunks w path =
     (case w_file_size w path of
        None \<Rightarrow> []
      | Some len \<Rightarrow>
          read_chunks_from (w_file_read w path) len 0 ((len + (chunk_size - 6) - 1) div (chunk_size - 6)))"

section \<open>Connections\<close>

definition get_connector_specifier :: "'y yaml \<Rightarrow> 'y \<Rightarrow> connector_spec result" where
  "get_connector_specifier y c =
     rbind (y_or y (y_string y) c ''name'' []) (\<lambda>name.
     rbind (y_or y (y_string y) c ''ip'' ''localhost'') (\<lambda>ip.
     rbind (y_or y (y_uint16 y) c ''port'' 443) (\<lambda>port. Inr (name, ip, port))))"

text \<open>The constructors of \<open>QuicConnector\<close> and \<open>QuicListener\<close>, as far as they can throw.\<close>

definition check_keys :: "'y yaml \<Rightarrow> string \<Rightarrow> 'y \<Rightarrow> unit result" where
  "check_keys y who c =
     rbind (y_or y (y_string y) c ''private_key_file'' []) (\<lambda>key.
     rbind (y_or y (y_string y) c ''cert_file'' []) (\<lambda>cert.
       if key = [] then Inl (Runtime_Error (who @ '' requires '' @ quoted ''private_key_file'' @ '' in yaml_config''))
       else if cert = [] then Inl (Runtime_Error (who @ '' requires '' @ quoted ''cert_file'' @ '' in yaml_config''))
       else Inr ()))"

definition obtain_quic_connector :: "('y, 't) world \<Rightarrow> 'y \<Rightarrow> ('y, 't, unit) service_act" where
  "obtain_quic_connector w c =
     act_bind (act_lift (get_connector_specifier (w_yaml w) c)) (\<lambda>spec.
     act_bind (ask_service (\<lambda>s. map_of (service_connectors s) spec)) (\<lambda>old.
       if old \<noteq> None then act_return ()
       else act_bind (act_lift (check_keys (w_yaml w) ''QuicConnector'' c)) (\<lambda>_.
            act_bind (act_lift (w_connector_settings w c)) (\<lambda>_.
              change_service (\<lambda>s. s\<lparr>service_connectors := omap_insert spec c (service_connectors s)\<rparr>)))))"

definition obtain_client_updater :: "('y, 't) world \<Rightarrow> 'y \<Rightarrow> ('y, 't, connector_spec) service_act" where
  "obtain_client_updater w c =
     act_bind (act_lift (get_connector_specifier (w_yaml w) c)) (\<lambda>spec.
     act_bind (change_service (\<lambda>s. if map_of (client_updaters s) spec \<noteq> None then s
         else s\<lparr>client_updaters := omap_insert spec [] (client_updaters s)\<rparr>)) (\<lambda>_.
       act_return spec))"

definition obtain_quic_listener :: "('y, 't) world \<Rightarrow> 'y \<Rightarrow> ('y, 't, connector_spec) service_act" where
  "obtain_quic_listener w c =
     act_bind (act_lift (y_or (w_yaml w) (y_string (w_yaml w)) c ''private_key_file'' [])) (\<lambda>_.
     act_bind (act_lift (y_or (w_yaml w) (y_string (w_yaml w)) c ''cert_file'' [])) (\<lambda>_.
     act_bind (act_lift (get_connector_specifier (w_yaml w) c)) (\<lambda>spec.
     act_bind (ask_service (\<lambda>s. map_of (service_listeners s) spec)) (\<lambda>old.
       if old \<noteq> None then act_return spec
       else act_bind (act_lift (check_keys (w_yaml w) ''QuicListener'' c)) (\<lambda>_.
            act_bind (act_lift (w_listener_settings w c)) (\<lambda>_.
            act_bind (change_service (\<lambda>s. s\<lparr>service_listeners := omap_insert spec (c, []) (service_listeners s)\<rparr>)) (\<lambda>_.
              act_return spec)))))))"

section \<open>Backends\<close>

definition find_backend :: "string \<Rightarrow> ('y, 't, backend_object option) service_act" where
  "find_backend name = ask_service (\<lambda>s. map_of (built s) name)"

text \<open>The backend a setting names, which must be there.\<close>

definition underlying :: "('y, 't) world \<Rightarrow> vnode \<Rightarrow> string \<Rightarrow> string \<Rightarrow> ('y, 't, string) service_act" where
  "underlying w cfg pre post =
     act_bind (act_lift (require_string_property (w_yaml w) cfg ''backend'')) (\<lambda>name.
     act_bind (find_backend name) (\<lambda>m.
       if m = None then act_throw (Config_Error (pre @ quoted name @ post)) else act_return name))"

definition create_simple_backend :: "vnode \<Rightarrow> ('y, 't, backend_object) service_act" where
  "create_simple_backend cfg = act_return Simple_Object"

definition create_transactional_backend :: "('y, 't) world \<Rightarrow> vnode \<Rightarrow> ('y, 't, backend_object) service_act" where
  "create_transactional_backend w cfg =
     act_bind (underlying w cfg ''Underlying backend '' '' not found'') (\<lambda>b. act_return (Transactional_Object b))"

definition create_threadsafe_backend :: "('y, 't) world \<Rightarrow> vnode \<Rightarrow> ('y, 't, backend_object) service_act" where
  "create_threadsafe_backend w cfg =
     act_bind (underlying w cfg ''Underlying backend '' '' not found'') (\<lambda>b. act_return (Threadsafe_Object b))"

definition create_redirected_backend :: "('y, 't) world \<Rightarrow> vnode \<Rightarrow> ('y, 't, backend_object) service_act" where
  "create_redirected_backend w cfg =
     act_bind (underlying w cfg ''Underlying backend '' '' not found'') (\<lambda>b.
     act_bind (act_lift (require_string_property (w_yaml w) cfg ''redirect_root'')) (\<lambda>root.
       act_return (Redirected_Object b root)))"

definition create_file_backend :: "('y, 't) world \<Rightarrow> vnode \<Rightarrow> ('y, 't, backend_object) service_act" where
  "create_file_backend w cfg =
     act_bind (act_lift (require_string_property (w_yaml w) cfg ''root_path'')) (\<lambda>root. act_return (File_Object root))"

text \<open>\<open>mountBackend\<close> on mounts known by name; see \<open>mount_backend\<close> in \<open>Composite_Backend\<close>.\<close>

fun overlaps_any :: "string \<Rightarrow> string list \<Rightarrow> bool result" where
  "overlaps_any l [] = Inr False"
| "overlaps_any l (key # keys) = rbind (check_overlap l key) (\<lambda>hit. if hit then Inr True else overlaps_any l keys)"

definition mount_named :: "(string \<Rightarrow> bool result) \<Rightarrow> string \<Rightarrow> string \<Rightarrow> (string \<times> string) list \<Rightarrow> (string \<times> string) list result" where
  "mount_named holds l name mounts =
     (if map_of mounts l \<noteq> None
      then Inl (Runtime_Error ''Label rule already exists in the mounted backends'')
      else rbind (holds l) (\<lambda>there.
        if there then Inl (Runtime_Error ''Label rule already exists in the root backend'')
        else rbind (overlaps_any l (map fst mounts)) (\<lambda>hit.
          if hit then Inl (Runtime_Error ''Label rule overlaps with an existing mounted backend'')
          else Inr (omap_insert l name mounts))))"

text \<open>The loop over the children: their mounts and the errors so far; what \<open>mountBackend\<close> throws ends it.\<close>

fun mount_children :: "('y, 't) world \<Rightarrow> string \<Rightarrow> string \<Rightarrow> string list \<Rightarrow> (string \<times> string) list \<times> string list \<Rightarrow>
    ('y, 't, (string \<times> string) list \<times> string list) service_act" where
  "mount_children w root l [] st = act_return st"
| "mount_children w root l (child # children) (mounts, errors) =
     act_bind (act_lift (w_node w (l @ ''/'' @ child))) (\<lambda>m.
       case m of
         None \<Rightarrow> mount_children w root l children
           (mounts, errors @ [''Child backend configuration '' @ quoted child @ '' not found'' @ [CHR 0x0A]])
       | Some n \<Rightarrow>
           (case require_string_property (w_yaml w) n ''mount_path'' of
              Inl (Config_Error e) \<Rightarrow> mount_children w root l children
                (mounts, errors @ [''Child backend '' @ quoted child @ '' missing required '' @ quoted ''mount_path'' @
                   '' property: '' @ e @ [CHR 0x0A]])
            | Inl e \<Rightarrow> act_throw e
            | Inr mount_path \<Rightarrow>
                act_bind (find_backend child) (\<lambda>b.
                  if b = None then mount_children w root l children
                    (mounts, errors @ [''Child backend '' @ quoted child @ '' not found'' @ [CHR 0x0A]])
                  else act_bind (act_lift (mount_named (w_holds w root) mount_path child mounts)) (\<lambda>mounts'.
                    mount_children w root l children (mounts', errors)))))"

definition create_composite_backend :: "('y, 't) world \<Rightarrow> vnode \<Rightarrow> ('y, 't, backend_object) service_act" where
  "create_composite_backend w cfg =
     act_bind (underlying w cfg ''Root backend '' '' not found'') (\<lambda>root.
     act_bind (mount_children w root (label_rule cfg) (child_names cfg) ([], [])) (\<lambda>(mounts, errors).
       if errors \<noteq> [] then act_throw (Config_Error (concat errors))
       else act_return (Composite_Object root mounts)))"

text \<open>The node for a static file, whose label is \<open>name.type\<close>.\<close>

definition static_file_node :: "string \<Rightarrow> string \<Rightarrow> vnode result" where
  "static_file_node l desc =
     (let dot = find_char (CHR ''.'') l; name = (case dot of Some i \<Rightarrow> take i l | None \<Rightarrow> l);
          t = (case dot of Some i \<Rightarrow> drop (i + 1) l | None \<Rightarrow> ''string'') in
      if name = [] then Inl (Config_Error ''Static node label must have a name before the dot'')
      else if t = [] then Inl (Config_Error ''Static node label must have a type after the dot'')
      else node_make l desc [(t, name)] default_version [] \<lparr>vs_chunks = [], vs_type = 0\<rparr> None None)"

definition client_request :: "('y, 't) world \<Rightarrow> vnode \<Rightarrow> http_request result" where
  "client_request w cfg =
     (let y = w_yaml w in
      rbind (get_string_property y cfg ''scheme'' ''https'') (\<lambda>scheme.
      rbind (get_string_property y cfg ''ip'' ''127.0.0.1'') (\<lambda>ip.
      rbind (get_string_property y cfg ''port'' ''443'') (\<lambda>port.
      rbind (get_string_property y cfg ''authority'' (ip @ '':'' @ port)) (\<lambda>authority.
      rbind (require_string_property y cfg ''path'') (\<lambda>path.
      rbind (get_string_property y cfg ''method'' ''GET'') (\<lambda>meth.
      rbind (get_int64_property y cfg ''priority'' 0) (\<lambda>urgency.
      rbind (get_int64_property y cfg ''increment'' 0) (\<lambda>inc.
        Inr (Http_Request scheme authority path meth
          (sint (ucast urgency :: 32 word)) (sint (ucast inc :: 32 word))))))))))))"

definition create_client_backend :: "('y, 't) world \<Rightarrow> vnode \<Rightarrow> ('y, 't, backend_object) service_act" where
  "create_client_backend w cfg =
     (let y = w_yaml w in
      act_bind (act_lift (has_config_property cfg)) (\<lambda>has.
      if \<not> has then act_throw (Config_Error (''HTTP3ClientBackend requires a '' @ quoted ''config'' @ '' property with YAML content''))
      else
      act_bind (act_lift (get_config_property y cfg)) (\<lambda>c.
      act_bind (act_lift (get_connector_specifier y c)) (\<lambda>_.
      act_bind (underlying w cfg ''Backend '' '' not found for HTTP3ClientBackend'') (\<lambda>b.
      act_bind (act_lift (get_bool_property y cfg ''blocking_mode'' False)) (\<lambda>blk.
      act_bind (act_lift (get_uint64_property y cfg ''journal_requests_per_minute'' 0)) (\<lambda>rate.
      act_bind (act_lift (client_request w cfg)) (\<lambda>req.
      act_bind (act_lift (get_string_property y cfg ''static_node_label'' [])) (\<lambda>static_label.
      act_bind (act_lift (if static_label = [] then Inr None
          else rbind (get_string_property y cfg ''static_node_description'' static_label) (\<lambda>d.
               rbind (static_file_node static_label d) (\<lambda>n. Inr (Some n))))) (\<lambda>static.
      act_bind (obtain_quic_connector w c) (\<lambda>_.
      act_bind (obtain_client_updater w c) (\<lambda>spec.
      act_bind (act_lift (client_new (w_clock w) (w_fresh w) b blk req (unat rate) static)) (\<lambda>cl.
      act_bind (ask_service (\<lambda>s. with_default [] (map_of (client_updaters s) spec))) (\<lambda>cls.
      act_bind (change_service (\<lambda>s. s\<lparr>client_updaters := omap_insert spec (cls @ [cl]) (client_updaters s)\<rparr>)) (\<lambda>_.
        act_return (Client_Object spec (length cls)))))))))))))))))"

section \<open>All backends\<close>

text \<open>\<open>backend_factories_\<close>: the types known, with the name of the help text an error points to.\<close>

definition backend_factory :: "('y, 't) world \<Rightarrow> string \<Rightarrow> ((vnode \<Rightarrow> ('y, 't, backend_object) service_act) \<times> string) option" where
  "backend_factory w t =
     (if t = ''simple'' then Some (create_simple_backend, ''simple_help'')
      else if t = ''transactional'' then Some (create_transactional_backend w, ''transactional_help'')
      else if t = ''threadsafe'' then Some (create_threadsafe_backend w, ''threadsafe_help'')
      else if t = ''composite'' then Some (create_composite_backend w, ''composite_help'')
      else if t = ''redirected'' then Some (create_redirected_backend w, ''redirected_help'')
      else if t = ''http3_client'' then Some (create_client_backend w, ''http3_client_help'')
      else if t = ''file'' then Some (create_file_backend w, ''file_help'')
      else None)"

text \<open>The configurations found, by name; a child without a node is passed over.\<close>

fun collect_configs :: "('y, 't) world \<Rightarrow> string \<Rightarrow> string list \<Rightarrow> (string \<times> vnode) list \<Rightarrow> (string \<times> vnode) list result" where
  "collect_configs w pre [] cfgs = Inr cfgs"
| "collect_configs w pre (c # cs) cfgs =
     rbind (w_node w (pre @ c)) (\<lambda>m. collect_configs w pre cs
       (case m of Some n \<Rightarrow> omap_insert c n cfgs | None \<Rightarrow> cfgs))"

definition construct_one :: "('y, 't) world \<Rightarrow> string \<Rightarrow> vnode \<Rightarrow> string list \<Rightarrow> ('y, 't, string list) service_act" where
  "construct_one w name cfg errors =
     (case require_string_property (w_yaml w) cfg ''type'' of
        Inl (Config_Error e) \<Rightarrow> act_return
          (errors @ ['' Backend '' @ quoted name @ '' missing required '' @ quoted ''type'' @ '' property: '' @ e @ [CHR 0x0A]])
      | Inl e \<Rightarrow> act_throw e
      | Inr t \<Rightarrow>
          (case backend_factory w t of
             None \<Rightarrow> act_return
               (errors @ ['' Unknown backend type '' @ quoted t @ '' for backend '' @ quoted name @ ''.'' @ [CHR 0x0A]])
           | Some (create, help) \<Rightarrow>
               act_catch
                 (act_bind (create cfg) (\<lambda>b.
                  act_bind (change_service (\<lambda>s. s\<lparr>built := omap_insert name b (built s)\<rparr>)) (\<lambda>_. act_return errors)))
                 (\<lambda>e. act_return (errors @
                    ['' Failed to create backend '' @ quoted name @ '': '' @ what (w_yaml w) e @ ''. See '' @ help @ [CHR 0x0A]]))))"

fun construct_in_order :: "('y, 't) world \<Rightarrow> (string \<times> vnode) list \<Rightarrow> string list \<Rightarrow> string list \<Rightarrow>
    ('y, 't, string list) service_act" where
  "construct_in_order w cfgs [] errors = act_return errors"
| "construct_in_order w cfgs (name # names) errors =
     (case map_of cfgs name of
        None \<Rightarrow> act_throw Undefined_Behaviour
      | Some cfg \<Rightarrow> act_bind (construct_one w name cfg errors) (\<lambda>errors'. construct_in_order w cfgs names errors'))"

definition construct_backends :: "('y, 't) world \<Rightarrow> ('y, 't, unit) service_act" where
  "construct_backends w =
     act_bind (act_lift (w_node w (w_label w))) (\<lambda>m.
       if m = None then act_throw (Config_Error (''Configuration node '' @ quoted (w_label w) @ '' not found''))
       else
         act_bind (act_lift (w_node w (w_label w @ ''/backends''))) (\<lambda>bs.
           case bs of
             None \<Rightarrow> act_return ()
           | Some n \<Rightarrow>
               act_bind (act_lift (collect_configs w (w_label w @ ''/backends/'') (child_names n) [])) (\<lambda>cfgs.
               act_bind (act_lift (topological_sort (w_yaml w) cfgs)) (\<lambda>order.
               act_bind (construct_in_order w cfgs order []) (\<lambda>errors.
                 if errors \<noteq> [] then act_throw (Config_Error (concat errors)) else act_return ())))))"

section \<open>Frontends\<close>

definition create_cloning_mediator ::
  "('y, 't) world \<Rightarrow> vnode \<Rightarrow> ('y, 't, frontend_object \<times> connector_spec) service_act" where
  "create_cloning_mediator w cfg =
     (let y = w_yaml w in
      act_bind (act_lift (get_string_property y cfg ''name'' (get_node_name cfg))) (\<lambda>name.
      act_bind (act_lift (require_string_property y cfg ''backend_a'')) (\<lambda>a.
      act_bind (act_lift (require_string_property y cfg ''backend_b'')) (\<lambda>b.
      if a = [] \<or> b = [] then act_throw (Config_Error ''CloningMediator requires backend names to be non-empty'')
      else
      act_bind (find_backend a) (\<lambda>ma. act_bind (find_backend b) (\<lambda>mb.
      if ma = None \<or> mb = None
      then act_throw (Config_Error (''Required backends not found for CloningMediator '' @ quoted name))
      else
      act_bind (act_lift (get_bool_property y cfg ''versioned'' False)) (\<lambda>v.
      act_bind (act_lift (w_mediate w (Cloning_Object name a b v))) (\<lambda>_.
        act_return (Cloning_Object name a b v, (name, [], 0))))))))))"

definition create_yaml_mediator ::
  "('y, 't) world \<Rightarrow> vnode \<Rightarrow> ('y, 't, frontend_object \<times> connector_spec) service_act" where
  "create_yaml_mediator w cfg =
     (let y = w_yaml w in
      act_bind (act_lift (get_string_property y cfg ''name'' (get_node_name cfg))) (\<lambda>name.
      act_bind (act_lift (require_string_property y cfg ''tree_backend'')) (\<lambda>a.
      act_bind (act_lift (require_string_property y cfg ''yaml_backend'')) (\<lambda>b.
      if a = [] \<or> b = []
      then act_throw (Config_Error (''YAMLMediator requires '' @ quoted ''tree_backend'' @ '' and '' @
             quoted ''yaml_backend'' @ '' properties''))
      else
      act_bind (find_backend a) (\<lambda>ma. act_bind (find_backend b) (\<lambda>mb.
      if ma = None \<or> mb = None
      then act_throw (Config_Error (''Required backends not found for YAMLMediator '' @ quoted name))
      else
      act_bind (act_lift (require_string_property y cfg ''node_label'')) (\<lambda>l.
      act_bind (act_lift (require_string_property y cfg ''property_name'')) (\<lambda>prop.
      act_bind (act_lift (get_string_property y cfg ''property_type'' ''yaml'')) (\<lambda>t.
      act_bind (act_lift (get_bool_property y cfg ''initialize_from_yaml'' True)) (\<lambda>ini.
      let md = Yaml_Mediator_Object name a b (l, prop, t) ini in
      act_bind (act_lift (w_mediate w md)) (\<lambda>_. act_return (md, (name, [], 0)))))))))))))"

text \<open>The properties of a node as static files.\<close>

fun add_properties :: "vnode \<Rightarrow> property_info list \<Rightarrow> string server \<Rightarrow> string server result" where
  "add_properties n [] sv = Inr sv"
| "add_properties n ((t, name) # infos) sv =
     rbind (value_span n name) (\<lambda>s. add_properties n infos (add_static_asset (''/'' @ name @ ''.'' @ t) [s] sv))"

text \<open>
  \<open>updateServerWithChild\<close> and its loop over the children; the first argument is the depth of calls left on
  the stack.
\<close>

fun update_server :: "nat \<Rightarrow> ('y, 't) world \<Rightarrow> string list \<Rightarrow> string \<Rightarrow> vnode \<Rightarrow> bool \<Rightarrow> string server \<Rightarrow> string server result"
  and update_children :: "nat \<Rightarrow> ('y, 't) world \<Rightarrow> string list \<Rightarrow> string \<Rightarrow> vnode \<Rightarrow> bool \<Rightarrow> string list \<Rightarrow> string list \<Rightarrow>
    string server \<Rightarrow> string server result" where
  "update_server 0 w names path n is_route sv = Inl Undefined_Behaviour"
| "update_server (Suc d) w names path n is_route sv =
     rbind
       (if is_route then
          rbind (require_string_property (w_yaml w) n ''backend'') (\<lambda>b.
          rbind (get_uint64_property (w_yaml w) n ''journal_size'' 1000) (\<lambda>j.
            if b \<notin> set names then Inl (Config_Error (''Backend not found: '' @ b))
            else if path = [] then Inl Undefined_Behaviour
            else Inr (add_backend_route b (unat j) (if last path \<noteq> CHR ''/'' then path @ ''/'' else path) sv)))
        else add_properties n (property_infos n) sv)
       (\<lambda>sv'. update_children d w names path n is_route (child_names n) [] sv')"
| "update_children d w names path n is_route [] errors sv =
     (if errors \<noteq> [] then Inl (Config_Error (concat errors)) else Inr sv)"
| "update_children d w names path n is_route (c # cs) errors sv =
     (let l = (if CHR ''/'' \<in> set c then c else label_rule n @ ''/'' @ c) in
      rbind (w_node w l) (\<lambda>m.
        case m of
          None \<Rightarrow> update_children d w names path n is_route cs
            (errors @ [''Warning: Descendant node '' @ quoted l @ '' not found in HTTP3Server configuration'']) sv
        | Some k \<Rightarrow>
            rbind (update_server d w names (path @ ''/'' @ get_node_name k) k (is_route \<or> c = ''wwatp'') sv) (\<lambda>sv'.
              update_children d w names path n is_route cs errors sv')))"

fun server_assets :: "('y, 't) world \<Rightarrow> bool \<Rightarrow> vnode \<Rightarrow> property_info list \<Rightarrow> string server \<Rightarrow> string server result" where
  "server_assets w load n [] sv = Inr sv"
| "server_assets w load n ((t, name) # infos) sv =
     (if name = ''config'' then server_assets w load n infos sv
      else
        rbind (if load then rbind (require_string_property (w_yaml w) n name) (\<lambda>path. Inr (read_file_chunks w path))
               else rbind (value_span n name) (\<lambda>s. Inr [s]))
          (\<lambda>asset. server_assets w load n infos (add_static_asset (''/'' @ name @ ''.'' @ t) asset sv)))"

fun server_children :: "('y, 't) world \<Rightarrow> string list \<Rightarrow> string \<Rightarrow> string list \<Rightarrow> string list \<Rightarrow> string server \<Rightarrow>
    string server result" where
  "server_children w names l [] errors sv = (if errors \<noteq> [] then Inl (Config_Error (concat errors)) else Inr sv)"
| "server_children w names l (c # cs) errors sv =
     rbind (w_node w (l @ ''/'' @ c)) (\<lambda>m.
       case m of
         None \<Rightarrow> server_children w names l cs
           (errors @ [''Warning: Child node '' @ quoted c @ '' not found in HTTP3Server configuration'']) sv
       | Some k \<Rightarrow>
           (let path = ''/'' @ get_node_name k in
            rbind (update_server (w_depth w) w names path k (path = ''/wwatp'') sv) (\<lambda>sv'.
              server_children w names l cs errors sv')))"

definition create_http3_server ::
  "('y, 't) world \<Rightarrow> vnode \<Rightarrow> ('y, 't, frontend_object \<times> connector_spec) service_act" where
  "create_http3_server w cfg =
     (let y = w_yaml w in
      act_bind (act_lift (get_string_property y cfg ''name'' (get_node_name cfg))) (\<lambda>name.
      act_bind (act_lift (get_config_property y cfg)) (\<lambda>c.
      act_bind (act_lift (get_connector_specifier y c)) (\<lambda>spec.
      act_bind (act_lift (get_config_bool y cfg ''static_load'' False)) (\<lambda>load.
      act_bind (act_lift (get_config_string y cfg ''name'' name)) (\<lambda>server_name.
      act_bind (obtain_quic_listener w c) (\<lambda>listener.
      act_bind (ask_service (\<lambda>s. map fst (built s))) (\<lambda>names.
      act_bind (act_lift
        (rbind (server_assets w load cfg (property_infos cfg) \<lparr>sv_name = name, sv_routes = [], static_assets = []\<rparr>)
           (server_children w names (label_rule cfg) (child_names cfg) []))) (\<lambda>sv.
      act_bind (change_service (\<lambda>s. s\<lparr>service_listeners := map (\<lambda>(k, c, preparers).
          if k = listener then (k, c, preparers @ [(server_name, sv)]) else (k, c, preparers)) (service_listeners s)\<rparr>)) (\<lambda>_.
        act_return (Server_Object sv, spec)))))))))))"

definition frontend_factory :: "('y, 't) world \<Rightarrow> string \<Rightarrow>
    ((vnode \<Rightarrow> ('y, 't, frontend_object \<times> connector_spec) service_act) \<times> string) option" where
  "frontend_factory w t =
     (if t = ''cloning_mediator'' then Some (create_cloning_mediator w, ''cloning_mediator_help'')
      else if t = ''yaml_mediator'' then Some (create_yaml_mediator w, ''yaml_mediator_help'')
      else if t = ''http3_server'' then Some (create_http3_server w, ''http3_server_help'')
      else None)"

definition construct_frontend :: "('y, 't) world \<Rightarrow> string \<Rightarrow> vnode \<Rightarrow> string list \<Rightarrow> ('y, 't, string list) service_act" where
  "construct_frontend w name cfg errors =
     (case require_string_property (w_yaml w) cfg ''type'' of
        Inl (Config_Error e) \<Rightarrow> act_return
          (errors @ ['' Frontend '' @ quoted name @ '' missing required '' @ quoted ''type'' @ '' property: '' @ e @ [CHR 0x0A]])
      | Inl e \<Rightarrow> act_throw e
      | Inr t \<Rightarrow>
          (case frontend_factory w t of
             None \<Rightarrow> act_return
               (errors @ ['' Unknown frontend type '' @ quoted t @ '' for frontend '' @ quoted name @ ''.'' @ [CHR 0x0A]])
           | Some (create, help) \<Rightarrow>
               act_catch
                 (act_bind (create cfg) (\<lambda>f.
                  act_bind (change_service (\<lambda>s. s\<lparr>built_frontends := omap_insert name f (built_frontends s)\<rparr>)) (\<lambda>_.
                    act_return errors)))
                 (\<lambda>e. act_return (errors @
                    ['' Failed to create frontend '' @ quoted name @ '': '' @ what (w_yaml w) e @ ''. See '' @ help @ [CHR 0x0A]]))))"

fun construct_frontends_in :: "('y, 't) world \<Rightarrow> string list \<Rightarrow> string list \<Rightarrow> ('y, 't, string list) service_act" where
  "construct_frontends_in w [] errors = act_return errors"
| "construct_frontends_in w (name # names) errors =
     act_bind (act_lift (w_node w (w_label w @ ''/frontends/'' @ name))) (\<lambda>m.
       case m of
         None \<Rightarrow> construct_frontends_in w names errors
       | Some cfg \<Rightarrow> act_bind (construct_frontend w name cfg errors) (\<lambda>errors'. construct_frontends_in w names errors'))"

definition construct_frontends :: "('y, 't) world \<Rightarrow> ('y, 't, unit) service_act" where
  "construct_frontends w =
     act_bind (act_lift (w_node w (w_label w @ ''/frontends''))) (\<lambda>m.
       case m of
         None \<Rightarrow> act_return ()
       | Some n \<Rightarrow> act_bind (construct_frontends_in w (child_names n) []) (\<lambda>errors.
           if errors \<noteq> [] then act_throw (Config_Error (concat errors)) else act_return ()))"

section \<open>The service\<close>

definition initialize :: "('y, 't) world \<Rightarrow> bool \<Rightarrow> ('y, 't, unit) service_act" where
  "initialize w test_only =
     act_bind (ask_service initialized) (\<lambda>done.
     if done then act_return ()
     else
       act_bind (construct_backends w) (\<lambda>_.
       act_bind (construct_frontends w) (\<lambda>_.
       if test_only then act_return ()
       else
         act_bind (ask_service (\<lambda>s. (map fst (service_listeners s), map fst (service_connectors s)))) (\<lambda>(ls, cs).
         act_bind (act_each (\<lambda>l. act_lift (w_listen w l)) ls) (\<lambda>_.
         act_bind (act_each (\<lambda>c. act_lift (w_connect w c)) cs) (\<lambda>_.
           change_service (\<lambda>s. s\<lparr>initialized := True\<rparr>)))))))"

definition when_initialized :: "(('y, 't) service \<Rightarrow> 'a) \<Rightarrow> ('y, 't) service \<Rightarrow> 'a result" where
  "when_initialized f s = (if initialized s then Inr (f s) else Inl (Runtime_Error ''WWATPService not initialized''))"

definition get_backend :: "string \<Rightarrow> ('y, 't) service \<Rightarrow> backend_object option result" where
  "get_backend name = when_initialized (\<lambda>s. map_of (built s) name)"

definition get_backend_names :: "('y, 't) service \<Rightarrow> string list result" where
  "get_backend_names = when_initialized (\<lambda>s. map fst (built s))"

definition has_backend :: "string \<Rightarrow> ('y, 't) service \<Rightarrow> bool result" where
  "has_backend name = when_initialized (\<lambda>s. map_of (built s) name \<noteq> None)"

end
