(* ===== verification/Service_Properties.thy ===== *)
theory Service_Properties
  imports Service_Build
begin

text \<open>
  What holds of the services a configuration gives: the order backends are built in, which configurations
  are accepted, that a service refers only to backends it has built, and that files are served whole.
\<close>

section \<open>References\<close>

text \<open>\<open>ensures P m Q E\<close>: from a state with \<open>P\<close> the action ends in one with \<open>Q\<close>, or with \<open>E\<close> when it throws.\<close>

definition ensures :: "('s \<Rightarrow> bool) \<Rightarrow> ('s, 'a) act \<Rightarrow> ('a \<Rightarrow> 's \<Rightarrow> bool) \<Rightarrow> ('s \<Rightarrow> bool) \<Rightarrow> bool" where
  "ensures P m Q E \<longleftrightarrow>
     (\<forall>s. P s \<longrightarrow> (case m s of (s', es, Inl e) \<Rightarrow> E s' | (s', es, Inr x) \<Rightarrow> Q x s'))"

named_theorems ensures_rules

lemma ensures_bind [ensures_rules]:
  assumes "ensures P m R E" and "\<And>x. ensures (R x) (f x) Q E"
  shows "ensures P (act_bind m f) Q E"
  unfolding ensures_def
proof (intro allI impI)
  fix s assume P: "P s"
  obtain s' es r where m: "m s = (s', es, r)" by (cases "m s")
  show "case act_bind m f s of (s', es, Inl e) \<Rightarrow> E s' | (s', es, Inr x) \<Rightarrow> Q x s'"
  proof (cases r)
    case (Inl e)
    then show ?thesis using assms(1) P m by (auto simp: ensures_def act_bind_def)
  next
    case (Inr x)
    then have "R x s'" using assms(1) P m by (auto simp: ensures_def)
    then have "case f x s' of (s', es, Inl e) \<Rightarrow> E s' | (s', es, Inr x) \<Rightarrow> Q x s'"
      using assms(2) [of x] by (simp add: ensures_def)
    then show ?thesis using m Inr by (auto simp: act_bind_def split: prod.splits sum.splits)
  qed
qed

lemma ensures_weaken:
  assumes "ensures P' m Q' E" and "\<And>s. P s \<Longrightarrow> P' s" and "\<And>x s. Q' x s \<Longrightarrow> Q x s"
  shows "ensures P m Q E"
  using assms by (fastforce simp: ensures_def split: prod.splits sum.splits)

lemma ensures_return: "(\<And>s. P s \<Longrightarrow> Q x s) \<Longrightarrow> ensures P (act_return x) Q E"
  by (simp add: ensures_def act_return_def)

lemma ensures_throw: "(\<And>s. P s \<Longrightarrow> E s) \<Longrightarrow> ensures P (act_throw e) Q E"
  by (simp add: ensures_def act_throw_def)

lemma ensures_lift: "(\<And>s. P s \<Longrightarrow> E s) \<Longrightarrow> ensures P (act_lift r) (\<lambda>x s. r = Inr x \<and> P s) E"
  by (auto simp: ensures_def act_lift_def split: sum.split)

lemma ensures_ask: "ensures P (ask_service f) (\<lambda>x s. x = f s \<and> P s) E"
  by (simp add: ensures_def ask_service_def)

lemma ensures_change: "(\<And>s. P s \<Longrightarrow> Q (f s)) \<Longrightarrow> ensures P (change_service f) (\<lambda>_. Q) E"
  by (simp add: ensures_def change_service_def)

lemma ensures_catch:
  assumes "ensures P m Q R" and "\<And>e. ensures R (h e) Q E" and "\<And>s. R s \<Longrightarrow> E s"
  shows "ensures P (act_catch m h) Q E"
  unfolding ensures_def
proof (intro allI impI)
  fix s assume P: "P s"
  obtain s' es r where m: "m s = (s', es, r)" by (cases "m s")
  show "case act_catch m h s of (s', es, Inl e) \<Rightarrow> E s' | (s', es, Inr x) \<Rightarrow> Q x s'"
  proof (cases r)
    case (Inl e)
    then have "R s'" using assms(1) P m by (auto simp: ensures_def)
    then have "case h e s' of (s', es, Inl e) \<Rightarrow> E s' | (s', es, Inr x) \<Rightarrow> Q x s'" "E s'"
      using assms(2) [of e] assms(3) by (auto simp: ensures_def)
    then show ?thesis using m Inl by (auto simp: act_catch_def split: prod.splits sum.splits)
  next
    case (Inr x)
    then show ?thesis using assms(1) P m by (auto simp: ensures_def act_catch_def)
  qed
qed

lemma ensures_if: "(c \<Longrightarrow> ensures P m Q E) \<Longrightarrow> (\<not> c \<Longrightarrow> ensures P n Q E) \<Longrightarrow> ensures P (if c then m else n) Q E"
  by simp

text \<open>The names of the backends built, and what refers to them.\<close>

definition names :: "('y, 't) service \<Rightarrow> string set" where
  "names s = fst ` set (built s)"

fun backend_refs :: "backend_object \<Rightarrow> string set" where
  "backend_refs (Transactional_Object b) = {b}"
| "backend_refs (Threadsafe_Object b) = {b}"
| "backend_refs (Composite_Object b ms) = insert b (snd ` set ms)"
| "backend_refs (Redirected_Object b root) = {b}"
| "backend_refs _ = {}"

definition server_refs :: "string server \<Rightarrow> string set" where
  "server_refs sv = (\<lambda>(url, rt). rt_backend rt) ` set (sv_routes sv)"

fun frontend_refs :: "frontend_object \<Rightarrow> string set" where
  "frontend_refs (Cloning_Object name a b v) = {a, b}"
| "frontend_refs (Yaml_Mediator_Object name a b spec ini) = {a, b}"
| "frontend_refs (Server_Object sv) = server_refs sv"

definition no_dangling :: "('y, 't) service \<Rightarrow> bool" where
  "no_dangling s \<longleftrightarrow>
     (\<forall>(n, b) \<in> set (built s). backend_refs b \<subseteq> names s) \<and>
     (\<forall>(spec, cls) \<in> set (client_updaters s). \<forall>c \<in> set cls. local_backend c \<in> names s) \<and>
     (\<forall>(n, f, spec) \<in> set (built_frontends s). frontend_refs f \<subseteq> names s) \<and>
     (\<forall>(spec, c, ps) \<in> set (service_listeners s). \<forall>(n, sv) \<in> set ps. server_refs sv \<subseteq> names s)"

text \<open>No reference dangles, and the names in \<open>B\<close> are known.\<close>

definition safe :: "string set \<Rightarrow> ('y, 't) service \<Rightarrow> bool" where
  "safe B s \<longleftrightarrow> no_dangling s \<and> B \<subseteq> names s"

lemma omap_insert_subset: "set (omap_insert k v m) \<subseteq> insert (k, v) (set m)"
  by (induction k v m rule: omap_insert.induct) auto

lemma names_insert: "built s' = omap_insert n b (built s) \<Longrightarrow> names s' = insert n (names s)"
  by (simp add: names_def set_omap_insert)

lemma safe_build:
  assumes "safe (backend_refs b) s"
  shows "safe {} (s\<lparr>built := omap_insert n b (built s)\<rparr>)"
proof -
  have "names (s\<lparr>built := omap_insert n b (built s)\<rparr>) = insert n (names s)" by (rule names_insert) simp
  then show ?thesis
    using assms omap_insert_subset [of n b "built s"] by (fastforce simp: safe_def no_dangling_def)
qed

lemma safe_mono: "safe B s \<Longrightarrow> C \<subseteq> B \<Longrightarrow> safe C s"
  by (auto simp: safe_def)

lemma safe_lift: "ensures (safe B) (act_lift r) (\<lambda>_. safe B) (safe {})"
  by (auto simp: ensures_def act_lift_def safe_def split: sum.split)

lemma safe_throw: "ensures (safe B) (act_throw e) Q (safe {})"
  by (rule ensures_throw) (simp add: safe_def)

lemma safe_ask: "ensures (safe B) (ask_service f) (\<lambda>_. safe B) (safe {})"
  by (simp add: ensures_def ask_service_def)

lemma safe_return: "C \<subseteq> B \<Longrightarrow> ensures (safe B) (act_return x) (\<lambda>_. safe C) (safe {})"
  by (rule ensures_return) (rule safe_mono)

lemma safe_bind:
  assumes "ensures (safe B) m (\<lambda>_. safe B) (safe {})" and "\<And>x. ensures (safe B) (f x) Q (safe {})"
  shows "ensures (safe B) (act_bind m f) Q (safe {})"
  by (rule ensures_bind [OF assms])

lemmas safe_basic = safe_lift safe_throw safe_ask safe_bind ensures_if safe_return [OF subset_refl]

lemma safe_find: "ensures (safe B) (find_backend name) (\<lambda>m. safe (if m = None then B else insert name B)) (safe {})"
  by (auto simp: ensures_def find_backend_def ask_service_def safe_def names_def dest: map_of_SomeD) (metis fst_conv image_eqI map_of_SomeD)

lemma safe_underlying: "ensures (safe {}) (underlying w cfg pre post) (\<lambda>b. safe {b}) (safe {})"
  unfolding underlying_def
  apply (rule safe_bind [OF safe_lift])
  apply (rule ensures_bind [OF safe_find])
  apply (auto intro: safe_throw intro!: ensures_return)
  done

text \<open>Changing the parts of a service other than the backends.\<close>

lemma safe_connectors: "safe B s \<Longrightarrow> safe B (s\<lparr>service_connectors := cs\<rparr>)"
  by (simp add: safe_def no_dangling_def names_def)

lemma safe_listeners:
  "safe B s \<Longrightarrow> \<forall>(spec, c, ps) \<in> set ls. \<forall>(n, sv) \<in> set ps. server_refs sv \<subseteq> names s \<Longrightarrow>
     safe B (s\<lparr>service_listeners := ls\<rparr>)"
  by (simp add: safe_def no_dangling_def names_def)

lemma safe_updaters:
  "safe B s \<Longrightarrow> \<forall>(spec, cls) \<in> set us. \<forall>c \<in> set cls. local_backend c \<in> names s \<Longrightarrow>
     safe B (s\<lparr>client_updaters := us\<rparr>)"
  by (simp add: safe_def no_dangling_def names_def)

lemma safe_frontends:
  "safe B s \<Longrightarrow> \<forall>(n, f, spec) \<in> set fs. frontend_refs f \<subseteq> names s \<Longrightarrow> safe B (s\<lparr>built_frontends := fs\<rparr>)"
  by (simp add: safe_def no_dangling_def names_def)

lemma ball_omap_insert: "P (k, v) \<Longrightarrow> \<forall>x \<in> set m. P x \<Longrightarrow> \<forall>x \<in> set (omap_insert k v m). P x"
  using omap_insert_subset [of k v m] by blast

lemma safe_connector: "ensures (safe B) (obtain_quic_connector w c) (\<lambda>_. safe B) (safe {})"
  unfolding obtain_quic_connector_def by (intro safe_basic ensures_change safe_connectors)

lemma safe_listener: "ensures (safe B) (obtain_quic_listener w c) (\<lambda>_. safe B) (safe {})"
  unfolding obtain_quic_listener_def
  by (intro safe_basic ensures_change safe_listeners ball_omap_insert) (simp_all add: safe_def no_dangling_def)

lemma safe_updater: "ensures (safe B) (obtain_client_updater w c) (\<lambda>_. safe B) (safe {})"
  unfolding obtain_client_updater_def
proof (intro safe_basic ensures_change, goal_cases)
  case (1 spec s)
  have "safe B (s\<lparr>client_updaters := omap_insert spec [] (client_updaters s)\<rparr>)"
    using 1 by (intro safe_updaters ball_omap_insert) (simp_all add: safe_def no_dangling_def)
  then show ?case using 1 by simp
qed

lemma client_new_backend:
  assumes "client_new clk fresh b blk req rate static = Inr c"
  shows "local_backend c = b"
  using assms
  by (simp add: client_new_def Let_def request_static_data_def enqueue_def ask_def act_bind_def act_return_def
      split: if_splits prod.splits sum.splits) auto

section \<open>Every step keeps the references\<close>

lemma mount_named_refs:
  assumes "mount_named holds l child ms = Inr ms'"
  shows "snd ` set ms' \<subseteq> insert child (snd ` set ms)"
  using assms omap_insert_subset [of l child ms] by (fastforce simp: mount_named_def rbind_Inr_iff split: if_splits)

lemma safe_children:
  "ensures (safe (insert root (snd ` set ms))) (mount_children w root l cs (ms, errors))
     (\<lambda>(ms', errors'). safe (insert root (snd ` set ms'))) (safe {})"
proof (induction cs arbitrary: ms errors)
  case Nil
  then show ?case by (auto intro: ensures_return)
next
  case (Cons child cs)
  let ?Q = "\<lambda>(ms', errors'). safe (insert root (snd ` set ms'))"
  have mounted: "ensures (safe (insert child (insert root (snd ` set ms))))
      (act_bind (act_lift (mount_named (w_holds w root) path child ms)) (\<lambda>ms'. mount_children w root l cs (ms', errors)))
      ?Q (safe {})" for path
  proof (rule ensures_bind)
    show "ensures (safe (insert child (insert root (snd ` set ms)))) (act_lift (mount_named (w_holds w root) path child ms))
        (\<lambda>ms'. safe (insert root (snd ` set ms'))) (safe {})"
      unfolding ensures_def act_lift_def
      by (auto split: sum.split dest!: mount_named_refs intro: safe_mono)
  qed (rule Cons.IH)
  have found: "ensures (safe (insert root (snd ` set ms))) (act_bind (find_backend child) (\<lambda>b.
      if b = None then mount_children w root l cs (ms, e)
      else act_bind (act_lift (mount_named (w_holds w root) path child ms)) (\<lambda>ms'. mount_children w root l cs (ms', errors))))
      ?Q (safe {})" for path e
    by (rule ensures_bind [OF safe_find]) (use Cons.IH mounted in auto)
  show ?case
    unfolding mount_children.simps
    by (rule safe_bind [OF safe_lift]) (auto split: option.split sum.split err.split intro: Cons.IH safe_throw found)
qed

text \<open>What making a backend ensures, from any state without dangling references.\<close>

abbreviation makes_backend :: "('y, 't, backend_object) service_act \<Rightarrow> bool" where
  "makes_backend m \<equiv> ensures (safe {}) m (\<lambda>b. safe (backend_refs b)) (safe {})"

lemma makes_wrapper:
  assumes "\<And>b. backend_refs (wrap b) = {b}"
  shows "makes_backend (act_bind (underlying w cfg pre post) (\<lambda>b. act_return (wrap b)))"
  by (rule ensures_bind [OF safe_underlying]) (auto simp: assms intro: ensures_return)

lemma makes_redirected: "makes_backend (create_redirected_backend w cfg)"
  unfolding create_redirected_backend_def
  apply (rule ensures_bind [OF safe_underlying])
  apply (rule safe_bind [OF safe_lift])
  apply (simp add: ensures_return)
  done

lemma makes_composite: "makes_backend (create_composite_backend w cfg)"
  unfolding create_composite_backend_def
  apply (rule ensures_bind [OF safe_underlying])
  subgoal for root
    apply (rule ensures_bind)
     apply (rule safe_children [of root "[]", simplified])
    apply (auto intro!: ensures_return ensures_throw intro: safe_mono)
    done
  done

lemma makes_client:
  fixes w :: "('y, 't) world"
  shows "makes_backend (create_client_backend w cfg)"
proof -
  have last: "ensures (safe {b}) (act_bind (act_lift (client_new clk fresh b blk req rate static)) (\<lambda>cl.
      act_bind (ask_service (\<lambda>s :: ('y, 't) service. with_default [] (map_of (client_updaters s) spec))) (\<lambda>cls.
      act_bind (change_service (\<lambda>s. s\<lparr>client_updaters := omap_insert spec (cls @ [cl]) (client_updaters s)\<rparr>)) (\<lambda>_.
        act_return (Client_Object spec (length cls))))))
      (\<lambda>b. safe (backend_refs b)) (safe {})" for b fresh blk req rate static spec and clk :: "'t clock"
  proof (cases "client_new clk fresh b blk req rate static")
    case (Inl e)
    then show ?thesis by (auto simp: ensures_def act_bind_def act_lift_def intro: safe_mono)
  next
    case (Inr cl)
    have "safe {} (s\<lparr>client_updaters := omap_insert spec (with_default [] (map_of (client_updaters s) spec) @ [cl])
        (client_updaters s)\<rparr>)" if "safe {b} s" for s :: "('y, 't) service"
    proof (rule safe_updaters)
      show "safe {} s" using that by (rule safe_mono) simp
      have "local_backend c \<in> names s" if c: "c \<in> set (with_default [] (map_of (client_updaters s) spec))" for c
      proof -
        obtain cls where "(spec, cls) \<in> set (client_updaters s)" "c \<in> set cls"
          using c by (cases "map_of (client_updaters s) spec") (auto simp: with_default_def dest: map_of_SomeD)
        then show ?thesis using \<open>safe {b} s\<close> by (auto simp: safe_def no_dangling_def)
      qed
      then show "\<forall>(spec, cls) \<in> set (omap_insert spec (with_default [] (map_of (client_updaters s) spec) @ [cl])
          (client_updaters s)). \<forall>c \<in> set cls. local_backend c \<in> names s"
        using that client_new_backend [OF Inr]
        by (intro ball_omap_insert) (auto simp: safe_def no_dangling_def)
    qed
    then show ?thesis
      by (simp add: ensures_def act_bind_def act_lift_def ask_service_def change_service_def act_return_def Inr)
  qed
  show ?thesis
    unfolding create_client_backend_def Let_def
    apply (intro safe_bind [OF safe_lift] ensures_if safe_throw)
    apply (rule ensures_bind [OF safe_underlying])
    apply (rule safe_bind [OF safe_lift], rule safe_bind [OF safe_lift], rule safe_bind [OF safe_lift],
        rule safe_bind [OF safe_lift], rule safe_bind [OF safe_lift])
    apply (rule safe_bind [OF safe_connector], rule safe_bind [OF safe_updater], rule last)
    done
qed

lemma factory_makes:
  assumes "backend_factory w t = Some (create, hlp)"
  shows "makes_backend (create cfg)"
proof -
  have files: "makes_backend (create_file_backend w cfg)"
    unfolding create_file_backend_def by (rule safe_bind [OF safe_lift]) (simp add: ensures_return)
  have simple: "makes_backend (create_simple_backend cfg)"
    by (simp add: create_simple_backend_def ensures_return)
  show ?thesis
    using assms makes_redirected makes_composite makes_client files simple
    by (auto simp: backend_factory_def create_transactional_backend_def create_threadsafe_backend_def
        split: if_splits intro!: makes_wrapper)
qed

lemma safe_store:
  assumes "makes_backend (create cfg)"
  shows "ensures (safe {}) (act_catch (act_bind (create cfg) (\<lambda>b.
      act_bind (change_service (\<lambda>s. s\<lparr>built := omap_insert name b (built s)\<rparr>)) (\<lambda>_. act_return errors)))
      (\<lambda>e. act_return (g e))) (\<lambda>_. safe {}) (safe {})"
proof (rule ensures_catch [where R = "safe {}"])
  show "ensures (safe {}) (act_bind (create cfg) (\<lambda>b.
      act_bind (change_service (\<lambda>s. s\<lparr>built := omap_insert name b (built s)\<rparr>)) (\<lambda>_. act_return errors)))
      (\<lambda>_. safe {}) (safe {})"
    apply (rule ensures_bind [OF assms])
    apply (rule ensures_bind [OF ensures_change [where Q = "safe {}"]])
     apply (erule safe_build)
    apply (simp add: ensures_return)
    done
qed (simp_all add: ensures_return)

lemma safe_construct_one: "ensures (safe {}) (construct_one w name cfg errors) (\<lambda>_. safe {}) (safe {})"
proof (cases "require_string_property (w_yaml w) cfg ''type''")
  case (Inl e)
  then show ?thesis unfolding construct_one_def by (cases e) (auto intro: ensures_return safe_throw)
next
  case (Inr t)
  show ?thesis
  proof (cases "backend_factory w t")
    case None
    then show ?thesis unfolding construct_one_def Inr by (simp add: ensures_return)
  next
    case (Some f)
    then obtain create hlp where f: "backend_factory w t = Some (create, hlp)" by (cases f) auto
    show ?thesis
      unfolding construct_one_def Inr f sum.case option.case prod.case by (rule safe_store [OF factory_makes [OF f]])
  qed
qed

lemma safe_construct_in_order: "ensures (safe {}) (construct_in_order w cfgs order errors) (\<lambda>_. safe {}) (safe {})"
  by (induction order arbitrary: errors)
    (auto intro: ensures_return safe_throw ensures_bind [OF safe_construct_one] split: option.split)

lemma safe_construct_backends: "ensures (safe {}) (construct_backends w) (\<lambda>_. safe {}) (safe {})"
  unfolding construct_backends_def
  by (intro safe_bind [OF safe_lift] ensures_if safe_throw)
    (auto split: option.split intro!: safe_bind [OF safe_lift] safe_bind [OF safe_construct_in_order]
      intro: ensures_return safe_throw)

section \<open>The routes of a server\<close>

lemma server_refs_route: "server_refs (add_backend_route b n url sv) \<subseteq> insert b (server_refs sv)"
  using omap_insert_subset [of url "route_new b n url ''MutableNodes''" "sv_routes sv"]
  by (auto simp: server_refs_def add_backend_route_def omap_emplace_def route_new_def)

lemma server_refs_asset [simp]: "server_refs (add_static_asset url cs sv) = server_refs sv"
  by (simp add: server_refs_def add_static_asset_def)

lemma add_properties_refs: "add_properties n infos sv = Inr sv' \<Longrightarrow> server_refs sv' = server_refs sv"
  by (induction n infos sv rule: add_properties.induct) (auto simp: rbind_Inr_iff)

lemma server_assets_refs: "server_assets w ld n infos sv = Inr sv' \<Longrightarrow> server_refs sv' = server_refs sv"
  by (induction w ld n infos sv rule: server_assets.induct) (auto simp: rbind_Inr_iff split: if_splits)

lemma update_server_refs:
  shows "update_server d w ns path n r sv = Inr sv' \<Longrightarrow> server_refs sv \<subseteq> set ns \<Longrightarrow> server_refs sv' \<subseteq> set ns"
    and "update_children d w ns path n r cs errors sv = Inr sv' \<Longrightarrow> server_refs sv \<subseteq> set ns \<Longrightarrow>
      server_refs sv' \<subseteq> set ns"
proof (induction d w ns path n r sv and d w ns path n r cs errors sv arbitrary: sv' and sv'
    rule: update_server_update_children.induct)
  case (2 d w ns path n r sv)
  then obtain sv1 where sv1: "(if r then rbind (require_string_property (w_yaml w) n ''backend'') (\<lambda>b.
          rbind (get_uint64_property (w_yaml w) n ''journal_size'' 1000) (\<lambda>j.
            if b \<notin> set ns then Inl (Config_Error (''Backend not found: '' @ b))
            else if path = [] then Inl Undefined_Behaviour
            else Inr (add_backend_route b (unat j) (if last path \<noteq> CHR ''/'' then path @ ''/'' else path) sv)))
        else add_properties n (property_infos n) sv) = Inr sv1"
      "update_children d w ns path n r (child_names n) [] sv1 = Inr sv'"
    by (auto simp: rbind_Inr_iff)
  have "server_refs sv1 \<subseteq> set ns"
    using sv1(1) 2(3) server_refs_route
    by (cases r) (fastforce simp: rbind_Inr_iff dest!: add_properties_refs split: if_splits)+
  then show ?case using 2(1) sv1(2) by blast
next
  case (4 d w ns path n r c cs errors sv)
  let ?l = "if CHR ''/'' \<in> set c then c else label_rule n @ ''/'' @ c"
  obtain m where m: "w_node w ?l = Inr m" using 4(4) by (auto simp: rbind_Inr_iff Let_def)
  show ?case
  proof (cases m)
    case None
    then show ?thesis using 4(1) 4(4,5) m by (simp add: Let_def)
  next
    case (Some k)
    then obtain sv1 where sv1: "update_server d w ns (path @ ''/'' @ get_node_name k) k (r \<or> c = ''wwatp'') sv = Inr sv1"
        "update_children d w ns path n r cs errors sv1 = Inr sv'"
      using 4(4) m by (auto simp: rbind_Inr_iff Let_def)
    show ?thesis using 4(3) [OF refl sv1(2) 4(2) [OF refl sv1(1) 4(5)]] .
  qed
qed (auto split: if_splits)

lemma server_children_refs:
  "server_children w ns l cs errors sv = Inr sv' \<Longrightarrow> server_refs sv \<subseteq> set ns \<Longrightarrow> server_refs sv' \<subseteq> set ns"
proof (induction w ns l cs errors sv rule: server_children.induct)
  case (2 w ns l c cs errors sv)
  obtain m where m: "w_node w (l @ ''/'' @ c) = Inr m" using 2(3) by (auto simp: rbind_Inr_iff)
  show ?case
  proof (cases m)
    case None
    then show ?thesis using 2 m by simp
  next
    case (Some k)
    then obtain sv1 where sv1: "update_server (w_depth w) w ns (''/'' @ get_node_name k) k (''/'' @ get_node_name k = ''/wwatp'') sv = Inr sv1"
        "server_children w ns l cs errors sv1 = Inr sv'"
      using 2(3) m by (auto simp: rbind_Inr_iff Let_def)
    then show ?thesis using 2(2) [OF refl sv1(2) update_server_refs(1) [OF sv1(1) 2(4)]] by simp
  qed
qed (auto split: if_splits)

section \<open>Frontends keep the references\<close>

abbreviation makes_frontend :: "('y, 't, frontend_object \<times> connector_spec) service_act \<Rightarrow> bool" where
  "makes_frontend m \<equiv> ensures (safe {}) m (\<lambda>f. safe (frontend_refs (fst f))) (safe {})"

text \<open>Two backends looked up, one after the other.\<close>

lemma safe_find_two:
  assumes "ensures (safe {a, b}) f Q (safe {})"
  shows "ensures (safe {}) (act_bind (find_backend a) (\<lambda>ma. act_bind (find_backend b) (\<lambda>mb.
      if ma = None \<or> mb = None then act_throw e else f))) Q (safe {})"
proof (rule ensures_bind [OF safe_find])
  fix ma
  show "ensures (safe (if ma = None then {} else insert a {})) (act_bind (find_backend b) (\<lambda>mb.
      if ma = None \<or> mb = None then act_throw e else f)) Q (safe {})"
    by (rule ensures_bind [OF safe_find]) (use assms in \<open>auto simp: insert_commute intro: safe_throw\<close>)
qed

lemma makes_cloning: "makes_frontend (create_cloning_mediator w cfg)"
  unfolding create_cloning_mediator_def Let_def
  apply (rule safe_bind [OF safe_lift], rule safe_bind [OF safe_lift], rule safe_bind [OF safe_lift])
  apply (rule ensures_if, rule safe_throw)
  apply (rule safe_find_two)
   apply (intro safe_bind [OF safe_lift])
   apply (auto intro: ensures_return)
  done

lemma makes_yaml_mediator: "makes_frontend (create_yaml_mediator w cfg)"
  unfolding create_yaml_mediator_def Let_def
  apply (rule safe_bind [OF safe_lift], rule safe_bind [OF safe_lift], rule safe_bind [OF safe_lift])
  apply (rule ensures_if, rule safe_throw)
  apply (rule safe_find_two)
   apply (intro safe_bind [OF safe_lift])
   apply (auto intro: ensures_return)
  done

lemma makes_server:
  fixes w :: "('y, 't) world"
  shows "makes_frontend (create_http3_server w cfg)"
proof -
  let ?sv = "\<lambda>name load ns. rbind (server_assets w load cfg (property_infos cfg) \<lparr>sv_name = name, sv_routes = [], static_assets = []\<rparr>)
      (server_children w ns (label_rule cfg) (child_names cfg) [])"
  have refs: "server_refs sv \<subseteq> set ns" if "?sv name load ns = Inr sv" for name load ns sv
    using that server_children_refs by (fastforce simp: rbind_Inr_iff server_refs_def dest!: server_assets_refs)
  have last: "ensures (safe (server_refs sv)) (act_bind (change_service (\<lambda>s :: ('y, 't) service. s\<lparr>service_listeners := map (\<lambda>(k, c, preparers).
      if k = listener then (k, c, preparers @ [(server_name, sv)]) else (k, c, preparers)) (service_listeners s)\<rparr>)) (\<lambda>_.
        act_return (Server_Object sv, spec))) (\<lambda>f. safe (frontend_refs (fst f))) (safe {})" for listener server_name sv spec
  proof (rule ensures_bind [OF ensures_change [where Q = "safe (server_refs sv)"]])
    fix s :: "('y, 't) service" assume s: "safe (server_refs sv) s"
    then have old: "\<forall>(n, sv) \<in> set ps. server_refs sv \<subseteq> names s" if "(k, c, ps) \<in> set (service_listeners s)" for k c ps
      using that unfolding safe_def no_dangling_def by blast
    have new: "server_refs sv \<subseteq> names s" using s by (simp add: safe_def)
    show "safe (server_refs sv) (s\<lparr>service_listeners := map (\<lambda>(k, c, preparers).
        if k = listener then (k, c, preparers @ [(server_name, sv)]) else (k, c, preparers)) (service_listeners s)\<rparr>)"
    proof (rule safe_listeners [OF s], rule ballI)
      fix x assume "x \<in> set (map (\<lambda>(k, c, preparers).
        if k = listener then (k, c, preparers @ [(server_name, sv)]) else (k, c, preparers)) (service_listeners s))"
      then obtain k c ps where ps: "(k, c, ps) \<in> set (service_listeners s)"
          "x = (k, c, if k = listener then ps @ [(server_name, sv)] else ps)"
        by (force split: if_splits)
      then show "case x of (spec, c, ps) \<Rightarrow> \<forall>(n, sv) \<in> set ps. server_refs sv \<subseteq> names s"
        using old [OF ps(1)] new by auto
    qed
  qed (simp add: ensures_return)
  have built: "ensures (safe {}) (act_bind (ask_service (\<lambda>s. map fst (built s))) (\<lambda>ns. act_bind (act_lift (?sv name load ns)) f)) Q (safe {})"
    if "\<And>sv. ensures (safe (server_refs sv)) (f sv) Q (safe {})" for name load f Q
    apply (rule ensures_bind [where R = "\<lambda>ns. safe (set ns)"])
     apply (simp add: ensures_def ask_service_def safe_def names_def)
    apply (rule ensures_bind [where R = "\<lambda>sv. safe (server_refs sv)"])
     apply (auto simp: ensures_def act_lift_def safe_def split: sum.split dest!: refs) [1]
    apply (rule that)
    done
  show ?thesis
    unfolding create_http3_server_def Let_def
    apply (rule safe_bind [OF safe_lift], rule safe_bind [OF safe_lift], rule safe_bind [OF safe_lift],
        rule safe_bind [OF safe_lift], rule safe_bind [OF safe_lift])
    apply (rule safe_bind [OF safe_listener], rule built, rule last)
    done
qed

lemma frontend_factory_makes: "frontend_factory w t = Some (create, hlp) \<Longrightarrow> makes_frontend (create cfg)"
  using makes_cloning makes_yaml_mediator makes_server by (auto simp: frontend_factory_def split: if_splits)

lemma safe_frontend_built:
  assumes "safe (frontend_refs (fst f)) s"
  shows "safe {} (s\<lparr>built_frontends := omap_insert name f (built_frontends s)\<rparr>)"
  using assms by (intro safe_frontends ball_omap_insert) (auto simp: safe_def no_dangling_def)

lemma safe_construct_frontend: "ensures (safe {}) (construct_frontend w name cfg errors) (\<lambda>_. safe {}) (safe {})"
proof (cases "require_string_property (w_yaml w) cfg ''type''")
  case (Inl e)
  then show ?thesis unfolding construct_frontend_def by (cases e) (auto intro: ensures_return safe_throw)
next
  case (Inr t)
  show ?thesis
  proof (cases "frontend_factory w t")
    case None
    then show ?thesis unfolding construct_frontend_def Inr by (simp add: ensures_return)
  next
    case (Some f)
    then obtain create hlp where f: "frontend_factory w t = Some (create, hlp)" by (cases f) auto
    have store: "ensures (safe {}) (act_bind (create cfg) (\<lambda>f.
        act_bind (change_service (\<lambda>s. s\<lparr>built_frontends := omap_insert name f (built_frontends s)\<rparr>)) (\<lambda>_. act_return errors)))
        (\<lambda>_. safe {}) (safe {})"
      apply (rule ensures_bind [OF frontend_factory_makes [OF f]])
      apply (rule ensures_bind [OF ensures_change [where Q = "safe {}"]])
       apply (erule safe_frontend_built)
      apply (simp add: ensures_return)
      done
    show ?thesis
      unfolding construct_frontend_def Inr f sum.case option.case prod.case
      by (rule ensures_catch [OF store]) (simp_all add: ensures_return)
  qed
qed

lemma safe_construct_frontends: "ensures (safe {}) (construct_frontends w) (\<lambda>_. safe {}) (safe {})"
proof -
  have "ensures (safe {}) (construct_frontends_in w ns errors) (\<lambda>_. safe {}) (safe {})" for ns errors
    by (induction ns arbitrary: errors)
      (auto intro!: ensures_return safe_bind [OF safe_lift] ensures_bind [OF safe_construct_frontend] split: option.split)
  then show ?thesis
    unfolding construct_frontends_def
    by (intro safe_bind [OF safe_lift]) (auto split: option.split intro!: safe_bind ensures_return intro: safe_throw)
qed

lemma safe_each: "(\<And>x. ensures (safe B) (f x) (\<lambda>_. safe B) (safe {})) \<Longrightarrow>
    ensures (safe B) (act_each f xs) (\<lambda>_. safe B) (safe {})"
  by (induction xs) (auto intro: ensures_return safe_bind)

lemma safe_initialize: "ensures (safe {}) (initialize w test_only) (\<lambda>_. safe {}) (safe {})"
  unfolding initialize_def
  apply (intro safe_bind [OF safe_ask] ensures_if ensures_return safe_bind [OF safe_construct_backends]
      safe_bind [OF safe_construct_frontends])
    apply assumption
   apply assumption
  apply (clarsimp split: prod.split)
  apply (intro safe_bind safe_each safe_lift ensures_change)
  apply (simp add: safe_def no_dangling_def names_def)
  done

section \<open>Making a backend leaves the others\<close>

abbreviation keeps :: "(string \<times> backend_object) list \<Rightarrow> ('y, 't, 'a) service_act \<Rightarrow> bool" where
  "keeps X m \<equiv> ensures (\<lambda>s. built s = X) m (\<lambda>_ s. built s = X) (\<lambda>s. built s = X)"

lemma keeps_basic:
  "keeps X (act_return x)" "keeps X (act_throw e)" "keeps X (act_lift r)" "keeps X (ask_service f)" "keeps X (find_backend name)"
  "keeps X (change_service (\<lambda>s. s\<lparr>service_connectors := cs s\<rparr>))"
  "keeps X (change_service (\<lambda>s. s\<lparr>client_updaters := us s\<rparr>))"
  "keeps X (change_service (\<lambda>s. if c s then s else s\<lparr>client_updaters := us s\<rparr>))"
  by (auto simp: ensures_def act_return_def act_throw_def act_lift_def ask_service_def find_backend_def change_service_def
      split: sum.split)

lemma keeps_bind: "keeps X m \<Longrightarrow> (\<And>x. keeps X (f x)) \<Longrightarrow> keeps X (act_bind m f)"
  by (rule ensures_bind)

lemmas keeps_rules = keeps_basic keeps_bind ensures_if

lemma keeps_underlying: "keeps X (underlying w cfg pre post)"
  unfolding underlying_def by (intro keeps_rules)

lemma keeps_children: "keeps X (mount_children w root l cs st)"
proof (induction cs arbitrary: st)
  case Nil
  then show ?case by (cases st) (simp add: keeps_basic)
next
  case (Cons c cs)
  then show ?case
    by (cases st) (auto intro!: keeps_bind keeps_basic split: option.split sum.split err.split)
qed

lemma keeps_connector: "keeps X (obtain_quic_connector w c)"
  unfolding obtain_quic_connector_def by (intro keeps_rules)

lemma keeps_updater: "keeps X (obtain_client_updater w c)"
  unfolding obtain_client_updater_def by (intro keeps_rules)

lemma keeps_client: "keeps X (create_client_backend w cfg)"
  unfolding create_client_backend_def Let_def
  by (intro keeps_connector keeps_updater keeps_underlying keeps_rules)

lemma factory_keeps: "backend_factory w t = Some (create, hlp) \<Longrightarrow> keeps X (create cfg)"
  by (auto simp: backend_factory_def create_simple_backend_def create_transactional_backend_def
      create_threadsafe_backend_def create_redirected_backend_def create_composite_backend_def create_file_backend_def
      split: if_splits prod.splits
      intro!: keeps_underlying keeps_children keeps_client keeps_bind keeps_basic)

text \<open>One more backend, or one more error.\<close>

lemma construct_one_adds:
  "ensures (\<lambda>s. names s = N) (construct_one w name cfg errors)
     (\<lambda>errors' s. N \<subseteq> names s \<and> names s \<subseteq> insert name N \<and> (errors' = [] \<longrightarrow> errors = [] \<and> name \<in> names s)) (\<lambda>_. True)"
proof (cases "require_string_property (w_yaml w) cfg ''type''")
  case (Inl e)
  then show ?thesis unfolding construct_one_def by (cases e) (auto intro: ensures_return ensures_throw)
next
  case (Inr t)
  show ?thesis
  proof (cases "backend_factory w t")
    case None
    then show ?thesis unfolding construct_one_def Inr by (auto intro: ensures_return)
  next
    case (Some f)
    then obtain create hlp where f: "backend_factory w t = Some (create, hlp)" by (cases f) auto
    have kept: "names s' = N" if "create cfg s = (s', es, r)" "names s = N" for s s' es r
    proof -
      have "built s' = built s"
        using factory_keeps [OF f, of "built s" cfg, unfolded ensures_def, rule_format, OF refl] that(1)
        by (simp split: sum.splits)
      then show ?thesis using that(2) by (simp add: names_def)
    qed
    show ?thesis
      unfolding construct_one_def Inr f sum.case option.case prod.case ensures_def
      by (auto simp: act_catch_def act_bind_def change_service_def act_return_def set_omap_insert
          split: prod.splits sum.splits dest!: kept) (auto simp: names_def set_omap_insert)
  qed
qed

lemma construct_in_order_adds:
  "ensures (\<lambda>s. names s = N) (construct_in_order w cfgs order errors)
     (\<lambda>errors' s. names s \<subseteq> N \<union> set order \<and> (errors' = [] \<longrightarrow> errors = [] \<and> N \<union> set order \<subseteq> names s)) (\<lambda>_. True)"
proof (induction order arbitrary: N errors)
  case Nil
  then show ?case by (auto intro: ensures_return)
next
  case (Cons name order)
  have step: "ensures (\<lambda>s. names s = N) (act_bind (construct_one w name cfg errors) (\<lambda>errors'. construct_in_order w cfgs order errors'))
     (\<lambda>errors' s. names s \<subseteq> N \<union> set (name # order) \<and> (errors' = [] \<longrightarrow> errors = [] \<and> N \<union> set (name # order) \<subseteq> names s))
     (\<lambda>_. True)" for cfg
  proof (rule ensures_bind [OF construct_one_adds])
    fix errors1
    show "ensures (\<lambda>s. N \<subseteq> names s \<and> names s \<subseteq> insert name N \<and> (errors1 = [] \<longrightarrow> errors = [] \<and> name \<in> names s))
        (construct_in_order w cfgs order errors1)
        (\<lambda>errors' s. names s \<subseteq> N \<union> set (name # order) \<and> (errors' = [] \<longrightarrow> errors = [] \<and> N \<union> set (name # order) \<subseteq> names s))
        (\<lambda>_. True)"
      unfolding ensures_def
    proof (intro allI impI)
      fix s :: "('a, 'b) service"
      assume s: "N \<subseteq> names s \<and> names s \<subseteq> insert name N \<and> (errors1 = [] \<longrightarrow> errors = [] \<and> name \<in> names s)"
      then show "case construct_in_order w cfgs order errors1 s of (s', es, Inl e) \<Rightarrow> True
        | (s', es, Inr errors') \<Rightarrow> names s' \<subseteq> N \<union> set (name # order) \<and>
            (errors' = [] \<longrightarrow> errors = [] \<and> N \<union> set (name # order) \<subseteq> names s')"
        using Cons.IH [of "names s" errors1, unfolded ensures_def, rule_format, OF refl]
        by (auto split: prod.splits sum.splits)
    qed
  qed
  then show ?case by (auto split: option.split intro: ensures_throw)
qed

section \<open>Shared facts\<close>

lemma all_dependencies_mem:
  assumes "all_dependencies y cfgs = Inr ds" and "(n, dl) \<in> set ds"
  shows "\<exists>cfg. (n, cfg) \<in> set cfgs \<and> get_backend_dependencies y cfg = Inr dl"
  using assms unfolding all_dependencies_def
proof (induction cfgs arbitrary: ds)
  case (Cons c cfgs)
  then show ?case by (cases c) (auto simp: rbind_Inr_iff, blast+)
qed simp

lemma first_cycle_outcome:
  assumes "closed ds" and "set nodes \<subseteq> fst ` set ds"
  shows "(\<exists>c. first_cycle ds nodes = Some (Some c) \<and> is_cycle ds c) \<or> first_cycle ds nodes = Some None"
  using assms(2)
proof (induction nodes)
  case (Cons node nodes)
  have "card (fst ` set ds) < Suc (length ds)" using card_image_le [of "set ds" fst] card_length [of ds] by simp
  then have "find_cycle (Suc (length ds)) ds node ({}, []) \<noteq> None"
    using cycle_search_ends(1) [of ds "fst ` set ds" node "({}, [])" "Suc (length ds)"] Cons.prems by simp
  then obtain st m where found: "find_cycle (Suc (length ds)) ds node ({}, []) = Some (st, m)" by auto
  show ?case
  proof (cases m)
    case None
    then show ?thesis using Cons found by (simp del: find_cycle.simps)
  next
    case (Some c)
    then have "is_cycle ds c" using cycle_found(1) found by (fastforce simp: chain_def)
    then show ?thesis using found Some by (simp del: find_cycle.simps)
  qed
qed simp

lemma topological_sort_set:
  assumes "topological_sort y cfgs = Inr order" and "distinct (map fst cfgs)"
  shows "set order = fst ` set cfgs"
proof -
  obtain ds where ds: "all_dependencies y cfgs = Inr ds" "missing_deps ds = []"
    using assms(1) by (auto simp: topological_sort_def rbind_Inr_iff split: if_splits)
  then have c: "closed ds" using closed_iff [of ds] all_dependencies_names [OF ds(1)] assms(2) by simp
  show ?thesis
    using assms(1) unfolding topological_sort_closed [OF assms(2) ds(1) c] by (simp add: rbind_Inr_iff split: if_splits)
qed

lemma read_chunks_whole:
  assumes "\<And>off n. rd off n = Some (take n (drop off content))"
  shows "length content \<le> (i + k) * 1194 \<Longrightarrow> concat (map vs_bytes (read_chunks_from rd (length content) i k)) = drop (i * 1194) content \<and>
    (\<forall>c \<in> set (read_chunks_from rd (length content) i k). vs_size c \<le> 1194 \<and> length (vs_chunks c) = 1)"
proof (induction k arbitrary: i)
  case 0
  then show ?case by simp
next
  case (Suc k)
  show ?case
  proof (cases "min 1194 (length content - i * 1194) = 0")
    case True
    then show ?thesis by (simp add: chunk_size_def)
  next
    case False
    let ?bs = "take (min 1194 (length content - i * 1194)) (drop (i * 1194) content)"
    have bs: "?bs = take 1194 (drop (i * 1194) content)" by (simp add: min_def)
    have one: "vs_of_data (Payload_Header 0 0 (of_nat (length ?bs))) ?bs =
        \<lparr>vs_chunks = [\<lparr>vc_head = Payload_Header 0 0 (of_nat (length ?bs)), vc_data = ?bs\<rparr>], vs_type = 2\<rparr>"
      by (simp add: vs_of_data_def chunk_size_def)
    have "drop (Suc i * 1194) content = drop 1194 (drop (i * 1194) content)" by (simp add: add.commute)
    then have "?bs @ drop (Suc i * 1194) content = drop (i * 1194) content"
      unfolding bs by (simp only: append_take_drop_id)
    then show ?thesis
      using False Suc.IH [of "Suc i"] Suc.prems assms one
      by (simp add: chunk_size_def Let_def vs_bytes_def vs_size_def del: append_take_drop_id)
  qed
qed

section \<open>Properties\<close>

text \<open>
  C7: whatever the configuration says and whatever goes wrong on the way, a service refers only to backends
  it has built: its wrappers, mounts, clients, mediators and the routes of its servers.
\<close>

theorem references_built: "no_dangling (fst (initialize w test_only service_new))"
proof -
  have "safe {} service_new" by (simp add: safe_def no_dangling_def service_new_def)
  then have "safe {} (fst (initialize w test_only service_new))"
    using safe_initialize [of w test_only, unfolded ensures_def, rule_format, of service_new]
    by (cases "initialize w test_only service_new") (auto split: sum.splits)
  then show ?thesis by (simp add: safe_def)
qed

text \<open>
  C8: the order a service builds its backends in lists every configured backend once, and each after all the
  backends it depends on.
\<close>

theorem construction_order:
  assumes "topological_sort y cfgs = Inr order" and "distinct (map fst cfgs)"
  shows "distinct order \<and> set order = fst ` set cfgs \<and>
    (\<forall>xs n ys. order = xs @ n # ys \<longrightarrow>
      (\<exists>cfg ds. (n, cfg) \<in> set cfgs \<and> get_backend_dependencies y cfg = Inr ds \<and> set ds \<subseteq> set xs))"
proof -
  obtain ds where ds: "all_dependencies y cfgs = Inr ds" "missing_deps ds = []"
    using assms(1) by (auto simp: topological_sort_def rbind_Inr_iff split: if_splits)
  have names: "map fst ds = map fst cfgs" by (rule all_dependencies_names [OF ds(1)])
  then have c: "closed ds" using closed_iff [of ds] ds(2) assms(2) by simp
  define R where "R = kahn ds (in_degree ds) (filter (\<lambda>n. in_degree ds n = 0) (map fst ds)) []"
  note R = kahn_result [OF c, folded R_def]
  have order: "order = R" "set R = fst ` set cfgs"
    using topological_sort_closed [OF assms(2) ds(1) c] assms(1)
    by (auto simp: R_def rbind_def split: if_splits sum.splits)
  have "\<exists>cfg dl. (n, cfg) \<in> set cfgs \<and> get_backend_dependencies y cfg = Inr dl \<and> set dl \<subseteq> set xs"
    if split: "order = xs @ n # ys" for xs n ys
  proof -
    have "n \<in> fst ` set cfgs" using order split by (metis in_set_conv_decomp)
    then obtain dl where dl: "(n, dl) \<in> set ds" by (metis (no_types, lifting) imageE list.set_map names prod.collapse)
    then obtain cfg where "(n, cfg) \<in> set cfgs" "get_backend_dependencies y cfg = Inr dl"
      using all_dependencies_mem [OF ds(1)] by blast
    then show ?thesis using R(4) [OF _ dl] split order(1) by blast
  qed
  then show ?thesis using R(1) order by blast
qed

text \<open>
  C25: a set of configurations has an order exactly when every dependency is configured, none is listed
  twice, and they form no cycle.
\<close>

theorem order_exists_iff:
  assumes "distinct (map fst cfgs)" and "all_dependencies y cfgs = Inr ds"
  shows "(\<exists>order. topological_sort y cfgs = Inr order) \<longleftrightarrow>
    missing_deps ds = [] \<and> (\<forall>(n, dl) \<in> set ds. distinct dl) \<and> acyclic (edges ds)"
proof (cases "missing_deps ds = []")
  case False
  then show ?thesis using assms(2) by (simp add: topological_sort_def)
next
  case True
  have names: "map fst ds = map fst cfgs" by (rule all_dependencies_names [OF assms(2)])
  then have c: "closed ds" using closed_iff [of ds] True assms(1) by simp
  have keys: "fst ` set ds = fst ` set cfgs" by (metis list.set_map names)
  define R where "R = kahn ds (in_degree ds) (filter (\<lambda>n. in_degree ds n = 0) (map fst ds)) []"
  note R = kahn_result [OF c, folded R_def]
  have "(\<exists>order. topological_sort y cfgs = Inr order) \<longleftrightarrow> set R = fst ` set cfgs"
    unfolding topological_sort_closed [OF assms c, folded R_def] by (auto simp: rbind_Inr_iff)
  also have "\<dots> \<longleftrightarrow> (\<forall>(n, dl) \<in> set ds. distinct dl) \<and> acyclic (edges ds)"
  proof
    assume all: "set R = fst ` set cfgs"
    have "distinct dl" if "(n, dl) \<in> set ds" for n dl
    proof -
      have "n \<in> set R" using that all keys by force
      then show ?thesis using R(3) [OF that] by simp
    qed
    moreover have "acyclic (edges ds)" by (rule ordered_acyclic [OF c _ R(4)]) (simp_all add: all keys)
    ultimately show "(\<forall>(n, dl) \<in> set ds. distinct dl) \<and> acyclic (edges ds)" by blast
  next
    assume "(\<forall>(n, dl) \<in> set ds. distinct dl) \<and> acyclic (edges ds)"
    then show "set R = fst ` set cfgs" using kahn_complete [OF c, folded R_def] keys by simp
  qed
  finally show ?thesis using True by simp
qed

text \<open>
  C26: a backend that names the same dependency twice, such as a composite whose root is also mounted in it,
  is reported as a circular dependency; a cycle the report shows is one.
\<close>

theorem repeated_dependency_rejected:
  assumes "distinct (map fst cfgs)" and "all_dependencies y cfgs = Inr ds" and "missing_deps ds = []"
    and "(n, dl) \<in> set ds" and "\<not> distinct dl"
  shows "(\<exists>c. is_cycle ds c \<and> topological_sort y cfgs =
      Inl (Config_Error (''Circular dependency detected in backend configuration. Cycle: '' @ join_with '' -> '' c))) \<or>
    (\<exists>ns. n \<in> set ns \<and> topological_sort y cfgs =
      Inl (Config_Error (''Circular dependency detected in backend configuration. Problematic backends: '' @ join_with '', '' ns)))"
proof -
  have names: "map fst ds = map fst cfgs" by (rule all_dependencies_names [OF assms(2)])
  then have c: "closed ds" using closed_iff [of ds] assms(1,3) by simp
  define R where "R = kahn ds (in_degree ds) (filter (\<lambda>n. in_degree ds n = 0) (map fst ds)) []"
  define rest where "rest = filter (\<lambda>n. n \<notin> set R) (map fst cfgs)"
  have "n \<notin> set R" using kahn_result(3) [OF c assms(4)] assms(5) by (simp add: R_def)
  moreover have "n \<in> set (map fst cfgs)" using assms(4) by (force simp: names [symmetric])
  ultimately have rest: "n \<in> set rest" and sort: "topological_sort y cfgs = rbind (cycle_message ds rest) (\<lambda>m. Inl (Config_Error m))"
    using topological_sort_closed [OF assms(1,2) c] by (auto simp: R_def rest_def)
  have known: "set rest \<subseteq> fst ` set ds" using names by (metis filter_is_subset list.set_map rest_def)
  have "(\<exists>c. first_cycle ds rest = Some (Some c) \<and> is_cycle ds c) \<or> first_cycle ds rest = Some None"
    by (rule first_cycle_outcome [OF c known])
  moreover have "rest \<noteq> []" using rest by auto
  ultimately show ?thesis using sort rest by (auto simp: cycle_message_def)
qed

text \<open>
  C27: when the construction of the backends succeeds, the backends built are exactly those configured.
\<close>

theorem all_backends_built:
  assumes "construct_backends w service_new = (s, es, Inr ())" and "w_node w (w_label w @ ''/backends'') = Inr (Some n)"
    and "collect_configs w (w_label w @ ''/backends/'') (child_names n) [] = Inr cfgs" and "distinct (map fst cfgs)"
  shows "fst ` set (built s) = fst ` set cfgs"
proof -
  obtain order where order: "topological_sort (w_yaml w) cfgs = Inr order"
      "construct_in_order w cfgs order [] service_new = (s, es, Inr [])"
    using assms(1-3)
    by (fastforce simp: construct_backends_def act_bind_def act_lift_def act_throw_def act_return_def
        split: sum.splits if_splits prod.splits)
  have "names s = set order"
    using construct_in_order_adds [of "{}" w cfgs order "[]", unfolded ensures_def, rule_format, of service_new] order(2)
    by (auto simp: names_def service_new_def)
  then show ?thesis using topological_sort_set [OF order(1) assms(4)] by (simp add: names_def)
qed

text \<open>
  C28: a static file is served whole: the chunks read from it, each small enough for one packet, hold its
  bytes in order.
\<close>

theorem file_read_whole:
  assumes "w_file_size w path = Some (length content)"
    and "\<And>off k. w_file_read w path off k = Some (take k (drop off content))"
  shows "concat (map vs_bytes (read_file_chunks w path)) = content \<and>
    (\<forall>c \<in> set (read_file_chunks w path). vs_size c \<le> 1194 \<and> length (vs_chunks c) = 1)"
  using read_chunks_whole [of "w_file_read w path" content 0 "(1193 + length content) div 1194"] assms
  by (simp add: read_file_chunks_def chunk_size_def)

section \<open>The properties at work\<close>

definition no_yaml :: "unit yaml" where
  "no_yaml = \<lparr>y_load = (\<lambda>_. Inl (Yaml_Error [])), y_get = (\<lambda>_ _. Inr None), y_string = (\<lambda>_. Inr []),
     y_int64 = (\<lambda>_. Inr 0), y_uint64 = (\<lambda>_. Inr 0), y_uint16 = (\<lambda>_. Inr 0), y_bool = (\<lambda>_. Inr False),
     y_out_of_range = []\<rparr>"

definition store_cfg :: vnode where
  "store_cfg = config_node ''config/backends/store'' [((''string'', ''type''), ''simple'')] []"

definition cache_cfg :: vnode where
  "cache_cfg = config_node ''config/backends/cache''
     [((''string'', ''type''), ''threadsafe''), ((''string'', ''backend''), ''store'')] []"

definition zoo_cfg :: vnode where
  "zoo_cfg = config_node ''config/backends/zoo''
     [((''string'', ''type''), ''composite''), ((''string'', ''backend''), ''store'')] [''store'']"

lemma example_types: "fixed_size ''string'' = None"
  by (simp add: fixed_size_def)

lemma store_props: "config_props store_cfg [((''string'', ''type''), ''simple'')]"
  unfolding store_cfg_def by (rule config_node_props) (simp_all add: example_types)

lemma cache_props: "config_props cache_cfg [((''string'', ''type''), ''threadsafe''), ((''string'', ''backend''), ''store'')]"
  unfolding cache_cfg_def by (rule config_node_props) (simp_all add: example_types)

lemma zoo_props: "config_props zoo_cfg [((''string'', ''type''), ''composite''), ((''string'', ''backend''), ''store'')]"
  unfolding zoo_cfg_def by (rule config_node_props) (simp_all add: example_types)

lemma example_settings [simp]:
  "require_string_property y store_cfg ''type'' = Inr ''simple''"
  "require_string_property y cache_cfg ''type'' = Inr ''threadsafe''"
  "require_string_property y cache_cfg ''backend'' = Inr ''store''"
  "require_string_property y zoo_cfg ''type'' = Inr ''composite''"
  "require_string_property y zoo_cfg ''backend'' = Inr ''store''"
  using required_present [OF store_props, of "''type''" "''simple''" y]
    required_present [OF cache_props, of "''type''" "''threadsafe''" y]
    required_present [OF cache_props, of "''backend''" "''store''" y]
    required_present [OF zoo_props, of "''type''" "''composite''" y]
    required_present [OF zoo_props, of "''backend''" "''store''" y]
  by (simp_all add: has_setting_def example_types)

lemma example_children [simp]: "child_names zoo_cfg = [''store'']"
  by (simp add: zoo_cfg_def)

lemma cache_dependencies:
  "all_dependencies y [(''cache'', cache_cfg), (''store'', store_cfg)] = Inr [(''cache'', [''store'']), (''store'', [])]"
  by (simp add: all_dependencies_def get_backend_dependencies_def)

lemma zoo_dependencies:
  "all_dependencies y [(''store'', store_cfg), (''zoo'', zoo_cfg)] = Inr [(''store'', []), (''zoo'', [''store'', ''store''])]"
  by (simp add: all_dependencies_def get_backend_dependencies_def)

lemma cache_order:
  "topological_sort y [(''cache'', cache_cfg), (''store'', store_cfg)] = Inr [''store'', ''cache'']"
  by (simp add: topological_sort_def cache_dependencies missing_deps_def known_def in_degree_def Let_def)

theorem construction_order_witness:
  "\<exists>cfg ds. (''cache'', cfg) \<in> set [(''cache'', cache_cfg), (''store'', store_cfg)] \<and>
     get_backend_dependencies no_yaml cfg = Inr ds \<and> set ds \<subseteq> set [''store'']"
proof -
  have "distinct (map fst [(''cache'', cache_cfg), (''store'', store_cfg)])" by simp
  note order = construction_order [OF cache_order [of no_yaml] this]
  show ?thesis
    by (rule order [THEN conjunct2, THEN conjunct2, rule_format, of "[''store'']" "''cache''" "[]"]) simp
qed

theorem order_exists_iff_witness:
  "(\<exists>order. topological_sort no_yaml [(''store'', store_cfg), (''zoo'', zoo_cfg)] = Inr order) \<longleftrightarrow>
     missing_deps [(''store'', []), (''zoo'', [''store'', ''store''])] = [] \<and>
     (\<forall>(n, dl) \<in> set [(''store'', []), (''zoo'', [''store'', ''store''])]. distinct dl) \<and>
     acyclic (edges [(''store'', []), (''zoo'', [''store'', ''store''])])"
  by (rule order_exists_iff [OF _ zoo_dependencies]) simp

theorem repeated_dependency_rejected_witness:
  "(\<exists>c. is_cycle [(''store'', []), (''zoo'', [''store'', ''store''])] c \<and>
     topological_sort no_yaml [(''store'', store_cfg), (''zoo'', zoo_cfg)] =
      Inl (Config_Error (''Circular dependency detected in backend configuration. Cycle: '' @ join_with '' -> '' c))) \<or>
    (\<exists>ns. ''zoo'' \<in> set ns \<and> topological_sort no_yaml [(''store'', store_cfg), (''zoo'', zoo_cfg)] =
      Inl (Config_Error (''Circular dependency detected in backend configuration. Problematic backends: '' @ join_with '', '' ns)))"
  by (rule repeated_dependency_rejected [OF _ zoo_dependencies, where dl = "[''store'', ''store'']"])
    (simp_all add: missing_deps_def known_def)

definition example_clock :: "unit clock" where
  "example_clock = \<lparr>clock_zero = (), clock_two = (), clock_unset = (\<lambda>_. True), clock_due = (\<lambda>_ _ _. False)\<rparr>"

definition example_world :: "(unit, unit) world" where
  "example_world = \<lparr>w_yaml = no_yaml,
     w_node = (\<lambda>l. Inr (
       if l = ''config'' then Some (config_node l [] [''backends''])
       else if l = ''config/backends'' then Some (config_node l [] [''cache'', ''store''])
       else if l = ''config/backends/cache'' then Some cache_cfg
       else if l = ''config/backends/store'' then Some store_cfg
       else None)),
     w_label = ''config'', w_connector_settings = (\<lambda>_. Inr ()), w_listener_settings = (\<lambda>_. Inr ()),
     w_holds = (\<lambda>_ _. Inr False), w_mediate = (\<lambda>_. Inr ()), w_listen = (\<lambda>_. Inr ()), w_connect = (\<lambda>_. Inr ()),
     w_clock = example_clock, w_fresh = [], w_file_size = (\<lambda>_. Some 11),
     w_file_read = (\<lambda>_ off k. Some (take k (drop off ''hello world''))), w_depth = 10\<rparr>"

theorem all_backends_built_witness:
  "\<exists>s. construct_backends example_world service_new = (s, [], Inr ()) \<and> fst ` set (built s) = {''cache'', ''store''}"
proof -
  let ?s = "service_new\<lparr>built := [(''cache'', Threadsafe_Object ''store''), (''store'', Simple_Object)]\<rparr> :: (unit, unit) service"
  have collected: "collect_configs example_world (w_label example_world @ ''/backends/'') [''cache'', ''store''] [] =
      Inr [(''cache'', cache_cfg), (''store'', store_cfg)]"
    by (simp add: example_world_def)
  have node: "w_node example_world (w_label example_world @ ''/backends'') =
      Inr (Some (config_node ''config/backends'' [] [''cache'', ''store'']))"
    by (simp add: example_world_def)
  have root: "w_node example_world (w_label example_world) = Inr (Some (config_node ''config'' [] [''backends'']))"
    by (simp add: example_world_def)
  have run: "construct_backends example_world service_new = (?s, [], Inr ())"
    unfolding construct_backends_def root node
    by (simp del: collect_configs.simps add: act_bind_def act_lift_def act_return_def collected cache_order construct_one_def backend_factory_def
        create_simple_backend_def create_threadsafe_backend_def underlying_def find_backend_def ask_service_def
        change_service_def act_catch_def service_new_def)
  show ?thesis
    using all_backends_built [OF run node, of "[(''cache'', cache_cfg), (''store'', store_cfg)]"] collected run by auto
qed

theorem file_read_whole_witness:
  "concat (map vs_bytes (read_file_chunks example_world ''index.html'')) = ''hello world''"
  using file_read_whole [of example_world "''index.html''" "''hello world''"] by (simp add: example_world_def)

end
