(* ===== verification/Spec2Isabelle.thy ===== *)
theory Spec2Isabelle
  imports Node_Properties Composite_Backend Updater_Properties Mediator_Properties Service_Properties
begin

text \<open>
  A verification library for the World Wide Anthropomorphic Tree Protocol, the C++ program under
  \<open>src/common\<close>. A tree of labelled nodes is kept by a backend. Backends are stacked (transactions, locks),
  moved below a prefix and mounted on each other; one is offered to the network by a server route and used
  through a client backend, which is a backend again; mediators keep two of them alike; a service builds all
  of these from a configuration. A path below is relative to \<open>src/common\<close>.

  Conventions (\<open>Prelude\<close>). Strings are lists of bytes; \<open>uint8_t\<close> and \<open>uint16_t\<close> are words; a \<open>size_t\<close> is a
  natural number, with the remainder modulo \<open>2^64\<close> written where the code can wrap. A C++ exception is a
  value \<open>Inl e\<close>. A failed \<open>assert\<close> and a use of the standard library outside its preconditions are such
  values too, and no \<open>catch\<close> of the model catches them. A \<open>std::map\<close> is an association list kept sorted by
  key. An operation that changes something returns the new state also when it throws. What is not under
  \<open>src\<close> is an argument: the record \<open>yaml\<close> for yaml-cpp, the clock, the files, the checks of the QUIC
  library.
\<close>

text \<open>
  Data.
  \<^item> \<open>Shared_Chunk\<close>, \<open>Span_Values\<close>, \<open>Span_Access\<close>, \<open>Span_Slices\<close>, \<open>Span_Properties\<close>:
    \<open>transport/include/shared_chunk.h\<close>. A span refers to pieces of 1200-byte chunks. On the first level the
    chunks lie in an explicit store (\<open>pool\<close>) and a write through one span is seen by its copies; on the
    second (\<open>vspan\<close>) only the contents count. The lemmas \<open>abs_...\<close> are the refinement between them; the
    others are about cuts, typed reads and writes, iteration, and spans put together from bytes off the wire
    in any split.
  \<^item> \<open>Tree_Node\<close>, \<open>Node_Properties\<close>: \<open>backend_cpp/interface/tree_node.h\<close> and \<open>tree_node.cpp\<close>. Versions,
    nodes, and every property operation on the store, so that the effect of a write on copies of a node shows.
  \<^item> \<open>Text_Streams\<close>, \<open>Tree_Streams\<close>: the part of \<open>std::istream\<close> the program uses, and the text form of spans,
    versions and nodes, with its round trip.

  Backends.
  \<^item> \<open>Memory_Tree\<close>: \<open>backend_cpp/memory/src/memory_tree.cpp\<close>. The tree is an ordered map keyed by the labels
    of its nodes; deletion, the queries, transactions.
  \<^item> \<open>Backend_Interface\<close>: \<open>interface/backend.h\<close>. A \<open>Backend&\<close> is a record of operations over a state; the
    locale \<open>tree_backend\<close> is the contract: an invariant upserts and deletions keep and a view as a map
    which reads, upserts and deletions agree with. Callbacks are values, and an operation returns those it invoked.
  \<^item> \<open>Simple_Backend\<close>, \<open>Transactional_Backend\<close>, \<open>Threadsafe_Backend\<close> (\<open>memory/src\<close>) and
    \<open>Redirected_Backend\<close>, \<open>Composite_Backend\<close> (\<open>backend_cpp/structure\<close>): one state and one definition per
    method for each of them. The first four are interpretations of \<open>tree_backend\<close>, three of them over the first; the
    locale \<open>mounted\<close> takes two backends with the contract and gives the two, one mounted on the other, as
    one map.

  The protocol.
  \<^item> \<open>Http3_Helpers\<close>, \<open>Http3_Codecs\<close>: \<open>interface/http3_tree_message_helpers.cpp\<close>. The locale \<open>codec\<close> states that
    decoding takes exactly what encoding wrote, whatever follows, and that no proper prefix passes for complete.
  \<^item> \<open>Http3_Message\<close>, \<open>Http3_Transport\<close>, \<open>Http3_Calls\<close>: \<open>interface/http3_tree_message.cpp\<close>. The state machine of
    a message, the locale \<open>transport\<close> (a request or answer given in batches arrives as it was sent), and the
    fourteen calls as a table.
  \<^item> \<open>Http3_Server\<close>, \<open>Server_Properties\<close>, \<open>Remote_Calls\<close>: \<open>frontend/http3_server_cpp\<close>. The route of one URL
    with its journal; the fourteen branches of its switch are one pattern, the journal has no gaps, and a call
    through the wire is the call on the backend.
  \<^item> \<open>Http3_Client\<close>, \<open>Client_Properties\<close>, \<open>Client_Waiting\<close>, \<open>Client_Server\<close>: \<open>backend_cpp/http3_client\<close>.
    The client backend: its queue of requests, the replica it keeps by reading the journal, threads that wait
    for an answer as a step relation, and a client against a server.

  Transport, mediator and service.
  \<^item> \<open>Http_Request\<close>, \<open>Stream_Queues\<close>, \<open>Queue_Properties\<close>: \<open>transport/include/request.h\<close>,
    \<open>transport/src/quic_connector.cpp\<close>, \<open>quic_listener.cpp\<close> and \<open>tcp_communication.cpp\<close>. The queues of chunks
    per stream, the numbers of streams, handlers and preparers, and the planning of what goes to the wire.
  \<^item> \<open>Client_Updater\<close>, \<open>Updater_Properties\<close>: the worker of the clients (\<open>http3_client_backend.cpp\<close>). The locale
    \<open>connection\<close> is what it needs of a \<open>Communication\<close>; the queues of the connector interpret it.
  \<^item> \<open>Cloning_Mediator\<close>, \<open>Mediator_Properties\<close>: \<open>frontend/mediator_cpp/cloning_mediator.cpp\<close>.
  \<^item> \<open>Service_Config\<close>, \<open>Service_Order\<close>, \<open>Service_Build\<close>, \<open>Service_Properties\<close>:
    \<open>frontend/wwatp_service_cpp/wwatp_service.cpp\<close>. Reading settings, the order of construction by Kahn's
    algorithm, and what is built. The predicate \<open>ensures\<close> with its rules carries invariants through a
    construction that may throw at any point.
\<close>

text \<open>
  Termination, bounds and fuel.
  \<^item> The loops over chunks, labels, queues, streams and dependencies are total functions, each with a measure.
  \<^item> The search for a free stream number (\<open>free_id\<close>) may go on for ever, so it is a partial function into
    \<open>option\<close>; the properties say exactly when it ends.
  \<^item> \<open>find_cycle\<close> takes a depth; with one more than the number of backends it never runs out, which is the
    lemma \<open>cycle_search_ends\<close>.
  \<^item> \<open>update_server\<close> walks a configuration by recursion and its depth bound \<open>w_depth\<close> stands for the stack of
    the C++ program; running out of it is undefined behaviour, an outcome of the model.
  \<^item> A thread that takes a lock it holds does not return; this is an outcome of the thread-safe layer.

  Not modelled.
  \<^item> Reference counts and the size of the memory pool: an address is never reused and the pool never exhausted.
  \<^item> Conversions between nodes and YAML, the YAML mediator, and the file backend, whose data are yaml-cpp
    values and the file system; the configuration is read through the record \<open>yaml\<close>.
  \<^item> The event loop, connections, sockets, ngtcp2, nghttp3 and TLS, and the utilities adapted from their
    examples (\<open>util\<close>, \<open>urlparse\<close>, \<open>siphash\<close>, \<open>http\<close>, \<open>tls_...\<close>, \<open>debug\<close>).
  \<^item> Starting and stopping threads, and interleavings finer than the critical sections of the code; an order of
    steps is a sequence of calls.
  \<^item> Starting and stopping a service, its help texts, console output, the server program and the JavaScript
    client.
  \<^item> A callback that calls back into the backend that is calling it, and two server routes over one backend.
\<close>

end
